(* ===== verification/Prelude.thy ===== *)
theory Prelude
  imports Main "HOL-Library.State_Monad" "HOL-Library.AList" "HOL-Library.Word"
begin

text \<open>
  Shared ground of the development: the rule collections, the names of the
  machine integers and of Go's maps, and a weakest-precondition calculus for the
  state monad in which the effectful code (the reconciler, the API client, the
  credential provider) is written.
\<close>

section \<open>Rule collections and type names\<close>

named_theorems wp_rules \<open>weakest preconditions of the monad's combinators and of the model's calls\<close>
named_theorems emits_rules \<open>which calls an operation makes\<close>
named_theorems maintains_rules \<open>which operations keep an invariant of the state\<close>
named_theorems go_consts \<open>definitions of the string constants of the source\<close>

type_synonym int32 = "32 word"
type_synonym int64 = "64 word"

text \<open>
  A Go \<open>map[string]string\<close> is an association list with distinct keys, listed in the
  order in which a \<open>range\<close> loop visits it. Go leaves that order open; every order of
  the entries is some list, so a statement about all lists covers all orders.
\<close>

type_synonym gomap = "(string \<times> string) list"

definition wf_map :: "('k \<times> 'v) list \<Rightarrow> bool" where
  "wf_map m \<longleftrightarrow> distinct (map fst m)"

text \<open>Indexing a Go map: the zero value (the empty string) where the key is missing.\<close>

definition map_index :: "gomap \<Rightarrow> string \<Rightarrow> string" where
  "map_index m k = (case map_of m k of None \<Rightarrow> [] | Some v \<Rightarrow> v)"

section \<open>Weakest preconditions over the state monad\<close>

definition wp :: "('s, 'a) state \<Rightarrow> ('a \<Rightarrow> 's \<Rightarrow> bool) \<Rightarrow> 's \<Rightarrow> bool" where
  "wp m Q s = (case run_state m s of (a, s') \<Rightarrow> Q a s')"

lemma wp_return [wp_rules]: "wp (State_Monad.return x) Q = Q x"
  by (simp add: wp_def fun_eq_iff)

lemma wp_bind [wp_rules]:
  "wp (State_Monad.bind m f) Q = wp m (\<lambda>a. wp (f a) Q)"
  by (simp add: wp_def fun_eq_iff split: prod.splits)

lemma wp_get [wp_rules]: "wp State_Monad.get Q s = Q s s"
  by (simp add: wp_def)

lemma wp_set [wp_rules]: "wp (State_Monad.set t) Q s = Q () t"
  by (simp add: wp_def)

lemma wp_if [wp_rules]:
  "wp (if b then m else n) Q s = (if b then wp m Q s else wp n Q s)"
  by simp

lemma wp_Let [wp_rules]: "wp (let x = t in f x) Q s = wp (f t) Q s"
  by (simp add: Let_def)

lemma wp_case_sum [wp_rules]:
  "wp (case x of Inl e \<Rightarrow> f e | Inr v \<Rightarrow> g v) Q s =
   (case x of Inl e \<Rightarrow> wp (f e) Q s | Inr v \<Rightarrow> wp (g v) Q s)"
  by (simp split: sum.split)

lemma wp_case_option [wp_rules]:
  "wp (case x of None \<Rightarrow> m | Some v \<Rightarrow> g v) Q s =
   (case x of None \<Rightarrow> wp m Q s | Some v \<Rightarrow> wp (g v) Q s)"
  by (simp split: option.split)

lemma wp_case_prod [wp_rules]:
  "wp (case x of (a, b) \<Rightarrow> f a b) Q s = (case x of (a, b) \<Rightarrow> wp (f a b) Q s)"
  by (simp split: prod.split)

lemma wp_State [wp_rules]: "wp (State f) Q s = (case f s of (a, s') \<Rightarrow> Q a s')"
  by (simp add: wp_def)

lemma wp_mono:
  assumes "wp m P s" and "\<And>a t. P a t \<Longrightarrow> Q a t"
  shows "wp m Q s"
  using assms by (auto simp: wp_def split: prod.splits)

lemma wp_conj: "wp m (\<lambda>a t. P a t \<and> Q a t) s = (wp m P s \<and> wp m Q s)"
  by (auto simp: wp_def split: prod.splits)

lemma wp_run: "wp m Q s \<Longrightarrow> run_state m s = (a, t) \<Longrightarrow> Q a t"
  by (simp add: wp_def)

lemma wp_runI: "(\<And>a t. run_state m s = (a, t) \<Longrightarrow> Q a t) \<Longrightarrow> wp m Q s"
  by (auto simp: wp_def split: prod.splits)

definition modify :: "('s \<Rightarrow> 's) \<Rightarrow> ('s, unit) state" where
  "modify f = State (\<lambda>s. ((), f s))"

lemma run_modify [simp]: "run_state (modify f) s = ((), f s)"
  by (simp add: modify_def)

lemma wp_modify [wp_rules]: "wp (modify f) Q s = Q () (f s)"
  by (simp add: modify_def wp_State)

definition gets :: "('s \<Rightarrow> 'a) \<Rightarrow> ('s, 'a) state" where
  "gets f = State (\<lambda>s. (f s, s))"

lemma run_gets [simp]: "run_state (gets f) s = (f s, s)"
  by (simp add: gets_def)

lemma wp_gets [wp_rules]: "wp (gets f) Q s = Q (f s) s"
  by (simp add: gets_def wp_State)

text \<open>An operation maintains an invariant of the state when it holds after it if it did before.\<close>

definition maintains :: "('s \<Rightarrow> bool) \<Rightarrow> ('s, 'a) state \<Rightarrow> bool" where
  "maintains I m \<longleftrightarrow> (\<forall>s. I s \<longrightarrow> wp m (\<lambda>_. I) s)"

lemma maintainsD: "maintains I m \<Longrightarrow> I s \<Longrightarrow> wp m (\<lambda>_. I) s"
  by (simp add: maintains_def)

lemma wp_maintains: "wp m Q s \<Longrightarrow> maintains I m \<Longrightarrow> I s \<Longrightarrow> wp m (\<lambda>a t. Q a t \<and> I t) s"
  by (simp add: wp_conj maintains_def)

lemma maintains_return [maintains_rules]: "maintains I (State_Monad.return x)"
  by (simp add: maintains_def wp_rules)

lemma maintains_bind [maintains_rules]:
  "maintains I m \<Longrightarrow> (\<And>a. maintains I (f a)) \<Longrightarrow> maintains I (State_Monad.bind m f)"
  unfolding maintains_def wp_bind by (blast intro: wp_mono)

lemma maintains_gets [maintains_rules]: "maintains I (gets f)"
  by (simp add: maintains_def wp_rules)

lemma maintains_modify: "(\<And>s. I s \<Longrightarrow> I (f s)) \<Longrightarrow> maintains I (modify f)"
  by (simp add: maintains_def wp_rules)

lemma maintains_if [maintains_rules]:
  "(b \<Longrightarrow> maintains I m) \<Longrightarrow> (\<not> b \<Longrightarrow> maintains I n) \<Longrightarrow> maintains I (if b then m else n)"
  by simp

lemma maintains_option [maintains_rules]:
  "(x = None \<Longrightarrow> maintains I m) \<Longrightarrow> (\<And>v. x = Some v \<Longrightarrow> maintains I (f v)) \<Longrightarrow>
   maintains I (case x of None \<Rightarrow> m | Some v \<Rightarrow> f v)"
  by (cases x) auto

lemma maintains_sum [maintains_rules]:
  "(\<And>e. x = Inl e \<Longrightarrow> maintains I (f e)) \<Longrightarrow> (\<And>v. x = Inr v \<Longrightarrow> maintains I (g v)) \<Longrightarrow>
   maintains I (case x of Inl e \<Rightarrow> f e | Inr v \<Rightarrow> g v)"
  by (cases x) auto

lemma maintains_prod [maintains_rules]:
  "(\<And>a b. maintains I (f a b)) \<Longrightarrow> maintains I (case x of (a, b) \<Rightarrow> f a b)"
  by (cases x) auto

lemma maintains_Let [maintains_rules]: "maintains I (f t) \<Longrightarrow> maintains I (let x = t in f x)"
  by (simp add: Let_def)

section \<open>Interfaces of the containers\<close>

text \<open>
  Two containers of the program are keyed stores with one entry per key: Go's maps (the
  tag sets) and the condition list of the custom resource (a list-map keyed by the
  condition type). The laws below are what the reconciler relies on; both are
  interpreted on the model's own operations. \<open>put\<close> may compute the stored value from
  the one it replaces, as \<open>setCondition\<close> does with the transition time.
\<close>

locale keyed_store =
  fixes keys :: "'c \<Rightarrow> 'k list"
    and lookup :: "'c \<Rightarrow> 'k \<Rightarrow> 'v option"
    and put :: "'k \<Rightarrow> 'u \<Rightarrow> 'c \<Rightarrow> 'c"
    and merge :: "'k \<Rightarrow> 'u \<Rightarrow> 'v option \<Rightarrow> 'v"
  assumes lookup_None_iff: "lookup c k = None \<longleftrightarrow> k \<notin> set (keys c)"
    and lookup_put: "lookup (put k u c) k' = (if k' = k then Some (merge k u (lookup c k)) else lookup c k')"
    and keys_put: "keys (put k u c) = (if k \<in> set (keys c) then keys c else keys c @ [k])"
begin

lemma put_keeps_distinct: "distinct (keys c) \<Longrightarrow> distinct (keys (put k u c))"
  by (simp add: keys_put)

lemma put_keeps_keys: "set (keys c) \<subseteq> set (keys (put k u c))"
  by (auto simp: keys_put)

lemma puts_keep_distinct:
  "distinct (keys c) \<Longrightarrow> distinct (keys (fold (\<lambda>(k, u). put k u) kus c))"
proof (induction kus arbitrary: c)
  case (Cons ku kus)
  then show ?case by (cases ku) (simp add: put_keeps_distinct)
qed simp

lemma lookup_puts_other:
  "k \<notin> fst ` set kus \<Longrightarrow> lookup (fold (\<lambda>(k, u). put k u) kus c) k = lookup c k"
proof (induction kus arbitrary: c)
  case (Cons ku kus)
  then show ?case by (cases ku) (simp add: lookup_put)
qed simp

lemma lookup_last_put:
  assumes "k \<notin> fst ` set kus"
  shows "lookup (fold (\<lambda>(k, u). put k u) kus (put k u c)) k = Some (merge k u (lookup c k))"
  using assms by (simp add: lookup_puts_other lookup_put)

end

locale erasable_store = keyed_store +
  fixes erase :: "'k \<Rightarrow> 'c \<Rightarrow> 'c"
  assumes lookup_erase: "lookup (erase k c) k' = (if k' = k then None else lookup c k')"
    and keys_erase: "keys (erase k c) = removeAll k (keys c)"
begin

lemma erases_keep_distinct: "distinct (keys c) \<Longrightarrow> distinct (keys (fold erase ks c))"
  by (induction ks arbitrary: c) (simp_all add: keys_erase distinct_removeAll)

lemma lookup_erases:
  "lookup (fold erase ks c) k = (if k \<in> set ks then None else lookup c k)"
  by (induction ks arbitrary: c) (simp_all add: lookup_erase)

text \<open>
  Putting every wanted entry whose key is in \<open>kus\<close> and erasing every other key leaves
  exactly the wanted entries.
\<close>

lemma erase_others:
  assumes "\<And>k. k \<in> W \<Longrightarrow> k \<notin> set ks" and "set (keys c) - W \<subseteq> set ks" and "k \<notin> W"
  shows "lookup (fold erase ks c) k = None"
  using assms lookup_None_iff by (auto simp: lookup_erases)

end

text \<open>Go's maps are such a store: \<open>m[k] = v\<close>, \<open>delete(m, k)\<close>, \<open>m[k]\<close>.\<close>

lemma map_fst_update:
  "map fst (AList.update k v m) = (if k \<in> fst ` set m then map fst m else map fst m @ [k])"
  by (induction m) auto

interpretation go_map: erasable_store "map fst" "map_of" AList.update "\<lambda>_ v _. v" AList.delete
proof unfold_locales
  show "(map_of c k = None) = (k \<notin> set (map fst c))" for c :: "('a \<times> 'b) list" and k
    by (simp add: map_of_eq_None_iff)
  show "map_of (AList.update k v c) k' = (if k' = k then Some v else map_of c k')"
    for k k' v and c :: "('a \<times> 'b) list"
    by (simp add: update_conv')
  show "map fst (AList.update k v c) = (if k \<in> set (map fst c) then map fst c else map fst c @ [k])"
    for k v and c :: "('a \<times> 'b) list"
    by (simp add: map_fst_update)
  show "map_of (AList.delete k c) k' = (if k' = k then None else map_of c k')"
    for k k' and c :: "('a \<times> 'b) list"
    by (simp add: delete_conv')
  show "map fst (AList.delete k c) = removeAll k (map fst c)" for k and c :: "('a \<times> 'b) list"
    by (simp add: AList.delete_keys)
qed

lemma wf_map_update: "wf_map m \<Longrightarrow> wf_map (AList.update k v m)"
  unfolding wf_map_def by (rule go_map.put_keeps_distinct)

lemma wf_map_delete: "wf_map m \<Longrightarrow> wf_map (AList.delete k m)"
  unfolding wf_map_def by (simp add: AList.delete_keys distinct_removeAll)

end
