(* ===== verification/Golang.thy ===== *)
theory Golang
  imports Prelude "HOL-Library.Sublist" "HOL-Library.Log_Nat"
begin

text \<open>
  What the source uses of Go's standard library: error values with \<open>fmt.Errorf\<close>
  wrapping and \<open>errors.Is\<close>/\<open>errors.As\<close>, decimal formatting and \<open>fmt.Sscanf\<close>'s
  \<open>%d\<close>, \<open>strings.Contains\<close>/\<open>ToLower\<close>, and \<open>time.Time\<close> with its wall and
  monotonic readings. A Go string is its list of bytes, as HOL's \<open>string\<close>.
\<close>

section \<open>Error values\<close>

text \<open>
  The error values that reach the code. \<open>ErrFsNotFound\<close> is the sentinel of
  internal/huawei/errors.go; \<open>ServiceResponseError\<close> is the SDK's error struct, with
  the two fields the code reads and the text its \<open>Error()\<close> renders; \<open>Errorf pre e post\<close>
  is \<open>fmt.Errorf\<close> of a format with one \<open>%w\<close>, everything else already formatted;
  \<open>OtherError\<close> is any error the code only prints (\<open>errors.New\<close>, an API error).
\<close>

datatype err =
    ErrFsNotFound
  | ServiceResponseError (StatusCode: int) (ErrorMessage: string) (rendered: string)
  | Errorf string err string
  | OtherError string

text \<open>The \<open>Error()\<close> method.\<close>

fun error_text :: "err \<Rightarrow> string" where
  "error_text ErrFsNotFound = ''sfs turbo share not found''"
| "error_text (ServiceResponseError _ _ t) = t"
| "error_text (Errorf pre e post) = pre @ error_text e @ post"
| "error_text (OtherError t) = t"

text \<open>\<open>errors.Is(e, ErrFsNotFound)\<close> and \<open>errors.As(e, &serviceErr)\<close>: both walk the chain of wrapped errors.\<close>

fun is_ErrFsNotFound :: "err \<Rightarrow> bool" where
  "is_ErrFsNotFound ErrFsNotFound = True"
| "is_ErrFsNotFound (Errorf _ e _) = is_ErrFsNotFound e"
| "is_ErrFsNotFound _ = False"

fun as_ServiceResponseError :: "err \<Rightarrow> (int \<times> string) option" where
  "as_ServiceResponseError (ServiceResponseError c m _) = Some (c, m)"
| "as_ServiceResponseError (Errorf _ e _) = as_ServiceResponseError e"
| "as_ServiceResponseError _ = None"

section \<open>Decimal numbers\<close>

definition digit :: "nat \<Rightarrow> char" where
  "digit n = char_of (48 + n)"

definition digit_val :: "char \<Rightarrow> nat" where
  "digit_val c = of_char c - 48"

definition is_digit :: "char \<Rightarrow> bool" where
  "is_digit c \<longleftrightarrow> 48 \<le> (of_char c :: nat) \<and> (of_char c :: nat) \<le> 57"

fun decimal :: "nat \<Rightarrow> string" where
  "decimal n = (if n < 10 then [digit n] else decimal (n div 10) @ [digit (n mod 10)])"

declare decimal.simps [simp del]

text \<open>\<open>fmt.Sprintf("%d", n)\<close>\<close>

definition format_d :: "int \<Rightarrow> string" where
  "format_d i = (if i < 0 then CHR ''-'' # decimal (nat (- i)) else decimal (nat i))"

definition digits_val :: "string \<Rightarrow> nat" where
  "digits_val ds = foldl (\<lambda>a c. 10 * a + digit_val c) 0 ds"

text \<open>
  \<open>fmt.Sscanf(s, "%d", &n)\<close> with an \<open>int32\<close>: leading spaces are skipped (a newline is
  an error), one sign and at least one digit are read and converted, what follows the
  digits is left alone; \<open>None\<close> is the error result, which leaves \<open>n\<close> as it was.
  The white space beyond ASCII is given by its UTF-8 bytes.
\<close>

definition ascii_space :: "char \<Rightarrow> bool" where
  "ascii_space c \<longleftrightarrow> of_char c \<in> {9::nat, 11, 12, 13, 32}"

definition wide_space2 :: "char \<Rightarrow> char \<Rightarrow> bool" where
  "wide_space2 a b \<longleftrightarrow> (of_char a :: nat) = 0xC2 \<and> of_char b \<in> {0x85::nat, 0xA0}"

definition wide_space3 :: "char \<Rightarrow> char \<Rightarrow> char \<Rightarrow> bool" where
  "wide_space3 a b c \<longleftrightarrow>
     ((of_char a :: nat), (of_char b :: nat)) = (0xE1, 0x9A) \<and> (of_char c :: nat) = 0x80
   \<or> ((of_char a :: nat), (of_char b :: nat)) = (0xE2, 0x80)
       \<and> (0x80 \<le> (of_char c :: nat) \<and> (of_char c :: nat) \<le> 0x8A \<or> of_char c \<in> {0xA8::nat, 0xA9, 0xAF})
   \<or> ((of_char a :: nat), (of_char b :: nat)) = (0xE2, 0x81) \<and> (of_char c :: nat) = 0x9F
   \<or> ((of_char a :: nat), (of_char b :: nat)) = (0xE3, 0x80) \<and> (of_char c :: nat) = 0x80"

fun skip_space :: "string \<Rightarrow> string option" where
  "skip_space [] = Some []"
| "skip_space (a # s) =
     (if (of_char a :: nat) = 10 then None
      else if ascii_space a then skip_space s
      else (case s of
          b # c # t \<Rightarrow>
            (if wide_space2 a b then skip_space (c # t)
             else if wide_space3 a b c then skip_space t
             else Some (a # s))
        | [b] \<Rightarrow> if wide_space2 a b then Some [] else Some (a # s)
        | [] \<Rightarrow> Some (a # s)))"

definition accept_sign :: "string \<Rightarrow> bool \<times> string" where
  "accept_sign s = (case s of
       c # t \<Rightarrow> if c = CHR ''-'' then (True, t) else if c = CHR ''+'' then (False, t) else (False, s)
     | [] \<Rightarrow> (False, []))"

definition Sscanf_d32 :: "string \<Rightarrow> int32 option" where
  "Sscanf_d32 s = (case skip_space s of
       None \<Rightarrow> None
     | Some r \<Rightarrow>
         (let (neg, t) = accept_sign r; tok = takeWhile is_digit t;
              v = (if neg then - int (digits_val tok) else int (digits_val tok))
          in if tok = [] then None
             else if - (2 ^ 31) \<le> v \<and> v < 2 ^ 31 then Some (word_of_int v)
             else None))"

lemma digit_val_digit: "n < 10 \<Longrightarrow> digit_val (digit n) = n"
  by (simp add: digit_val_def digit_def)

lemma is_digit_digit: "n < 10 \<Longrightarrow> is_digit (digit n)"
  by (simp add: is_digit_def digit_def)

lemma decimal_not_Nil: "decimal n \<noteq> []"
  by (subst decimal.simps) simp

lemma decimal_digits: "\<forall>c \<in> set (decimal n). is_digit c"
proof (induction n rule: decimal.induct)
  case (1 n)
  then show ?case
    by (cases "n < 10") (auto simp: decimal.simps [of n] is_digit_digit)
qed

lemma digits_val_snoc: "digits_val (ds @ [c]) = 10 * digits_val ds + digit_val c"
  by (simp add: digits_val_def)

lemma digits_val_decimal: "digits_val (decimal n) = n"
proof (induction n rule: decimal.induct)
  case (1 n)
  show ?case
  proof (cases "n < 10")
    case True
    then show ?thesis
      by (simp add: decimal.simps [of n] digits_val_def digit_val_digit)
  next
    case False
    with 1 show ?thesis
      by (simp add: decimal.simps [of n] digits_val_snoc digit_val_digit)
  qed
qed

lemma takeWhile_decimal: "takeWhile is_digit (decimal n @ rest) =
    decimal n @ takeWhile is_digit rest"
  using decimal_digits by (simp add: takeWhile_append2)

text \<open>Digits and signs are no white space, so a formatted number starts a token at once.\<close>

lemma skip_space_stop:
  assumes "is_digit c \<or> c = CHR ''-''"
  shows "skip_space (c # s) = Some (c # s)"
proof -
  have ge: "44 \<le> (of_char c :: nat)" and le: "(of_char c :: nat) \<le> 57"
    using assms by (auto simp: is_digit_def)
  have "\<not> ascii_space c" "\<not> wide_space2 c b" "\<not> wide_space3 c b d" for b d
    using ge le by (auto simp: ascii_space_def wide_space2_def wide_space3_def)
  with ge show ?thesis by (auto split: list.splits)
qed

lemma Sscanf_format:
  assumes "- (2 ^ 31) \<le> i" and "i < 2 ^ 31"
    and "rest = [] \<or> \<not> is_digit (hd rest)"
  shows "Sscanf_d32 (format_d i @ rest) = Some (word_of_int i)"
proof -
  have tw: "takeWhile is_digit rest = []" using assms(3) by (cases rest) auto
  obtain c s where dec: "decimal (nat \<bar>i\<bar>) = c # s" and c: "is_digit c"
    using decimal_not_Nil decimal_digits [of "nat \<bar>i\<bar>"]
    by (cases "decimal (nat \<bar>i\<bar>)") auto
  have c_sign: "c \<noteq> CHR ''-''" "c \<noteq> CHR ''+''" using c by (auto simp: is_digit_def)
  have val: "digits_val (c # s) = nat \<bar>i\<bar>" using digits_val_decimal [of "nat \<bar>i\<bar>"] dec by simp
  have tok: "takeWhile is_digit (c # s @ rest) = c # s"
    using takeWhile_decimal [of "nat \<bar>i\<bar>" rest] dec tw by simp
  show ?thesis
  proof (cases "i < 0")
    case True
    then have f: "format_d i @ rest = CHR ''-'' # c # s @ rest"
      using dec by (simp add: format_d_def)
    show ?thesis unfolding f Sscanf_d32_def
      using True val tok assms(1,2) c
      by (simp add: skip_space_stop accept_sign_def del: skip_space.simps takeWhile.simps)
  next
    case False
    then have f: "format_d i @ rest = c # s @ rest" using dec by (simp add: format_d_def)
    show ?thesis unfolding f Sscanf_d32_def
      using False val tok assms(1,2) c c_sign
      by (simp add: skip_space_stop accept_sign_def del: skip_space.simps takeWhile.simps)
  qed
qed

section \<open>Strings\<close>

text \<open>
  \<open>strings.Contains(s, sub)\<close>, and \<open>strings.ToLower\<close> as far as a search for an ASCII
  word can see it: ASCII letters are lowered, and so are the two letters outside ASCII
  whose lower case is an ASCII letter (U+0130 to i, U+212A to k); every other character
  outside ASCII stays outside ASCII.
\<close>

fun strings_Contains :: "string \<Rightarrow> string \<Rightarrow> bool" where
  "strings_Contains [] sub = (sub = [])"
| "strings_Contains (c # s) sub = (take (length sub) (c # s) = sub \<or> strings_Contains s sub)"

lemma strings_Contains_iff: "strings_Contains s sub \<longleftrightarrow> (\<exists>a b. s = a @ sub @ b)"
proof (induction s)
  case (Cons c s)
  have "take (length sub) (c # s) = sub \<longleftrightarrow> (\<exists>b. c # s = sub @ b)"
    by (metis append_eq_conv_conj append_take_drop_id)
  moreover have "(\<exists>a b. c # s = a @ sub @ b) \<longleftrightarrow> (\<exists>b. c # s = sub @ b) \<or> (\<exists>a b. s = a @ sub @ b)"
    by (metis Cons_eq_append_conv append_Cons append_Nil)
  ultimately show ?case using Cons by simp
qed simp

definition lower_char :: "char \<Rightarrow> char" where
  "lower_char c = (if 65 \<le> (of_char c :: nat) \<and> (of_char c :: nat) \<le> 90
     then char_of ((of_char c :: nat) + 32) else c)"

fun strings_ToLower :: "string \<Rightarrow> string" where
  "strings_ToLower [] = []"
| "strings_ToLower (a # s) =
     (case s of
        b # c # t \<Rightarrow>
          (if ((of_char a :: nat), (of_char b :: nat)) = (0xC4, 0xB0) then CHR ''i'' # strings_ToLower (c # t)
           else if ((of_char a :: nat), (of_char b :: nat), (of_char c :: nat)) = (0xE2, 0x84, 0xAA)
             then CHR ''k'' # strings_ToLower t
           else lower_char a # strings_ToLower s)
      | [b] \<Rightarrow> if ((of_char a :: nat), (of_char b :: nat)) = (0xC4, 0xB0) then [CHR ''i'']
               else lower_char a # strings_ToLower s
      | [] \<Rightarrow> [lower_char a])"

section \<open>Times and durations\<close>

text \<open>
  A \<open>time.Time\<close> has a wall reading (nanoseconds since the Unix epoch) and, when it
  came from \<open>time.Now()\<close>, a monotonic reading, which \<open>UTC()\<close> strips. \<open>Sub\<close> and
  \<open>Before\<close> use the monotonic readings when both times have one. A \<open>time.Duration\<close>
  is an \<open>int64\<close> of nanoseconds; \<open>Sub\<close> saturates at its ends.
\<close>

record gtime =
  wall :: int
  mono :: "int option"

definition second :: int where "second = 1000000000"
definition minute :: int where "minute = 60 * second"

definition saturate64 :: "int \<Rightarrow> int" where
  "saturate64 d = max (- (2 ^ 63)) (min (2 ^ 63 - 1) d)"

definition time_Sub :: "gtime \<Rightarrow> gtime \<Rightarrow> int" where
  "time_Sub t u = saturate64 (case (mono t, mono u) of
     (Some a, Some b) \<Rightarrow> a - b | _ \<Rightarrow> wall t - wall u)"

definition time_Before :: "gtime \<Rightarrow> gtime \<Rightarrow> bool" where
  "time_Before t u = (case (mono t, mono u) of
     (Some a, Some b) \<Rightarrow> a < b | _ \<Rightarrow> wall t < wall u)"

definition time_UTC :: "gtime \<Rightarrow> gtime" where
  "time_UTC t = t\<lparr>mono := None\<rparr>"

text \<open>The zero \<open>time.Time\<close>, 1 January of year 1.\<close>

definition time_IsZero :: "gtime \<Rightarrow> bool" where
  "time_IsZero t \<longleftrightarrow> wall t = - 62135596800 * second"

section \<open>float64\<close>

text \<open>
  \<open>float64(n)\<close> of an integer: the nearest integer with at most 53 significant bits, ties
  to the even one. \<open>half64\<close> is \<open>int64(float64(n) * 0.5)\<close>: the product is exact and the
  conversion truncates towards zero.
\<close>

definition round53 :: "nat \<Rightarrow> nat" where
  "round53 n = (let e = floorlog 2 n - 53; q = n div 2 ^ e; r = n mod 2 ^ e in
     if e = 0 then n
     else if 2 * r < 2 ^ e \<or> 2 * r = 2 ^ e \<and> even q then q * 2 ^ e
     else (q + 1) * 2 ^ e)"

definition float64_of_int :: "int \<Rightarrow> int" where
  "float64_of_int i = (if i < 0 then - int (round53 (nat (- i))) else int (round53 (nat i)))"

definition half64 :: "int \<Rightarrow> int" where
  "half64 i = (let v = float64_of_int i in if v < 0 then - ((- v) div 2) else v div 2)"

lemma round53_bounds: "round53 n \<le> 2 * n" "n \<le> 2 * round53 n"
proof -
  define e where "e = floorlog 2 n - 53"
  define q where "q = n div 2 ^ e"
  define r where "r = n mod 2 ^ e"
  have n: "n = q * 2 ^ e + r" by (simp only: q_def r_def div_mult_mod_eq)
  have r: "r < 2 ^ e" by (simp add: r_def)
  have q: "1 \<le> q" if "0 < e"
  proof -
    have "0 < n" using that by (cases n) (auto simp: e_def floorlog_def)
    then have "2 ^ (floorlog 2 n - 1) \<le> n" using floorlog_bounds [of n 2] by simp
    moreover have "(2::nat) ^ e \<le> 2 ^ (floorlog 2 n - 1)"
      by (rule power_increasing) (use that in \<open>auto simp: e_def\<close>)
    ultimately have "2 ^ e \<le> n" by (rule order_trans [rotated])
    then show ?thesis by (simp add: q_def Suc_le_eq div_greater_zero_iff)
  qed
  have def: "round53 n = (if e = 0 then n
     else if 2 * r < 2 ^ e \<or> 2 * r = 2 ^ e \<and> even q then q * 2 ^ e else (q + 1) * 2 ^ e)"
    by (simp add: round53_def Let_def e_def q_def r_def)
  have low: "q * 2 ^ e \<le> n" and high: "n < (q + 1) * 2 ^ e" using n r by simp_all
  have one: "(2::nat) ^ e \<le> q * 2 ^ e" if "0 < e" using q [OF that] by simp
  define a where "a = q * 2 ^ e"
  define b where "b = (2::nat) ^ e"
  have def': "round53 n = n \<or> 0 < e \<and> (round53 n = a \<or> round53 n = a + b)"
    unfolding def a_def b_def by (auto simp: algebra_simps)
  have "a \<le> n" "n < a + b" "0 < e \<Longrightarrow> b \<le> a"
    using low high one by (simp_all only: a_def b_def distrib_right mult_1)
  then show "round53 n \<le> 2 * n" "n \<le> 2 * round53 n"
    using def' by auto
qed

lemma half64_le:
  assumes "0 \<le> i"
  shows "0 \<le> half64 i" "half64 i \<le> i"
proof -
  have "int (round53 (nat i)) \<le> 2 * i"
    using round53_bounds(1) [of "nat i"] assms by linarith
  with assms show "0 \<le> half64 i" "half64 i \<le> i"
    by (auto simp: half64_def float64_of_int_def Let_def)
qed

lemma half64_neg: "i < 0 \<Longrightarrow> half64 i \<le> 0"
  by (auto simp: half64_def float64_of_int_def Let_def)

text \<open>Up to 53 bits there is no rounding.\<close>

lemma half64_exact:
  assumes "0 \<le> i" and "i < 2 ^ 53"
  shows "half64 i = i div 2"
proof -
  have "floorlog 2 (nat i) \<le> 53"
    using assms by (intro floorlog_leI) auto
  with assms show ?thesis by (simp add: half64_def float64_of_int_def round53_def Let_def)
qed

end
