(* ===== verification/Api.thy ===== *)
theory Api
  imports Golang
begin

text \<open>
  The custom resource \<open>SfsTurboInstance\<close> (api/v1alpha1/sfsturboinstance_types.go): its
  spec, status, conditions and metadata as records, the string constants of the
  package, the JSON form of the spec with its \<open>omitempty\<close> fields, and the defaults and
  bounds of the kubebuilder markers. Of \<open>metav1.ObjectMeta\<close> the fields the operator
  reads or writes are kept.
\<close>

section \<open>Types\<close>

type_synonym ReclaimPolicy = string
type_synonym ShareType = string

definition ReclaimPolicyRetain :: ReclaimPolicy where [go_consts]: "ReclaimPolicyRetain = ''Retain''"
definition ReclaimPolicyDelete :: ReclaimPolicy where [go_consts]: "ReclaimPolicyDelete = ''Delete''"
definition ShareTypeStandard :: ShareType where [go_consts]: "ShareTypeStandard = ''STANDARD''"
definition ShareTypePerformance :: ShareType where [go_consts]: "ShareTypePerformance = ''PERFORMANCE''"

record SfsTurboInstanceSpec =
  sp_ReclaimPolicy :: ReclaimPolicy
  sp_PausedReconcile :: bool
  sp_FsName :: string
  sp_Size :: int32
  sp_ShareType :: ShareType
  sp_ShareProtocol :: string
  sp_Enhanced :: bool
  sp_AvailabilityZone :: string
  sp_VpcId :: string
  sp_SubnetId :: string
  sp_SecurityGroupId :: string
  sp_CryptKeyId :: string
  sp_AutoCreateSgRules :: bool
  sp_Tags :: gomap
  sp_PvcName :: string
  sp_PvcSize :: string
  sp_StorageClassName :: string

text \<open>\<open>metav1.ConditionStatus\<close> is a string type; the operator writes \<open>"True"\<close> and \<open>"False"\<close>.\<close>

definition ConditionTrue :: string where [go_consts]: "ConditionTrue = ''True''"
definition ConditionFalse :: string where [go_consts]: "ConditionFalse = ''False''"

record Condition =
  co_Type :: string
  co_Status :: string
  co_Reason :: string
  co_Message :: string
  co_LastTransitionTime :: gtime
  co_ObservedGeneration :: int

record SfsTurboInstanceStatus =
  st_FsId :: string
  st_ExportPath :: string
  st_Size :: int32
  st_SecurityGroupId :: string
  st_Tags :: gomap
  st_ObservedGeneration :: int
  st_Conditions :: "Condition list"

record SfsTurboInstance =
  cr_Name :: string
  cr_Namespace :: string
  cr_Generation :: int
  cr_Finalizers :: "string list"
  cr_DeletionTimestamp :: "gtime option"
  cr_Spec :: SfsTurboInstanceSpec
  cr_Status :: SfsTurboInstanceStatus

section \<open>Condition types, reasons and the finalizer\<close>

definition ConditionReady :: string where [go_consts]: "ConditionReady = ''Ready''"
definition ConditionProvisioning :: string where [go_consts]: "ConditionProvisioning = ''Provisioning''"
definition ConditionDeleting :: string where [go_consts]: "ConditionDeleting = ''Deleting''"
definition ConditionExpanding :: string where [go_consts]: "ConditionExpanding = ''Expanding''"
definition ConditionUpdatingSecurityGroup :: string where
  [go_consts]: "ConditionUpdatingSecurityGroup = ''UpdatingSecurityGroup''"
definition ConditionFailed :: string where [go_consts]: "ConditionFailed = ''Failed''"

definition ReasonFsCreated :: string where [go_consts]: "ReasonFsCreated = ''FsCreated''"
definition ReasonFsCreatePending :: string where [go_consts]: "ReasonFsCreatePending = ''FsCreatePending''"
definition ReasonFsCreateFailed :: string where [go_consts]: "ReasonFsCreateFailed = ''FsCreateFailed''"
definition ReasonFsDeletePending :: string where [go_consts]: "ReasonFsDeletePending = ''FsDeletePending''"
definition ReasonFsDeleted :: string where [go_consts]: "ReasonFsDeleted = ''FsDeleted''"
definition ReasonFsDeleteFailed :: string where [go_consts]: "ReasonFsDeleteFailed = ''FsDeleteFailed''"
definition ReasonFsExpandPending :: string where [go_consts]: "ReasonFsExpandPending = ''FsExpandPending''"
definition ReasonFsExpanded :: string where [go_consts]: "ReasonFsExpanded = ''FsExpanded''"
definition ReasonShrinkRefused :: string where [go_consts]: "ReasonShrinkRefused = ''ShrinkRefused''"
definition ReasonReconcilePaused :: string where [go_consts]: "ReasonReconcilePaused = ''ReconcilePaused''"
definition ReasonHuaweiAPIError :: string where [go_consts]: "ReasonHuaweiAPIError = ''HuaweiAPIError''"
definition ReasonRetainPolicyApplied :: string where
  [go_consts]: "ReasonRetainPolicyApplied = ''RetainPolicyApplied''"
definition ReasonValidationFailed :: string where [go_consts]: "ReasonValidationFailed = ''ValidationFailed''"
definition ReasonTagsDriftDetected :: string where [go_consts]: "ReasonTagsDriftDetected = ''TagsDriftDetected''"
definition ReasonTagsReconciled :: string where [go_consts]: "ReasonTagsReconciled = ''TagsReconciled''"
definition ReasonSgUpdatePending :: string where [go_consts]: "ReasonSgUpdatePending = ''SgUpdatePending''"
definition ReasonSgUpdated :: string where [go_consts]: "ReasonSgUpdated = ''SgUpdated''"
definition ReasonSgUpdateFailed :: string where [go_consts]: "ReasonSgUpdateFailed = ''SgUpdateFailed''"
definition ReasonImmutableFieldChanged :: string where
  [go_consts]: "ReasonImmutableFieldChanged = ''ImmutableFieldChanged''"

definition Finalizer :: string where
  [go_consts]: "Finalizer = ''sfs.huaweicloud.com/sfs-turbo-finalizer''"

lemma condition_types_distinct [simp]:
  "ConditionReady \<noteq> ConditionProvisioning" "ConditionProvisioning \<noteq> ConditionReady"
  "ConditionReady \<noteq> ConditionDeleting" "ConditionDeleting \<noteq> ConditionReady"
  "ConditionReady \<noteq> ConditionExpanding" "ConditionExpanding \<noteq> ConditionReady"
  "ConditionReady \<noteq> ConditionUpdatingSecurityGroup" "ConditionUpdatingSecurityGroup \<noteq> ConditionReady"
  "ConditionReady \<noteq> ConditionFailed" "ConditionFailed \<noteq> ConditionReady"
  "ConditionProvisioning \<noteq> ConditionDeleting" "ConditionDeleting \<noteq> ConditionProvisioning"
  "ConditionProvisioning \<noteq> ConditionExpanding" "ConditionExpanding \<noteq> ConditionProvisioning"
  "ConditionProvisioning \<noteq> ConditionUpdatingSecurityGroup"
  "ConditionUpdatingSecurityGroup \<noteq> ConditionProvisioning"
  "ConditionProvisioning \<noteq> ConditionFailed" "ConditionFailed \<noteq> ConditionProvisioning"
  "ConditionDeleting \<noteq> ConditionExpanding" "ConditionExpanding \<noteq> ConditionDeleting"
  "ConditionDeleting \<noteq> ConditionUpdatingSecurityGroup" "ConditionUpdatingSecurityGroup \<noteq> ConditionDeleting"
  "ConditionDeleting \<noteq> ConditionFailed" "ConditionFailed \<noteq> ConditionDeleting"
  "ConditionExpanding \<noteq> ConditionUpdatingSecurityGroup" "ConditionUpdatingSecurityGroup \<noteq> ConditionExpanding"
  "ConditionExpanding \<noteq> ConditionFailed" "ConditionFailed \<noteq> ConditionExpanding"
  "ConditionUpdatingSecurityGroup \<noteq> ConditionFailed" "ConditionFailed \<noteq> ConditionUpdatingSecurityGroup"
  by (simp_all add: go_consts)

lemma condition_status_distinct [simp]:
  "ConditionTrue \<noteq> ConditionFalse" "ConditionFalse \<noteq> ConditionTrue"
  by (simp_all add: go_consts)

lemma reclaim_policies_distinct [simp]:
  "ReclaimPolicyRetain \<noteq> ReclaimPolicyDelete" "ReclaimPolicyDelete \<noteq> ReclaimPolicyRetain"
  by (simp_all add: go_consts)

section \<open>Admission: the bounds of the validation markers\<close>

text \<open>
  The markers on the spec's fields, which the API server enforces: \<open>MinLength\<close>/\<open>MaxLength\<close>
  on \<open>fsName\<close>, \<open>Minimum\<close>/\<open>Maximum\<close> on \<open>size\<close>, the enumerations. An absent enumerated
  field has been given its default before it is checked. \<open>MaxLength\<close> counts characters;
  the names are ASCII here.
\<close>

definition valid_spec :: "SfsTurboInstanceSpec \<Rightarrow> bool" where
  "valid_spec s \<longleftrightarrow>
     sp_ReclaimPolicy s \<in> {ReclaimPolicyRetain, ReclaimPolicyDelete}
   \<and> 4 \<le> length (sp_FsName s) \<and> length (sp_FsName s) \<le> 64
   \<and> 500 \<le> sint (sp_Size s) \<and> sint (sp_Size s) \<le> 32768
   \<and> sp_ShareType s \<in> {ShareTypeStandard, ShareTypePerformance}
   \<and> sp_ShareProtocol s = ''NFS''"

section \<open>The spec as JSON\<close>

text \<open>
  What \<open>encoding/json\<close> sends for a \<open>SfsTurboInstanceSpec\<close>: one field per struct tag, and
  an \<open>omitempty\<close> field only when it is not its zero value (\<open>""\<close>, \<open>false\<close>, an empty
  map). This is the body of every \<open>Update\<close> the operator makes. A time is sent as RFC 3339 text
  with whole seconds, which \<open>JTime\<close> names by the second since the epoch.
\<close>

datatype json = JStr string | JBool bool | JInt int | JObj gomap
  | JNull | JTime int | JList "(string \<times> json) list list"

type_synonym fields = "(string \<times> json) list"

definition omit_str :: "string \<Rightarrow> string \<Rightarrow> fields" where
  "omit_str k v = (if v = [] then [] else [(k, JStr v)])"

definition omit_bool :: "string \<Rightarrow> bool \<Rightarrow> fields" where
  "omit_bool k v = (if v then [(k, JBool True)] else [])"

definition omit_map :: "string \<Rightarrow> gomap \<Rightarrow> fields" where
  "omit_map k v = (if v = [] then [] else [(k, JObj v)])"

definition marshal_spec :: "SfsTurboInstanceSpec \<Rightarrow> fields" where
  "marshal_spec s =
     omit_str ''reclaimPolicy'' (sp_ReclaimPolicy s)
   @ omit_bool ''pausedReconcile'' (sp_PausedReconcile s)
   @ [(''fsName'', JStr (sp_FsName s)), (''size'', JInt (sint (sp_Size s)))]
   @ omit_str ''shareType'' (sp_ShareType s)
   @ omit_str ''shareProtocol'' (sp_ShareProtocol s)
   @ omit_bool ''enhanced'' (sp_Enhanced s)
   @ [(''availabilityZone'', JStr (sp_AvailabilityZone s)), (''vpcId'', JStr (sp_VpcId s)),
      (''subnetId'', JStr (sp_SubnetId s))]
   @ omit_str ''securityGroupId'' (sp_SecurityGroupId s)
   @ omit_str ''cryptKeyId'' (sp_CryptKeyId s)
   @ omit_bool ''autoCreateSgRules'' (sp_AutoCreateSgRules s)
   @ omit_map ''tags'' (sp_Tags s)
   @ omit_str ''pvcName'' (sp_PvcName s)
   @ omit_str ''pvcSize'' (sp_PvcSize s)
   @ omit_str ''storageClassName'' (sp_StorageClassName s)"

text \<open>
  The \<open>+kubebuilder:default\<close> markers: a field that is absent from what a client sends
  is filled in before it is stored.
\<close>

definition marker_defaults :: fields where
  "marker_defaults =
     [(''reclaimPolicy'', JStr ReclaimPolicyRetain), (''pausedReconcile'', JBool False),
      (''shareType'', JStr ShareTypeStandard), (''shareProtocol'', JStr ''NFS''),
      (''enhanced'', JBool False), (''autoCreateSgRules'', JBool True)]"

definition apply_defaults :: "fields \<Rightarrow> fields" where
  "apply_defaults fs = fs @ filter (\<lambda>(k, _). k \<notin> set (map fst fs)) marker_defaults"

text \<open>Reading the fields back: a missing or mistyped field leaves the zero value.\<close>

definition get_str :: "fields \<Rightarrow> string \<Rightarrow> string" where
  "get_str fs k = (case map_of fs k of Some (JStr v) \<Rightarrow> v | _ \<Rightarrow> [])"

definition get_bool :: "fields \<Rightarrow> string \<Rightarrow> bool" where
  "get_bool fs k = (case map_of fs k of Some (JBool v) \<Rightarrow> v | _ \<Rightarrow> False)"

definition get_int :: "fields \<Rightarrow> string \<Rightarrow> int" where
  "get_int fs k = (case map_of fs k of Some (JInt v) \<Rightarrow> v | _ \<Rightarrow> 0)"

definition get_map :: "fields \<Rightarrow> string \<Rightarrow> gomap" where
  "get_map fs k = (case map_of fs k of Some (JObj v) \<Rightarrow> v | _ \<Rightarrow> [])"

definition unmarshal_spec :: "fields \<Rightarrow> SfsTurboInstanceSpec" where
  "unmarshal_spec fs = \<lparr>
     sp_ReclaimPolicy = get_str fs ''reclaimPolicy'',
     sp_PausedReconcile = get_bool fs ''pausedReconcile'',
     sp_FsName = get_str fs ''fsName'',
     sp_Size = word_of_int (get_int fs ''size''),
     sp_ShareType = get_str fs ''shareType'',
     sp_ShareProtocol = get_str fs ''shareProtocol'',
     sp_Enhanced = get_bool fs ''enhanced'',
     sp_AvailabilityZone = get_str fs ''availabilityZone'',
     sp_VpcId = get_str fs ''vpcId'',
     sp_SubnetId = get_str fs ''subnetId'',
     sp_SecurityGroupId = get_str fs ''securityGroupId'',
     sp_CryptKeyId = get_str fs ''cryptKeyId'',
     sp_AutoCreateSgRules = get_bool fs ''autoCreateSgRules'',
     sp_Tags = get_map fs ''tags'',
     sp_PvcName = get_str fs ''pvcName'',
     sp_PvcSize = get_str fs ''pvcSize'',
     sp_StorageClassName = get_str fs ''storageClassName''\<rparr>"

text \<open>What is stored after the operator writes a spec back with \<open>Update\<close>.\<close>

definition stored_spec :: "SfsTurboInstanceSpec \<Rightarrow> SfsTurboInstanceSpec" where
  "stored_spec s = unmarshal_spec (apply_defaults (marshal_spec s))"

text \<open>Looking a field up through the concatenation: the first field of that name counts.\<close>

lemma map_of_omit:
  "map_of (omit_str k v) k' = (if k' = k \<and> v \<noteq> [] then Some (JStr v) else None)"
  "map_of (omit_bool k b) k' = (if k' = k \<and> b then Some (JBool True) else None)"
  "map_of (omit_map k m) k' = (if k' = k \<and> m \<noteq> [] then Some (JObj m) else None)"
  by (auto simp: omit_str_def omit_bool_def omit_map_def)

lemma map_of_apply_defaults:
  "map_of (apply_defaults fs) k = (case map_of fs k of None \<Rightarrow> map_of marker_defaults k | Some v \<Rightarrow> Some v)"
proof -
  have flt: "map_of (filter (\<lambda>(k, _). P k) ds) k = (if P k then map_of ds k else None)"
    for P :: "string \<Rightarrow> bool" and ds :: fields
    by (induction ds) auto
  show ?thesis
  proof (cases "map_of fs k")
    case None
    then have "k \<notin> set (map fst fs)" by (simp add: map_of_eq_None_iff)
    with None show ?thesis unfolding apply_defaults_def by (simp add: map_add_def flt del: set_map)
  next
    case (Some v)
    then show ?thesis by (simp add: apply_defaults_def map_add_def)
  qed
qed

lemma map_of_append_at: "map_of (xs @ ys) k = (case map_of xs k of None \<Rightarrow> map_of ys k | Some v \<Rightarrow> Some v)"
  by (simp add: map_add_def)

lemma stored_spec_eq:
  "stored_spec s = s\<lparr>
     sp_ReclaimPolicy := (if sp_ReclaimPolicy s = [] then ReclaimPolicyRetain else sp_ReclaimPolicy s),
     sp_ShareType := (if sp_ShareType s = [] then ShareTypeStandard else sp_ShareType s),
     sp_ShareProtocol := (if sp_ShareProtocol s = [] then ''NFS'' else sp_ShareProtocol s),
     sp_AutoCreateSgRules := True\<rparr>"
  unfolding stored_spec_def unmarshal_spec_def get_str_def get_bool_def get_int_def get_map_def
    map_of_apply_defaults
  by (rule SfsTurboInstanceSpec.equality)
    (simp_all add: marshal_spec_def marker_defaults_def map_of_append_at map_of_omit
      split: if_split del: map_of_append)

text \<open>
  C39. A spec that the operator writes back comes back as it was, with the enumerated
  fields that were empty set to their defaults, except for \<open>autoCreateSgRules\<close>: whatever
  the user had chosen, the stored value is \<open>true\<close>, since \<open>omitempty\<close> drops \<open>false\<close>
  and the marker's default is \<open>true\<close>.
\<close>

theorem stored_spec_forces_sg_rules:
  "stored_spec s = s\<lparr>
     sp_ReclaimPolicy := (if sp_ReclaimPolicy s = [] then ReclaimPolicyRetain else sp_ReclaimPolicy s),
     sp_ShareType := (if sp_ShareType s = [] then ShareTypeStandard else sp_ShareType s),
     sp_ShareProtocol := (if sp_ShareProtocol s = [] then ''NFS'' else sp_ShareProtocol s),
     sp_AutoCreateSgRules := True\<rparr>"
  by (rule stored_spec_eq)

section \<open>The status as JSON\<close>

definition omit_int :: "string \<Rightarrow> int \<Rightarrow> fields" where
  "omit_int k v = (if v = 0 then [] else [(k, JInt v)])"

definition omit_list :: "string \<Rightarrow> fields list \<Rightarrow> fields" where
  "omit_list k v = (if v = [] then [] else [(k, JList v)])"

text \<open>\<open>metav1.Time\<close>: null for the zero time, otherwise the second it lies in; reading gives that second.\<close>

definition marshal_time :: "gtime \<Rightarrow> json" where
  "marshal_time t = (if time_IsZero t then JNull else JTime (wall t div second))"

definition zero_time :: gtime where
  "zero_time = \<lparr>wall = - 62135596800 * second, mono = None\<rparr>"

definition unmarshal_time :: "json option \<Rightarrow> gtime" where
  "unmarshal_time j = (case j of Some (JTime n) \<Rightarrow> \<lparr>wall = n * second, mono = None\<rparr> | _ \<Rightarrow> zero_time)"

definition marshal_condition :: "Condition \<Rightarrow> fields" where
  "marshal_condition c =
     [(''type'', JStr (co_Type c)), (''status'', JStr (co_Status c))]
   @ omit_int ''observedGeneration'' (co_ObservedGeneration c)
   @ [(''lastTransitionTime'', marshal_time (co_LastTransitionTime c)),
      (''reason'', JStr (co_Reason c)), (''message'', JStr (co_Message c))]"

definition unmarshal_condition :: "fields \<Rightarrow> Condition" where
  "unmarshal_condition fs = \<lparr>
     co_Type = get_str fs ''type'', co_Status = get_str fs ''status'', co_Reason = get_str fs ''reason'',
     co_Message = get_str fs ''message'', co_LastTransitionTime = unmarshal_time (map_of fs ''lastTransitionTime''),
     co_ObservedGeneration = get_int fs ''observedGeneration''\<rparr>"

definition marshal_status :: "SfsTurboInstanceStatus \<Rightarrow> fields" where
  "marshal_status st =
     omit_str ''fsId'' (st_FsId st)
   @ omit_str ''exportPath'' (st_ExportPath st)
   @ omit_int ''size'' (sint (st_Size st))
   @ omit_str ''securityGroupId'' (st_SecurityGroupId st)
   @ omit_map ''tags'' (st_Tags st)
   @ omit_int ''observedGeneration'' (st_ObservedGeneration st)
   @ omit_list ''conditions'' (map marshal_condition (st_Conditions st))"

definition get_list :: "fields \<Rightarrow> string \<Rightarrow> fields list" where
  "get_list fs k = (case map_of fs k of Some (JList v) \<Rightarrow> v | _ \<Rightarrow> [])"

definition unmarshal_status :: "fields \<Rightarrow> SfsTurboInstanceStatus" where
  "unmarshal_status fs = \<lparr>
     st_FsId = get_str fs ''fsId'',
     st_ExportPath = get_str fs ''exportPath'',
     st_Size = word_of_int (get_int fs ''size''),
     st_SecurityGroupId = get_str fs ''securityGroupId'',
     st_Tags = get_map fs ''tags'',
     st_ObservedGeneration = get_int fs ''observedGeneration'',
     st_Conditions = map unmarshal_condition (get_list fs ''conditions'')\<rparr>"

text \<open>What is stored after the operator writes a status; no field of it has a default.\<close>

definition stored_status :: "SfsTurboInstanceStatus \<Rightarrow> SfsTurboInstanceStatus" where
  "stored_status st = unmarshal_status (marshal_status st)"

text \<open>A time as it comes back.\<close>

definition whole_second :: "gtime \<Rightarrow> gtime" where
  "whole_second t = \<lparr>wall = wall t div second * second, mono = None\<rparr>"

lemma stored_time: "unmarshal_time (Some (marshal_time t)) = whole_second t"
  by (simp add: unmarshal_time_def marshal_time_def whole_second_def zero_time_def time_IsZero_def second_def)

lemma map_of_omit_more:
  "map_of (omit_int k i) k' = (if k' = k \<and> i \<noteq> 0 then Some (JInt i) else None)"
  "map_of (omit_list k l) k' = (if k' = k \<and> l \<noteq> [] then Some (JList l) else None)"
  by (auto simp: omit_int_def omit_list_def)

lemma stored_condition:
  "unmarshal_condition (marshal_condition c) = c\<lparr>co_LastTransitionTime := whole_second (co_LastTransitionTime c)\<rparr>"
  by (simp add: unmarshal_condition_def marshal_condition_def get_str_def get_int_def map_of_append_at map_of_omit_more
      stored_time del: map_of_append)

lemma stored_status_eq:
  "stored_status st = st\<lparr>st_Conditions :=
     map (\<lambda>c. c\<lparr>co_LastTransitionTime := whole_second (co_LastTransitionTime c)\<rparr>) (st_Conditions st)\<rparr>"
proof -
  have size: "st_Size st = 0" if "sint (st_Size st) = 0"
    using arg_cong [OF that, of "word_of_int :: int \<Rightarrow> int32"] by simp
  then show ?thesis
    unfolding stored_status_def unmarshal_status_def get_str_def get_int_def get_map_def get_list_def
    by (intro SfsTurboInstanceStatus.equality)
      (simp_all add: marshal_status_def map_of_append_at map_of_omit map_of_omit_more stored_condition o_def split: if_split
        del: map_of_append)
qed

text \<open>
  A status that the operator writes comes back as it was, except that the transition times of the
  conditions are cut to whole seconds.
\<close>

lemma stored_status_cuts_times:
  "stored_status st = st\<lparr>st_Conditions :=
     map (\<lambda>c. c\<lparr>co_LastTransitionTime := whole_second (co_LastTransitionTime c)\<rparr>) (st_Conditions st)\<rparr>"
  by (rule stored_status_eq)

end
