(* ===== verification/Huawei_Api.thy ===== *)
theory Huawei_Api
  imports Golang
begin

text \<open>
  The surface of internal/huawei the reconciler sees: \<open>ShareInfo\<close>, \<open>CreateInput\<close>, the
  \<open>Interface\<close> the client implements, the status predicates (client.go), and the error
  classification (errors.go).
\<close>

section \<open>Data\<close>

record ShareInfo =
  si_Id :: string
  si_Status :: string
  si_ExportLocation :: string
  si_Size :: int32
  si_AvailabilityZone :: string
  si_SubStatus :: string
  si_ShareType :: string
  si_CryptKeyId :: string
  si_SubnetId :: string
  si_VpcId :: string
  si_SecurityGroupId :: string

record CreateInput =
  in_Name :: string
  in_Size :: int32
  in_ShareType :: string
  in_ShareProto :: string
  in_AvailabilityZone :: string
  in_VpcId :: string
  in_SubnetId :: string
  in_SecurityGroupId :: string
  in_CryptKeyId :: string
  in_AutoCreateSgRules :: bool
  in_Tags :: gomap

text \<open>
  \<open>huawei.Interface\<close>. Each method may change the world it is called in; an error result
  is \<open>Inl\<close>, or \<open>Some\<close> where there is no other result. The pointer and map results of
  the Go methods are never nil when the error is.
\<close>

record 'w Interface =
  Create :: "CreateInput \<Rightarrow> 'w \<Rightarrow> (err + string) \<times> 'w"
  Get :: "string \<Rightarrow> 'w \<Rightarrow> (err + ShareInfo) \<times> 'w"
  Delete :: "string \<Rightarrow> 'w \<Rightarrow> err option \<times> 'w"
  FindByName :: "string \<Rightarrow> 'w \<Rightarrow> (err + ShareInfo) \<times> 'w"
  Expand :: "string \<Rightarrow> int32 \<Rightarrow> 'w \<Rightarrow> err option \<times> 'w"
  ListTags :: "string \<Rightarrow> 'w \<Rightarrow> (err + gomap) \<times> 'w"
  AddTag :: "string \<Rightarrow> string \<Rightarrow> string \<Rightarrow> 'w \<Rightarrow> err option \<times> 'w"
  DeleteTag :: "string \<Rightarrow> string \<Rightarrow> 'w \<Rightarrow> err option \<times> 'w"
  ChangeSecurityGroup :: "string \<Rightarrow> string \<Rightarrow> 'w \<Rightarrow> err option \<times> 'w"

section \<open>Status codes\<close>

definition IsAvailable :: "string \<Rightarrow> bool" where
  "IsAvailable status \<longleftrightarrow> status = ''200''"

text \<open>The codes of \<open>subStatus\<close>; the code compares with \<open>SubStatusSgChanging\<close> only.\<close>

definition SubStatusExpanding :: string where [go_consts]: "SubStatusExpanding = ''121''"
definition SubStatusExpandOK :: string where [go_consts]: "SubStatusExpandOK = ''221''"
definition SubStatusExpandFailed :: string where [go_consts]: "SubStatusExpandFailed = ''321''"
definition SubStatusSgChanging :: string where [go_consts]: "SubStatusSgChanging = ''132''"
definition SubStatusSgChangeOK :: string where [go_consts]: "SubStatusSgChangeOK = ''232''"
definition SubStatusSgChangeFailed :: string where [go_consts]: "SubStatusSgChangeFailed = ''332''"
definition SubStatusVpcAddPending :: string where [go_consts]: "SubStatusVpcAddPending = ''137''"
definition SubStatusVpcAddOK :: string where [go_consts]: "SubStatusVpcAddOK = ''237''"
definition SubStatusVpcAddFailed :: string where [go_consts]: "SubStatusVpcAddFailed = ''337''"
definition SubStatusVpcDelPending :: string where [go_consts]: "SubStatusVpcDelPending = ''138''"
definition SubStatusVpcDelOK :: string where [go_consts]: "SubStatusVpcDelOK = ''238''"
definition SubStatusVpcDelFailed :: string where [go_consts]: "SubStatusVpcDelFailed = ''338''"

definition IsSgChangeInFlight :: "string \<Rightarrow> bool" where
  "IsSgChangeInFlight subStatus \<longleftrightarrow> subStatus = SubStatusSgChanging"

definition IsErrored :: "string \<Rightarrow> bool" where
  "IsErrored status \<longleftrightarrow> status = ''303'' \<or> status = ''308'' \<or> status = ''400''"

lemma not_available_and_errored: "\<not> (IsAvailable status \<and> IsErrored status)"
  by (auto simp: IsAvailable_def IsErrored_def)

section \<open>Error classification\<close>

definition classify :: "err \<Rightarrow> err" where
  "classify e = (case as_ServiceResponseError e of
       Some (code, msg) \<Rightarrow> if code = 404 then Errorf [] ErrFsNotFound ('': '' @ msg) else e
     | None \<Rightarrow> e)"

definition isNotFound :: "err \<Rightarrow> bool" where
  "isNotFound e \<longleftrightarrow> (case as_ServiceResponseError e of None \<Rightarrow> False | Some (code, _) \<Rightarrow> code = 404)"

definition isNameAlreadyExists :: "err \<Rightarrow> bool" where
  "isNameAlreadyExists e \<longleftrightarrow> (case as_ServiceResponseError e of
       None \<Rightarrow> False
     | Some (code, msg) \<Rightarrow> code = 409 \<and>
         (strings_Contains msg ''SFS.TURBO.0009''
        \<or> strings_Contains (strings_ToLower msg) ''name have existed''
        \<or> strings_Contains (strings_ToLower msg) ''name already exists''))"

text \<open>
  A 404 anywhere in the chain is reported as \<open>ErrFsNotFound\<close>, and nothing else is
  turned into it.
\<close>

lemma classify_not_found: "isNotFound e \<Longrightarrow> is_ErrFsNotFound (classify e)"
  by (auto simp: isNotFound_def classify_def split: option.splits)

lemma is_ErrFsNotFound_classify:
  "is_ErrFsNotFound (classify e) \<longleftrightarrow> isNotFound e \<or> is_ErrFsNotFound e"
  by (auto simp: isNotFound_def classify_def split: option.splits)

lemma name_collision_is_no_not_found: "isNameAlreadyExists e \<Longrightarrow> \<not> isNotFound e"
  by (auto simp: isNameAlreadyExists_def isNotFound_def split: option.splits)

end
