(* ===== verification/Cluster.thy ===== *)
theory Cluster
  imports Api Huawei_Api
begin

text \<open>
  What surrounds the reconciler: the Kubernetes objects it handles, the Kubernetes API
  client, the helpers of controller-runtime and of the quantity package and the clock as
  parameters of the model, and the state of one reconcile pass, which records every
  call made to the outside together with its answer.
\<close>

section \<open>Kubernetes objects\<close>

text \<open>\<open>resource.Quantity\<close> is opaque: a value is named by its text, its parser and printer are parameters.\<close>

datatype quantity = Quantity string

record NamespacedName =
  nn_Namespace :: string
  nn_Name :: string

record ObjectReference =
  or_Namespace :: string
  or_Name :: string
  or_UID :: string

record CSIPersistentVolumeSource =
  csi_Driver :: string
  csi_FSType :: string
  csi_VolumeHandle :: string
  csi_VolumeAttributes :: gomap

record PersistentVolume =
  pv_Name :: string
  pv_Labels :: gomap
  pv_Annotations :: gomap
  pv_DeletionTimestamp :: "gtime option"
  pv_Capacity :: "(string \<times> quantity) list"
  pv_AccessModes :: "string list"
  pv_ReclaimPolicy :: string
  pv_StorageClassName :: string
  pv_ClaimRef :: "ObjectReference option"
  pv_MountOptions :: "string list"
  pv_CSI :: "CSIPersistentVolumeSource option"
  pv_Phase :: string

record PersistentVolumeClaim =
  pvc_Name :: string
  pvc_Namespace :: string
  pvc_Labels :: gomap
  pvc_Annotations :: gomap
  pvc_DeletionTimestamp :: "gtime option"
  pvc_AccessModes :: "string list"
  pvc_StorageClassName :: "string option"
  pvc_VolumeName :: string
  pvc_Requests :: "(string \<times> quantity) list"

definition VolumeReleased :: string where [go_consts]: "VolumeReleased = ''Released''"

text \<open>\<open>(*metav1.Time).IsZero\<close>: nil or the zero time.\<close>

definition timestamp_IsZero :: "gtime option \<Rightarrow> bool" where
  "timestamp_IsZero ts = (case ts of None \<Rightarrow> True | Some t \<Rightarrow> time_IsZero t)"

section \<open>The environment\<close>

text \<open>
  The controller-runtime client. \<open>UpdateCR\<close> and \<open>StatusUpdate\<close> return the object the
  server answered with, which the client writes through the pointer; on an error the
  object in memory stays as it was.
\<close>

record 'w KubeClient =
  kGetCR :: "NamespacedName \<Rightarrow> 'w \<Rightarrow> (err + SfsTurboInstance) \<times> 'w"
  kUpdateCR :: "SfsTurboInstance \<Rightarrow> 'w \<Rightarrow> (err + SfsTurboInstance) \<times> 'w"
  kStatusUpdate :: "SfsTurboInstance \<Rightarrow> 'w \<Rightarrow> (err + SfsTurboInstance) \<times> 'w"
  kGetPV :: "string \<Rightarrow> 'w \<Rightarrow> (err + PersistentVolume) \<times> 'w"
  kCreatePV :: "PersistentVolume \<Rightarrow> 'w \<Rightarrow> err option \<times> 'w"
  kUpdatePV :: "PersistentVolume \<Rightarrow> 'w \<Rightarrow> err option \<times> 'w"
  kDeletePV :: "PersistentVolume \<Rightarrow> 'w \<Rightarrow> err option \<times> 'w"
  kGetPVC :: "NamespacedName \<Rightarrow> 'w \<Rightarrow> (err + PersistentVolumeClaim) \<times> 'w"
  kCreatePVC :: "PersistentVolumeClaim \<Rightarrow> 'w \<Rightarrow> err option \<times> 'w"
  kDeletePVC :: "PersistentVolumeClaim \<Rightarrow> 'w \<Rightarrow> err option \<times> 'w"

text \<open>
  The libraries: \<open>apierrors.IsNotFound\<close>, \<open>controllerutil\<close>'s finalizer helpers,
  \<open>resource.ParseQuantity\<close> and the text of \<open>resource.NewQuantity(n, BinarySI)\<close>.
\<close>

record Library =
  IsNotFound :: "err \<Rightarrow> bool"
  ContainsFinalizer :: "string list \<Rightarrow> string \<Rightarrow> bool"
  AddFinalizer :: "string list \<Rightarrow> string \<Rightarrow> string list"
  RemoveFinalizer :: "string list \<Rightarrow> string \<Rightarrow> string list"
  ParseQuantity :: "string \<Rightarrow> err + quantity"
  QuantityString :: "int64 \<Rightarrow> string"

text \<open>The fields of \<open>SfsTurboInstanceReconciler\<close>, the libraries it links and \<open>time.Now\<close>.\<close>

record 'w Reconciler =
  Client :: "'w KubeClient"
  Huawei :: "'w Interface"
  Lib :: Library
  Now :: "'w \<Rightarrow> gtime \<times> 'w"

text \<open>What \<open>controllerutil\<close> documents of its three helpers.\<close>

definition finalizer_laws :: "Library \<Rightarrow> bool" where
  "finalizer_laws L \<longleftrightarrow>
     (\<forall>fs f. ContainsFinalizer L fs f \<longleftrightarrow> f \<in> set fs)
   \<and> (\<forall>fs f. set (AddFinalizer L fs f) = insert f (set fs))
   \<and> (\<forall>fs f. set (RemoveFinalizer L fs f) = set fs - {f})"

section \<open>Calls and the state of a pass\<close>

datatype call =
    CallGetCR NamespacedName "err + SfsTurboInstance"
  | CallUpdateCR SfsTurboInstance "err + SfsTurboInstance"
  | CallStatusUpdate SfsTurboInstance "err + SfsTurboInstance"
  | CallGetPV string "err + PersistentVolume"
  | CallCreatePV PersistentVolume "err option"
  | CallUpdatePV PersistentVolume "err option"
  | CallDeletePV PersistentVolume "err option"
  | CallGetPVC NamespacedName "err + PersistentVolumeClaim"
  | CallCreatePVC PersistentVolumeClaim "err option"
  | CallDeletePVC PersistentVolumeClaim "err option"
  | CallCreate CreateInput "err + string"
  | CallGet string "err + ShareInfo"
  | CallDelete string "err option"
  | CallExpand string int32 "err option"
  | CallListTags string "err + gomap"
  | CallAddTag string string string "err option"
  | CallDeleteTag string string "err option"
  | CallChangeSecurityGroup string string "err option"
  | MetricReconcileTotal string string

text \<open>
  The state of a pass: the world, the object behind the pointer \<open>sfsti\<close>, and the calls
  made so far with their answers, oldest first.
\<close>

record 'w pass =
  world :: 'w
  sfsti :: SfsTurboInstance
  calls :: "call list"

type_synonym ('w, 'a) rec = "('w pass, 'a) state"

definition invoke :: "('w \<Rightarrow> 'a \<times> 'w) \<Rightarrow> ('a \<Rightarrow> call) \<Rightarrow> ('w, 'a) rec" where
  "invoke op ev = State (\<lambda>s. case op (world s) of
     (r, w) \<Rightarrow> (r, s\<lparr>world := w, calls := calls s @ [ev r]\<rparr>))"

text \<open>
  A call to the outside may answer anything and change the world in any way: what holds
  after it has to hold for every answer.
\<close>

lemma wp_invoke:
  assumes "\<And>r w. op (world s) = (r, w) \<Longrightarrow> Q r (s\<lparr>world := w, calls := calls s @ [ev r]\<rparr>)"
  shows "wp (invoke op ev) Q s"
  using assms by (simp add: invoke_def wp_State split: prod.splits)

lemma wp_invoke_eq [wp_rules]:
  "wp (invoke op ev) Q s \<longleftrightarrow>
     (\<forall>r w. op (world s) = (r, w) \<longrightarrow> Q r (s\<lparr>world := w, calls := calls s @ [ev r]\<rparr>))"
  by (auto simp: invoke_def wp_State split: prod.splits)

text \<open>\<open>time.Now().UTC()\<close>\<close>

definition now :: "'w Reconciler \<Rightarrow> ('w, gtime) rec" where
  "now R = State (\<lambda>s. case Now R (world s) of (t, w) \<Rightarrow> (time_UTC t, s\<lparr>world := w\<rparr>))"

lemma wp_now [wp_rules]:
  "wp (now R) Q s \<longleftrightarrow> (\<forall>t w. Now R (world s) = (t, w) \<longrightarrow> Q (time_UTC t) (s\<lparr>world := w\<rparr>))"
  by (auto simp: now_def wp_State split: prod.splits)

abbreviation update_sfsti :: "(SfsTurboInstance \<Rightarrow> SfsTurboInstance) \<Rightarrow> ('w, unit) rec" where
  "update_sfsti f \<equiv> modify (\<lambda>s. s\<lparr>sfsti := f (sfsti s)\<rparr>)"

abbreviation set_status :: "(SfsTurboInstanceStatus \<Rightarrow> SfsTurboInstanceStatus) \<Rightarrow> ('w, unit) rec" where
  "set_status f \<equiv> update_sfsti (\<lambda>cr. cr\<lparr>cr_Status := f (cr_Status cr)\<rparr>)"

abbreviation spec_of :: "('w pass) \<Rightarrow> SfsTurboInstanceSpec" where
  "spec_of s \<equiv> cr_Spec (sfsti s)"

abbreviation status_of :: "('w pass) \<Rightarrow> SfsTurboInstanceStatus" where
  "status_of s \<equiv> cr_Status (sfsti s)"

section \<open>Which calls an operation makes\<close>

text \<open>Whatever the environment answers, the operation only adds calls that satisfy \<open>P\<close> to the log.\<close>

definition emits :: "(call \<Rightarrow> bool) \<Rightarrow> ('w, 'a) rec \<Rightarrow> bool" where
  "emits P m \<longleftrightarrow> (\<forall>s. wp m (\<lambda>_ t. \<exists>cs. calls t = calls s @ cs \<and> list_all P cs) s)"

lemma emitsD:
  assumes "emits P m" and "run_state m s = (r, t)"
  obtains cs where "calls t = calls s @ cs" "list_all P cs"
  using assms by (auto simp: emits_def dest: wp_run)

lemma wp_emits:
  assumes "emits P m" and "\<And>r t cs. calls t = calls s @ cs \<Longrightarrow> list_all P cs \<Longrightarrow> Q r t"
  shows "wp m Q s"
  by (rule wp_runI) (auto elim!: emitsD [OF assms(1)] intro: assms(2))

lemma emits_mono: "emits P m \<Longrightarrow> (\<And>c. P c \<Longrightarrow> Q c) \<Longrightarrow> emits Q m"
  by (auto simp: emits_def wp_def list_all_iff split: prod.splits) blast

lemma emits_return [emits_rules]: "emits P (State_Monad.return x)"
  by (simp add: emits_def wp_return)

lemma emits_bind [emits_rules]:
  fixes m :: "('w, 'a) rec"
  assumes "emits P m" and "\<And>a. emits P (f a)"
  shows "emits P (State_Monad.bind m f)"
  unfolding emits_def wp_bind
proof
  fix s
  show "wp m (\<lambda>a. wp (f a) (\<lambda>_ t. \<exists>cs. calls t = calls s @ cs \<and> list_all P cs)) s"
  proof (rule wp_emits [OF assms(1)])
    fix a and t :: "'w pass" and cs
    assume "calls t = calls s @ cs" "list_all P cs"
    then show "wp (f a) (\<lambda>_ t. \<exists>cs. calls t = calls s @ cs \<and> list_all P cs) t"
      by (intro wp_emits [OF assms(2)]) auto
  qed
qed

lemma emits_invoke [emits_rules]: "(\<And>r. P (ev r)) \<Longrightarrow> emits P (invoke op ev)"
  by (simp add: emits_def wp_invoke_eq)

lemma emits_now [emits_rules]: "emits P (now R)"
  by (simp add: emits_def wp_now)

lemma emits_gets [emits_rules]: "emits P (gets f)"
  by (simp add: emits_def wp_gets)

lemma emits_update [emits_rules]: "emits P (update_sfsti f)"
  by (simp add: emits_def wp_modify)

lemma emits_if [emits_rules]: "(b \<Longrightarrow> emits P m) \<Longrightarrow> (\<not> b \<Longrightarrow> emits P n) \<Longrightarrow> emits P (if b then m else n)"
  by simp

lemma emits_option [emits_rules]:
  "(x = None \<Longrightarrow> emits P m) \<Longrightarrow> (\<And>v. x = Some v \<Longrightarrow> emits P (f v)) \<Longrightarrow>
   emits P (case x of None \<Rightarrow> m | Some v \<Rightarrow> f v)"
  by (cases x) auto

lemma emits_sum [emits_rules]:
  "(\<And>e. x = Inl e \<Longrightarrow> emits P (f e)) \<Longrightarrow> (\<And>v. x = Inr v \<Longrightarrow> emits P (g v)) \<Longrightarrow>
   emits P (case x of Inl e \<Rightarrow> f e | Inr v \<Rightarrow> g v)"
  by (cases x) auto

lemma emits_prod [emits_rules]: "(\<And>a b. emits P (f a b)) \<Longrightarrow> emits P (case x of (a, b) \<Rightarrow> f a b)"
  by (cases x) auto

lemma emits_Let [emits_rules]: "emits P (f t) \<Longrightarrow> emits P (let x = t in f x)"
  by (simp add: Let_def)

record ctrl_Result =
  RequeueAfter :: int

definition no_requeue :: ctrl_Result where
  "no_requeue = \<lparr>RequeueAfter = 0\<rparr>"

type_synonym outcome = "ctrl_Result \<times> err option"

end
