(* ===== verification/Conditions.thy ===== *)
theory Conditions
  imports Cluster
begin

text \<open>
  The condition list of the custom resource: \<open>setCondition\<close> and \<open>hasConditionTrue\<close>
  (internal/controller/sfsturboinstance_controller.go), the status write-back
  \<open>patchStatus\<close> and \<open>removeFinalizer\<close>, with the rules the handlers' proofs use.
\<close>

section \<open>Operations\<close>

text \<open>
  The loop of \<open>setCondition\<close>: overwrite the first condition of the type, or append. The
  transition time of an existing condition moves only when its status changes.
\<close>

fun upsertCondition :: "Condition \<Rightarrow> Condition list \<Rightarrow> Condition list" where
  "upsertCondition n [] = [n]"
| "upsertCondition n (cur # cs) =
     (if co_Type cur = co_Type n
      then cur\<lparr>co_LastTransitionTime :=
                 (if co_Status cur \<noteq> co_Status n then co_LastTransitionTime n else co_LastTransitionTime cur),
               co_Status := co_Status n, co_Reason := co_Reason n, co_Message := co_Message n,
               co_ObservedGeneration := co_ObservedGeneration n\<rparr> # cs
      else cur # upsertCondition n cs)"

definition with_condition ::
  "gtime \<Rightarrow> string \<Rightarrow> string \<Rightarrow> string \<Rightarrow> string \<Rightarrow> SfsTurboInstance \<Rightarrow> SfsTurboInstance" where
  "with_condition n t status reason message cr =
     cr\<lparr>cr_Status := (cr_Status cr)\<lparr>st_Conditions :=
       upsertCondition \<lparr>co_Type = t, co_Status = status, co_Reason = reason, co_Message = message,
         co_LastTransitionTime = n, co_ObservedGeneration = cr_Generation cr\<rparr>
         (st_Conditions (cr_Status cr))\<rparr>\<rparr>"

definition setCondition ::
  "'w Reconciler \<Rightarrow> string \<Rightarrow> string \<Rightarrow> string \<Rightarrow> string \<Rightarrow> ('w, unit) rec" where
  "setCondition R t status reason message = do {
     n \<leftarrow> now R;
     update_sfsti (with_condition n t status reason message)
   }"

fun hasConditionTrue_in :: "Condition list \<Rightarrow> string \<Rightarrow> bool" where
  "hasConditionTrue_in [] t = False"
| "hasConditionTrue_in (c # cs) t =
     (if co_Type c = t \<and> co_Status c = ConditionTrue then True else hasConditionTrue_in cs t)"

definition hasConditionTrue :: "SfsTurboInstance \<Rightarrow> string \<Rightarrow> bool" where
  "hasConditionTrue cr t = hasConditionTrue_in (st_Conditions (cr_Status cr)) t"

text \<open>\<open>patchStatus\<close>: a status update; a resource that is gone is no error.\<close>

definition patchStatus :: "'w Reconciler \<Rightarrow> ('w, err option) rec" where
  "patchStatus R = do {
     cr \<leftarrow> gets sfsti;
     r \<leftarrow> invoke (kStatusUpdate (Client R) cr) (CallStatusUpdate cr);
     (case r of
       Inl e \<Rightarrow> State_Monad.return (if IsNotFound (Lib R) e then None else Some e)
     | Inr cr' \<Rightarrow> do { update_sfsti (\<lambda>_. cr'); State_Monad.return None })
   }"

definition removeFinalizer :: "'w Reconciler \<Rightarrow> ('w, outcome) rec" where
  "removeFinalizer R = do {
     update_sfsti (\<lambda>cr. cr\<lparr>cr_Finalizers := RemoveFinalizer (Lib R) (cr_Finalizers cr) Finalizer\<rparr>);
     cr \<leftarrow> gets sfsti;
     r \<leftarrow> invoke (kUpdateCR (Client R) cr) (CallUpdateCR cr);
     (case r of
       Inl e \<Rightarrow>
         if IsNotFound (Lib R) e then State_Monad.return (no_requeue, None)
         else State_Monad.return (no_requeue, Some e)
     | Inr cr' \<Rightarrow> do { update_sfsti (\<lambda>_. cr'); State_Monad.return (no_requeue, None) })
   }"

section \<open>The condition list as a keyed store\<close>

definition condition :: "Condition list \<Rightarrow> string \<Rightarrow> Condition option" where
  "condition cs t = find (\<lambda>c. co_Type c = t) cs"

definition put_condition :: "string \<Rightarrow> Condition \<Rightarrow> Condition list \<Rightarrow> Condition list" where
  "put_condition t c cs = upsertCondition (c\<lparr>co_Type := t\<rparr>) cs"

definition merge_condition :: "string \<Rightarrow> Condition \<Rightarrow> Condition option \<Rightarrow> Condition" where
  "merge_condition t c old = (case old of
       None \<Rightarrow> c\<lparr>co_Type := t\<rparr>
     | Some cur \<Rightarrow> c\<lparr>co_Type := t, co_LastTransitionTime :=
         (if co_Status cur \<noteq> co_Status c then co_LastTransitionTime c else co_LastTransitionTime cur)\<rparr>)"

lemma condition_simps [simp]:
  "condition [] t = None"
  "condition (c # cs) t = (if co_Type c = t then Some c else condition cs t)"
  by (simp_all add: condition_def)

lemma condition_upsert:
  "condition (upsertCondition n cs) t =
     (if t = co_Type n then Some (merge_condition t n (condition cs t)) else condition cs t)"
  by (induction cs) (auto simp: merge_condition_def)

lemma types_upsert:
  "map co_Type (upsertCondition n cs) =
     (if co_Type n \<in> co_Type ` set cs then map co_Type cs else map co_Type cs @ [co_Type n])"
  by (induction cs) auto

interpretation conditions: keyed_store "map co_Type" condition put_condition merge_condition
proof unfold_locales
  show "(condition c k = None) = (k \<notin> set (map co_Type c))" for c k
    by (induction c) auto
  show "condition (put_condition k u c) k' =
      (if k' = k then Some (merge_condition k u (condition c k)) else condition c k')" for k k' u c
    by (simp add: put_condition_def condition_upsert merge_condition_def split: option.split)
  show "map co_Type (put_condition k u c) =
      (if k \<in> set (map co_Type c) then map co_Type c else map co_Type c @ [k])" for k u c
    by (simp add: put_condition_def types_upsert)
qed

text \<open>The CRD's list is a map keyed by the type; on such lists the loops read that map.\<close>

definition wf_conditions :: "SfsTurboInstance \<Rightarrow> bool" where
  "wf_conditions cr \<longleftrightarrow> distinct (map co_Type (st_Conditions (cr_Status cr)))"

definition condition_status :: "SfsTurboInstance \<Rightarrow> string \<Rightarrow> string option" where
  "condition_status cr t = map_option co_Status (condition (st_Conditions (cr_Status cr)) t)"

lemma hasConditionTrue_in_iff:
  "hasConditionTrue_in cs t \<longleftrightarrow> (\<exists>c \<in> set cs. co_Type c = t \<and> co_Status c = ConditionTrue)"
  by (induction cs) auto

lemma hasConditionTrue_iff:
  assumes "wf_conditions cr"
  shows "hasConditionTrue cr t \<longleftrightarrow> condition_status cr t = Some ConditionTrue"
proof -
  have "distinct (map co_Type cs) \<Longrightarrow>
      hasConditionTrue_in cs t \<longleftrightarrow> map_option co_Status (condition cs t) = Some ConditionTrue" for cs
    by (induction cs) (auto simp: hasConditionTrue_in_iff, metis image_eqI)
  with assms show ?thesis
    by (simp add: wf_conditions_def hasConditionTrue_def condition_status_def)
qed

section \<open>What setting a condition changes\<close>

lemma with_condition_frame [simp]:
  "cr_Name (with_condition n t st rs msg cr) = cr_Name cr"
  "cr_Namespace (with_condition n t st rs msg cr) = cr_Namespace cr"
  "cr_Generation (with_condition n t st rs msg cr) = cr_Generation cr"
  "cr_Finalizers (with_condition n t st rs msg cr) = cr_Finalizers cr"
  "cr_DeletionTimestamp (with_condition n t st rs msg cr) = cr_DeletionTimestamp cr"
  "cr_Spec (with_condition n t st rs msg cr) = cr_Spec cr"
  "st_FsId (cr_Status (with_condition n t st rs msg cr)) = st_FsId (cr_Status cr)"
  "st_ExportPath (cr_Status (with_condition n t st rs msg cr)) = st_ExportPath (cr_Status cr)"
  "st_Size (cr_Status (with_condition n t st rs msg cr)) = st_Size (cr_Status cr)"
  "st_SecurityGroupId (cr_Status (with_condition n t st rs msg cr)) = st_SecurityGroupId (cr_Status cr)"
  "st_Tags (cr_Status (with_condition n t st rs msg cr)) = st_Tags (cr_Status cr)"
  "st_ObservedGeneration (cr_Status (with_condition n t st rs msg cr)) = st_ObservedGeneration (cr_Status cr)"
  by (simp_all add: with_condition_def)

lemma condition_status_with [simp]:
  "condition_status (with_condition n t st rs msg cr) t' =
     (if t' = t then Some st else condition_status cr t')"
  by (simp add: condition_status_def with_condition_def condition_upsert merge_condition_def
      split: option.split)

lemma wf_conditions_with [simp]:
  "wf_conditions cr \<Longrightarrow> wf_conditions (with_condition n t st rs msg cr)"
  by (simp add: wf_conditions_def with_condition_def types_upsert)

lemma hasConditionTrue_with [simp]:
  assumes "t' \<noteq> t"
  shows "hasConditionTrue (with_condition n t st rs msg cr) t' = hasConditionTrue cr t'"
proof -
  have "co_Type c \<noteq> t' \<Longrightarrow> hasConditionTrue_in (upsertCondition c cs) t' = hasConditionTrue_in cs t'" for c cs
    by (induction cs) auto
  with assms show ?thesis by (simp add: hasConditionTrue_def with_condition_def)
qed

lemma wp_setCondition [wp_rules]:
  "wp (setCondition R t st rs msg) Q s \<longleftrightarrow>
     (\<forall>n w. Now R (world s) = (n, w) \<longrightarrow>
        Q () (s\<lparr>world := w, sfsti := with_condition (time_UTC n) t st rs msg (sfsti s)\<rparr>))"
  by (simp add: setCondition_def wp_rules)

lemma wp_patchStatus [wp_rules]:
  "wp (patchStatus R) Q s \<longleftrightarrow>
     (\<forall>r w. kStatusUpdate (Client R) (sfsti s) (world s) = (r, w) \<longrightarrow>
        (case r of
          Inl e \<Rightarrow> Q (if IsNotFound (Lib R) e then None else Some e)
             (s\<lparr>world := w, calls := calls s @ [CallStatusUpdate (sfsti s) r]\<rparr>)
        | Inr cr' \<Rightarrow> Q None (s\<lparr>world := w, calls := calls s @ [CallStatusUpdate (sfsti s) r], sfsti := cr'\<rparr>)))"
  by (auto simp: patchStatus_def wp_rules split: sum.splits)

text \<open>
  \<open>setCondition\<close> is an upsert by type: a condition list with unique types keeps them
  unique, the entry of the type carries exactly what was passed and the CR's generation,
  every other entry stays as it was, and the transition time is the current time when
  the status flips (or the entry is new) and otherwise the time it had.
\<close>

lemma setCondition_upserts:
  assumes "distinct (map co_Type cs)"
  shows "distinct (map co_Type (upsertCondition n cs))
    \<and> condition (upsertCondition n cs) (co_Type n) = Some (n\<lparr>co_LastTransitionTime :=
        (case condition cs (co_Type n) of
           Some old \<Rightarrow> if co_Status old = co_Status n then co_LastTransitionTime old else co_LastTransitionTime n
         | None \<Rightarrow> co_LastTransitionTime n)\<rparr>)
    \<and> (\<forall>t. t = co_Type n \<or> condition (upsertCondition n cs) t = condition cs t)"
proof (intro conjI)
  show "distinct (map co_Type (upsertCondition n cs))"
    using conditions.put_keeps_distinct [OF assms, of "co_Type n" n] by (simp add: put_condition_def)
qed (auto simp: condition_upsert merge_condition_def split: option.split)

end
