(* ===== verification/Scenario.thy ===== *)
theory Scenario
  imports Conditions
begin

text \<open>
  A scripted environment: every outside call gets a fixed answer, chosen by the fields of
  a \<open>script\<close>; a successful update answers with the object it was sent. The concrete
  instances of the theorems are evaluated in it.
\<close>

record script =
  a_cr :: "err + SfsTurboInstance"
  a_update :: "err option"
  a_status :: "err option"
  a_pv :: "err + PersistentVolume"
  a_pvc :: "err + PersistentVolumeClaim"
  a_write :: "err option"
  a_create :: "err + string"
  a_info :: "err + ShareInfo"
  a_huawei :: "err option"
  a_tags :: "err + gomap"

definition not_found_error :: err where
  "not_found_error = OtherError ''not found''"

definition demo_time :: gtime where
  "demo_time = \<lparr>wall = 1778000000 * second, mono = Some 5\<rparr>"

definition demo_library :: Library where
  "demo_library = \<lparr>
     IsNotFound = (\<lambda>e. e = not_found_error),
     ContainsFinalizer = (\<lambda>fs f. f \<in> set fs),
     AddFinalizer = (\<lambda>fs f. if f \<in> set fs then fs else fs @ [f]),
     RemoveFinalizer = (\<lambda>fs f. removeAll f fs),
     ParseQuantity = (\<lambda>t. Inr (Quantity t)),
     QuantityString = (\<lambda>n. format_d (sint n div 2 ^ 30) @ ''Gi'')\<rparr>"

definition echo :: "err option \<Rightarrow> 'a \<Rightarrow> err + 'a" where
  "echo r x = (case r of None \<Rightarrow> Inr x | Some e \<Rightarrow> Inl e)"

definition scripted :: "script \<Rightarrow> unit Reconciler" where
  "scripted a = \<lparr>
     Client = \<lparr>
       kGetCR = (\<lambda>_ w. (a_cr a, w)),
       kUpdateCR = (\<lambda>cr w. (echo (a_update a) cr, w)),
       kStatusUpdate = (\<lambda>cr w. (echo (a_status a) cr, w)),
       kGetPV = (\<lambda>_ w. (a_pv a, w)),
       kCreatePV = (\<lambda>_ w. (a_write a, w)),
       kUpdatePV = (\<lambda>_ w. (a_write a, w)),
       kDeletePV = (\<lambda>_ w. (a_write a, w)),
       kGetPVC = (\<lambda>_ w. (a_pvc a, w)),
       kCreatePVC = (\<lambda>_ w. (a_write a, w)),
       kDeletePVC = (\<lambda>_ w. (a_write a, w))\<rparr>,
     Huawei = \<lparr>
       Create = (\<lambda>_ w. (a_create a, w)),
       Get = (\<lambda>_ w. (a_info a, w)),
       Delete = (\<lambda>_ w. (a_huawei a, w)),
       FindByName = (\<lambda>_ w. (Inl ErrFsNotFound, w)),
       Expand = (\<lambda>_ _ w. (a_huawei a, w)),
       ListTags = (\<lambda>_ w. (a_tags a, w)),
       AddTag = (\<lambda>_ _ _ w. (a_huawei a, w)),
       DeleteTag = (\<lambda>_ _ w. (a_huawei a, w)),
       ChangeSecurityGroup = (\<lambda>_ _ w. (a_huawei a, w))\<rparr>,
     Lib = demo_library,
     Now = (\<lambda>w. (demo_time, w))\<rparr>"

definition demo_spec :: SfsTurboInstanceSpec where
  "demo_spec = \<lparr>
     sp_ReclaimPolicy = ReclaimPolicyRetain, sp_PausedReconcile = False, sp_FsName = ''data'',
     sp_Size = 500, sp_ShareType = ShareTypeStandard, sp_ShareProtocol = ''NFS'', sp_Enhanced = False,
     sp_AvailabilityZone = ''az1'', sp_VpcId = ''vpc'', sp_SubnetId = ''sub'',
     sp_SecurityGroupId = [], sp_CryptKeyId = [], sp_AutoCreateSgRules = True, sp_Tags = [],
     sp_PvcName = [], sp_PvcSize = [], sp_StorageClassName = []\<rparr>"

definition demo_status :: SfsTurboInstanceStatus where
  "demo_status = \<lparr>
     st_FsId = [], st_ExportPath = [], st_Size = 0, st_SecurityGroupId = [], st_Tags = [],
     st_ObservedGeneration = 0, st_Conditions = []\<rparr>"

definition demo_cr :: SfsTurboInstance where
  "demo_cr = \<lparr>
     cr_Name = ''share'', cr_Namespace = ''team'', cr_Generation = 1, cr_Finalizers = [Finalizer],
     cr_DeletionTimestamp = None, cr_Spec = demo_spec, cr_Status = demo_status\<rparr>"

text \<open>\<open>demo_cr\<close> with a file system recorded, and being deleted.\<close>

definition demo_tracked :: SfsTurboInstance where
  "demo_tracked = demo_cr\<lparr>cr_Status := demo_status\<lparr>st_FsId := ''fs-1''\<rparr>\<rparr>"

definition demo_doomed :: SfsTurboInstance where
  "demo_doomed = demo_tracked\<lparr>cr_DeletionTimestamp := Some demo_time,
     cr_Spec := demo_spec\<lparr>sp_ReclaimPolicy := ReclaimPolicyDelete\<rparr>\<rparr>"

definition demo_info :: ShareInfo where
  "demo_info = \<lparr>
     si_Id = ''fs-1'', si_Status = ''200'', si_ExportLocation = ''10.0.0.5:/'', si_Size = 500,
     si_AvailabilityZone = ''az1'', si_SubStatus = [], si_ShareType = ShareTypeStandard,
     si_CryptKeyId = [], si_SubnetId = ''sub'', si_VpcId = ''vpc'', si_SecurityGroupId = ''sg-auto''\<rparr>"

definition demo_script :: script where
  "demo_script = \<lparr>
     a_cr = Inr demo_cr, a_update = None, a_status = None, a_pv = Inl not_found_error,
     a_pvc = Inl not_found_error, a_write = None, a_create = Inr ''fs-1'', a_info = Inr demo_info,
     a_huawei = None, a_tags = Inr []\<rparr>"

definition demo_pass :: "SfsTurboInstance \<Rightarrow> unit pass" where
  "demo_pass cr = \<lparr>world = (), sfsti = cr, calls = []\<rparr>"

lemmas demo_defs = scripted_def demo_script_def demo_pass_def demo_cr_def demo_tracked_def
  demo_doomed_def demo_spec_def demo_status_def demo_info_def demo_library_def not_found_error_def
  echo_def

text \<open>The rules that run a pass step by step on a concrete state.\<close>

lemmas run_defs = invoke_def now_def setCondition_def patchStatus_def removeFinalizer_def

lemma demo_library_laws: "finalizer_laws demo_library"
  by (auto simp: finalizer_laws_def demo_library_def)

end
