(* ===== verification/Tags.thy ===== *)
theory Tags
  imports Scenario
begin

text \<open>
  The tag reconciliation (\<open>reconcileTagsDrift\<close> of the controller): the live tag set is
  read, missing and different tags are added, extra ones deleted, each by one call to
  the Huawei API.
\<close>

section \<open>The loops\<close>

text \<open>\<open>for k, v := range desired\<close>: the loop threads \<open>live\<close> and \<open>changed\<close> and stops at an error.\<close>

fun add_missing :: "'w Reconciler \<Rightarrow> gomap \<Rightarrow> gomap \<Rightarrow> bool \<Rightarrow> ('w, err + gomap \<times> bool) rec" where
  "add_missing R [] live changed = State_Monad.return (Inr (live, changed))"
| "add_missing R ((k, v) # desired) live changed =
     (if map_of live k \<noteq> Some v
      then do {
        id \<leftarrow> gets (\<lambda>s. st_FsId (status_of s));
        r \<leftarrow> invoke (AddTag (Huawei R) id k v) (CallAddTag id k v);
        (case r of
          Some e \<Rightarrow> State_Monad.return (Inl (Errorf (''AddTag('' @ k @ ''='' @ v @ ''): '') e []))
        | None \<Rightarrow> add_missing R desired (AList.update k v live) True)
      }
      else add_missing R desired live changed)"

text \<open>
  \<open>for k := range live\<close>, with \<open>ks\<close> the keys still to be visited: deleting the key the
  loop is at does not disturb the rest of the iteration.
\<close>

fun delete_extras :: "'w Reconciler \<Rightarrow> gomap \<Rightarrow> string list \<Rightarrow> gomap \<Rightarrow> bool \<Rightarrow> ('w, err + gomap \<times> bool) rec" where
  "delete_extras R desired [] live changed = State_Monad.return (Inr (live, changed))"
| "delete_extras R desired (k # ks) live changed =
     (if map_of desired k = None
      then do {
        id \<leftarrow> gets (\<lambda>s. st_FsId (status_of s));
        r \<leftarrow> invoke (DeleteTag (Huawei R) id k) (CallDeleteTag id k);
        (case r of
          Some e \<Rightarrow> State_Monad.return (Inl (Errorf (''DeleteTag('' @ k @ ''): '') e []))
        | None \<Rightarrow> delete_extras R desired ks (AList.delete k live) True)
      }
      else delete_extras R desired ks live changed)"

definition reconcileTagsDrift :: "'w Reconciler \<Rightarrow> ('w, err option) rec" where
  "reconcileTagsDrift R = do {
     id \<leftarrow> gets (\<lambda>s. st_FsId (status_of s));
     r \<leftarrow> invoke (ListTags (Huawei R) id) (CallListTags id);
     (case r of
       Inl e \<Rightarrow> State_Monad.return (Some (Errorf ''ListTags: '' e []))
     | Inr live \<Rightarrow> do {
         desired \<leftarrow> gets (\<lambda>s. sp_Tags (spec_of s));
         r1 \<leftarrow> add_missing R desired live False;
         (case r1 of
           Inl e \<Rightarrow> State_Monad.return (Some e)
         | Inr lc \<Rightarrow> do {
             r2 \<leftarrow> delete_extras R desired (map fst (fst lc)) (fst lc) (snd lc);
             (case r2 of
               Inl e \<Rightarrow> State_Monad.return (Some e)
             | Inr lc' \<Rightarrow> do {
                 (if snd lc' then
                    setCondition R ConditionReady ConditionTrue ReasonTagsReconciled ''tags reconciled to spec''
                  else State_Monad.return ());
                 set_status (\<lambda>st. st\<lparr>st_Tags := fst lc'\<rparr>);
                 State_Monad.return None
               })
           })
       })
   }"

section \<open>The plan and its execution\<close>

text \<open>What has to be added and deleted, in the order of the loops.\<close>

definition tags_to_add :: "gomap \<Rightarrow> gomap \<Rightarrow> gomap" where
  "tags_to_add desired live = filter (\<lambda>(k, v). map_of live k \<noteq> Some v) desired"

definition tags_to_delete :: "gomap \<Rightarrow> gomap \<Rightarrow> string list" where
  "tags_to_delete desired live = filter (\<lambda>k. map_of desired k = None) (map fst live)"

text \<open>A plan is a list of calls that wait for their answer; it is carried out up to the first error.\<close>

type_synonym plan = "(err option \<Rightarrow> call) list"

fun attempted :: "plan \<Rightarrow> call list \<Rightarrow> bool \<Rightarrow> bool" where
  "attempted [] cs ok = (cs = [] \<and> ok)"
| "attempted (p # ps) cs ok =
     (case cs of [] \<Rightarrow> False
      | c # cs' \<Rightarrow> c = p None \<and> attempted ps cs' ok \<or> (\<exists>e. c = p (Some e)) \<and> cs' = [] \<and> \<not> ok)"

lemma attempted_append:
  "attempted ps cs True \<Longrightarrow> attempted qs ds ok \<Longrightarrow> attempted (ps @ qs) (cs @ ds) ok"
proof (induction ps arbitrary: cs)
  case (Cons p ps)
  then show ?case by (cases cs) auto
qed simp

lemma attempted_failed: "attempted ps cs False \<Longrightarrow> attempted (ps @ qs) cs False"
proof (induction ps arbitrary: cs)
  case (Cons p ps)
  then show ?case by (cases cs) auto
qed simp

lemma attempted_all: "attempted ps cs True \<longleftrightarrow> cs = map (\<lambda>p. p None) ps"
proof (induction ps arbitrary: cs)
  case (Cons p ps)
  then show ?case by (cases cs) auto
qed simp

lemma attempted_stops: "attempted ps cs False \<Longrightarrow>
    \<exists>i e. i < length ps \<and> cs = map (\<lambda>p. p None) (take i ps) @ [(ps ! i) (Some e)]"
proof (induction ps arbitrary: cs)
  case (Cons p ps)
  then obtain c cs' where cs: "cs = c # cs'" by (cases cs) auto
  show ?case
  proof (cases "c = p None \<and> attempted ps cs' False")
    case True
    with Cons.IH obtain i e where "i < length ps"
      "cs' = map (\<lambda>p. p None) (take i ps) @ [(ps ! i) (Some e)]" by blast
    with True cs show ?thesis by (intro exI [of _ "Suc i"] exI [of _ e]) simp
  next
    case False
    with Cons.prems cs obtain e where "c = p (Some e)" "cs' = []" by auto
    with cs show ?thesis by (intro exI [of _ 0] exI [of _ e]) simp
  qed
qed simp

text \<open>The keys of a map after the additions, and how the additions change a lookup.\<close>

definition with_added :: "gomap \<Rightarrow> gomap \<Rightarrow> gomap" where
  "with_added adds live = fold (\<lambda>(k, v). AList.update k v) adds live"

lemma tags_to_add_Cons:
  "tags_to_add ((k, v) # desired) live =
     (if map_of live k \<noteq> Some v then (k, v) # tags_to_add desired live else tags_to_add desired live)"
  by (simp add: tags_to_add_def)

lemma tags_to_add_update:
  assumes "k \<notin> fst ` set desired"
  shows "tags_to_add desired (AList.update k v live) = tags_to_add desired live"
proof -
  have "x \<in> set desired \<Longrightarrow> map_of (AList.update k v live) (fst x) = map_of live (fst x)" for x
    using assms by (auto simp: update_conv')
  then show ?thesis by (auto simp: tags_to_add_def intro!: filter_cong)
qed

text \<open>
  What a loop does: it leaves the object alone, its calls are the plan \<open>ps\<close> carried out
  up to the first error, and without an error it returns \<open>v\<close>.
\<close>

definition loop_outcome :: "plan \<Rightarrow> 'v \<Rightarrow> 'w pass \<Rightarrow> (err + 'v) \<times> 'w pass \<Rightarrow> bool" where
  "loop_outcome ps v s rs \<longleftrightarrow>
     (\<exists>w cs. snd rs = s\<lparr>world := w, calls := calls s @ cs\<rparr> \<and> attempted ps cs (\<not> isl (fst rs))
        \<and> (isl (fst rs) \<or> fst rs = Inr v))"

lemma loop_outcome_step:
  assumes "loop_outcome ps v (s\<lparr>world := w, calls := calls s @ [p None]\<rparr>) rs"
  shows "loop_outcome (p # ps) v s rs"
proof -
  from assms obtain w' cs where
    "snd rs = s\<lparr>world := w', calls := calls s @ (p None # cs)\<rparr>"
    "attempted ps cs (\<not> isl (fst rs))" "isl (fst rs) \<or> fst rs = Inr v"
    by (auto simp: loop_outcome_def)
  then show ?thesis unfolding loop_outcome_def
    by (intro exI [of _ w'] exI [of _ "p None # cs"]) simp
qed

lemma loop_outcome_fail:
  "loop_outcome (p # ps) v s (Inl e, s\<lparr>world := w, calls := calls s @ [p (Some e')]\<rparr>)"
  unfolding loop_outcome_def by (intro exI [of _ w] exI [of _ "[p (Some e')]"]) auto

lemma loop_outcome_done: "loop_outcome [] v s (Inr v, s)"
  unfolding loop_outcome_def by (intro exI [of _ "world s"] exI [of _ "[]"]) simp

definition add_plan :: "string \<Rightarrow> gomap \<Rightarrow> gomap \<Rightarrow> plan" where
  "add_plan fsId desired live = map (\<lambda>(k, v). CallAddTag fsId k v) (tags_to_add desired live)"

lemma add_missing_outcome:
  assumes "wf_map desired"
  shows "loop_outcome (add_plan (st_FsId (status_of s)) desired live)
    (with_added (tags_to_add desired live) live, changed \<or> tags_to_add desired live \<noteq> [])
    s (run_state (add_missing R desired live changed) s)"
  using assms
proof (induction desired arbitrary: live changed s)
  case Nil
  then show ?case by (simp add: add_plan_def tags_to_add_def with_added_def loop_outcome_done)
next
  case (Cons kv desired)
  obtain k v where kv: "kv = (k, v)" by fastforce
  from Cons.prems have wf: "wf_map desired" and k: "k \<notin> fst ` set desired"
    by (simp_all add: wf_map_def kv)
  show ?case
  proof (cases "map_of live k = Some v")
    case True
    then show ?thesis using Cons.IH [OF wf] by (simp add: kv add_plan_def tags_to_add_Cons)
  next
    case False
    let ?c = "CallAddTag (st_FsId (status_of s)) k v"
    obtain r w where r: "AddTag (Huawei R) (st_FsId (status_of s)) k v (world s) = (r, w)" by fastforce
    have plan: "add_plan (st_FsId (status_of s)) (kv # desired) live =
        ?c # add_plan (st_FsId (status_of s)) desired (AList.update k v live)"
      using False by (simp add: kv add_plan_def tags_to_add_Cons tags_to_add_update [OF k])
    show ?thesis
    proof (cases r)
      case None
      note ih = Cons.IH [OF wf, of "s\<lparr>world := w, calls := calls s @ [?c None]\<rparr>" "AList.update k v live" True]
      show ?thesis
        unfolding plan using loop_outcome_step [where p = ?c, OF ih [simplified]] False r None
        by (simp add: kv tags_to_add_Cons tags_to_add_update [OF k] with_added_def invoke_def)
    next
      case (Some e)
      then show ?thesis
        unfolding plan using False r by (simp add: kv invoke_def loop_outcome_fail)
    qed
  qed
qed

definition delete_plan :: "string \<Rightarrow> gomap \<Rightarrow> string list \<Rightarrow> plan" where
  "delete_plan fsId desired ks = map (CallDeleteTag fsId) (filter (\<lambda>k. map_of desired k = None) ks)"

definition without :: "string list \<Rightarrow> gomap \<Rightarrow> gomap" where
  "without ks live = fold AList.delete ks live"

lemma delete_extras_outcome:
  "loop_outcome (delete_plan (st_FsId (status_of s)) desired ks)
    (without (filter (\<lambda>k. map_of desired k = None) ks) live,
     changed \<or> filter (\<lambda>k. map_of desired k = None) ks \<noteq> [])
    s (run_state (delete_extras R desired ks live changed) s)"
proof (induction ks arbitrary: live changed s)
  case Nil
  then show ?case by (simp add: delete_plan_def without_def loop_outcome_done)
next
  case (Cons k ks)
  show ?case
  proof (cases "map_of desired k")
    case (Some v)
    then show ?thesis using Cons.IH by (simp add: delete_plan_def)
  next
    case missing: None
    let ?c = "CallDeleteTag (st_FsId (status_of s)) k"
    obtain r w where r: "DeleteTag (Huawei R) (st_FsId (status_of s)) k (world s) = (r, w)" by fastforce
    have plan: "delete_plan (st_FsId (status_of s)) desired (k # ks) =
        ?c # delete_plan (st_FsId (status_of s)) desired ks"
      using missing by (simp add: delete_plan_def)
    show ?thesis
    proof (cases r)
      case None
      note ih = Cons.IH [of "s\<lparr>world := w, calls := calls s @ [?c None]\<rparr>" "AList.delete k live" True]
      show ?thesis
        unfolding plan using loop_outcome_step [where p = ?c, OF ih [simplified]] missing r None
        by (simp add: without_def invoke_def)
    next
      case (Some e)
      then show ?thesis
        unfolding plan using missing r by (simp add: invoke_def loop_outcome_fail)
    qed
  qed
qed

section \<open>The result\<close>

lemma map_of_with_added:
  "wf_map kvs \<Longrightarrow> map_of (with_added kvs m) k =
     (case map_of kvs k of Some v \<Rightarrow> Some v | None \<Rightarrow> map_of m k)"
proof (induction kvs arbitrary: m)
  case (Cons kv kvs)
  obtain k1 v1 where kv: "kv = (k1, v1)" by fastforce
  from Cons.prems have wf: "wf_map kvs" and k1: "map_of kvs k1 = None"
    by (auto simp: wf_map_def kv map_of_eq_None_iff)
  have "map_of (with_added (kv # kvs) m) k = map_of (with_added kvs (AList.update k1 v1 m)) k"
    by (simp add: with_added_def kv)
  also have "\<dots> = (case map_of kvs k of Some v \<Rightarrow> Some v | None \<Rightarrow> map_of (AList.update k1 v1 m) k)"
    by (rule Cons.IH [OF wf])
  finally show ?case using k1 by (auto simp: kv update_conv' split: option.split)
qed (simp add: with_added_def)

lemma map_of_tags_to_add:
  "wf_map desired \<Longrightarrow> map_of (tags_to_add desired live) k =
     (case map_of desired k of
        Some v \<Rightarrow> if map_of live k \<noteq> Some v then Some v else None | None \<Rightarrow> None)"
proof (induction desired)
  case (Cons kv desired)
  obtain k1 v1 where kv: "kv = (k1, v1)" by fastforce
  from Cons.prems have wf: "wf_map desired" and k1: "map_of desired k1 = None"
    by (auto simp: wf_map_def kv map_of_eq_None_iff)
  from Cons.IH [OF wf] k1 show ?case by (auto simp: kv tags_to_add_Cons split: option.split)
qed (simp add: tags_to_add_def)

lemma wf_tags_to_add: "wf_map desired \<Longrightarrow> wf_map (tags_to_add desired live)"
  by (simp add: wf_map_def tags_to_add_def distinct_map_filter)

text \<open>The additions bring in no key that has to be deleted.\<close>

lemma extras_with_added:
  "fst ` set adds \<subseteq> dom (map_of desired) \<Longrightarrow>
   filter (\<lambda>k. map_of desired k = None) (map fst (with_added adds live)) = tags_to_delete desired live"
proof (induction adds arbitrary: live)
  case (Cons kv adds)
  obtain k v where kv: "kv = (k, v)" by fastforce
  have "tags_to_delete desired (AList.update k v live) = tags_to_delete desired live"
    using Cons.prems by (auto simp: tags_to_delete_def map_fst_update kv)
  then show ?case using Cons by (simp add: kv with_added_def)
qed (simp add: with_added_def tags_to_delete_def)

lemma keys_tags_to_add: "fst ` set (tags_to_add desired live) \<subseteq> dom (map_of desired)"
  by (auto simp: tags_to_add_def dom_map_of_conv_image_fst image_iff)

definition reconciled_tags :: "gomap \<Rightarrow> gomap \<Rightarrow> gomap" where
  "reconciled_tags desired live = without (tags_to_delete desired live) (with_added (tags_to_add desired live) live)"

lemma map_of_reconciled_tags:
  assumes "wf_map desired"
  shows "map_of (reconciled_tags desired live) = map_of desired"
proof
  fix k
  have del: "map_of (without ks m) k = (if k \<in> set ks then None else map_of m k)" for ks m
    unfolding without_def by (rule go_map.lookup_erases)
  have extra: "k \<in> set (tags_to_delete desired live) \<longleftrightarrow> map_of desired k = None \<and> map_of live k \<noteq> None"
    by (auto simp: tags_to_delete_def map_of_eq_None_iff)
  show "map_of (reconciled_tags desired live) k = map_of desired k"
    by (auto simp: reconciled_tags_def del extra map_of_with_added [OF wf_tags_to_add [OF assms]]
        map_of_tags_to_add [OF assms] split: option.split)
qed

definition tag_plan :: "string \<Rightarrow> gomap \<Rightarrow> gomap \<Rightarrow> plan" where
  "tag_plan fsId desired live = add_plan fsId desired live @ map (CallDeleteTag fsId) (tags_to_delete desired live)"

text \<open>
  The tag set after a list of tag calls, by what the API documents: an accepted
  \<open>AddTag\<close> sets the key, an accepted \<open>DeleteTag\<close> removes it.
\<close>

fun tag_effect :: "call \<Rightarrow> gomap \<Rightarrow> gomap" where
  "tag_effect (CallAddTag _ k v None) m = AList.update k v m"
| "tag_effect (CallDeleteTag _ k None) m = AList.delete k m"
| "tag_effect _ m = m"

lemma tag_effects_of_plan:
  "fold tag_effect (map (\<lambda>p. p None) (tag_plan fsId desired live)) live = reconciled_tags desired live"
proof -
  have "fold tag_effect (map (\<lambda>p. p None) (map (\<lambda>(k, v). CallAddTag fsId k v) kvs)) m = with_added kvs m" for kvs m
    by (induction kvs arbitrary: m) (auto simp: with_added_def)
  moreover have "fold tag_effect (map (\<lambda>p. p None) (map (CallDeleteTag fsId) ks)) m = without ks m" for ks m
    by (induction ks arbitrary: m) (auto simp: without_def)
  ultimately show ?thesis by (simp add: tag_plan_def add_plan_def reconciled_tags_def del: map_map)
qed

text \<open>
  All branches of \<open>reconcileTagsDrift\<close> as one post-condition, for every environment.
\<close>

definition tags_outcome :: "'w pass \<Rightarrow> err option \<Rightarrow> 'w pass \<Rightarrow> bool" where
  "tags_outcome s r s' \<longleftrightarrow> (\<exists>a cs. calls s' = calls s @ CallListTags (st_FsId (status_of s)) a # cs \<and>
     (case a of
        Inl e \<Rightarrow> cs = [] \<and> r = Some (Errorf ''ListTags: '' e []) \<and> sfsti s' = sfsti s
      | Inr live \<Rightarrow>
          attempted (tag_plan (st_FsId (status_of s)) (sp_Tags (spec_of s)) live) cs (r = None)
        \<and> (if r = None then st_Tags (status_of s') = reconciled_tags (sp_Tags (spec_of s)) live
              \<and> (\<exists>n. sfsti s' =
                 (let cr = (if cs = [] then sfsti s
                    else with_condition n ConditionReady ConditionTrue ReasonTagsReconciled
                      ''tags reconciled to spec'' (sfsti s))
                  in cr\<lparr>cr_Status := (cr_Status cr)\<lparr>st_Tags := reconciled_tags (sp_Tags (spec_of s)) live\<rparr>\<rparr>))
           else sfsti s' = sfsti s)))"

lemma no_plan_iff: "tag_plan fsId desired live = [] \<longleftrightarrow>
    tags_to_add desired live = [] \<and> tags_to_delete desired live = []"
  by (simp add: tag_plan_def add_plan_def)

lemma attempted_Nil: "attempted ps [] ok \<longleftrightarrow> ps = [] \<and> ok"
  by (cases ps) auto

lemma add_phase:
  assumes "wf_map desired" and "run_state (add_missing R desired live False) s = (r, t)"
  shows "\<exists>w cs. t = s\<lparr>world := w, calls := calls s @ cs\<rparr>
    \<and> attempted (add_plan (st_FsId (status_of s)) desired live) cs (\<not> isl r)
    \<and> (isl r \<or> r = Inr (with_added (tags_to_add desired live) live, tags_to_add desired live \<noteq> []))"
  using add_missing_outcome [OF assms(1), of s live False R, unfolded assms(2)]
  by (simp add: loop_outcome_def)

lemma delete_phase:
  assumes "run_state (delete_extras R desired (map fst m) m ch) s = (r, t)"
    and m: "m = with_added (tags_to_add desired live) live"
  shows "\<exists>w cs. t = s\<lparr>world := w, calls := calls s @ cs\<rparr>
    \<and> attempted (map (CallDeleteTag (st_FsId (status_of s))) (tags_to_delete desired live)) cs (\<not> isl r)
    \<and> (isl r \<or> r = Inr (reconciled_tags desired live, ch \<or> tags_to_delete desired live \<noteq> []))"
proof -
  have extras: "filter (\<lambda>k. map_of desired k = None) (map fst m) = tags_to_delete desired live"
    unfolding m by (rule extras_with_added [OF keys_tags_to_add])
  show ?thesis
    using delete_extras_outcome [of s desired "map fst m" m ch R, unfolded assms(1) delete_plan_def extras]
    by (simp add: loop_outcome_def reconciled_tags_def m)
qed

text \<open>What follows the reading of the live set, in the two loops' terms.\<close>

lemma reconcileTagsDrift_outcome:
  assumes wf: "wf_map (sp_Tags (spec_of s))"
    and run: "run_state (reconcileTagsDrift R) s = (r, s')"
  shows "tags_outcome s r s'"
proof -
  let ?id = "st_FsId (status_of s)" and ?desired = "sp_Tags (spec_of s)"
  obtain a w where a: "ListTags (Huawei R) ?id (world s) = (a, w)" by fastforce
  define s1 where "s1 = s\<lparr>world := w, calls := calls s @ [CallListTags ?id a]\<rparr>"
  show ?thesis
  proof (cases a)
    case (Inl e)
    with run a show ?thesis
      by (auto simp: reconcileTagsDrift_def invoke_def tags_outcome_def)
  next
    case (Inr live)
    obtain r1 s2 where add: "run_state (add_missing R ?desired live False) s1 = (r1, s2)" by fastforce
    from add_phase [OF wf add] obtain w2 cs where s2: "s2 = s1\<lparr>world := w2, calls := calls s1 @ cs\<rparr>"
      and att: "attempted (add_plan ?id ?desired live) cs (\<not> isl r1)"
      and r1: "isl r1 \<or> r1 = Inr (with_added (tags_to_add ?desired live) live, tags_to_add ?desired live \<noteq> [])"
      by (auto simp: s1_def)
    show ?thesis
    proof (cases r1)
      case (Inl e)
      with att have "attempted (tag_plan ?id ?desired live) cs False"
        by (simp add: tag_plan_def attempted_failed)
      with run a Inr add Inl show ?thesis
        by (intro tags_outcome_def [THEN iffD2] exI [of _ a] exI [of _ cs])
          (auto simp: reconcileTagsDrift_def invoke_def s1_def s2)
    next
      case lc: (Inr lc)
      obtain r2 s3 where del: "run_state (delete_extras R ?desired (map fst (fst lc)) (fst lc) (snd lc)) s2 = (r2, s3)"
        by fastforce
      have lc_eq: "fst lc = with_added (tags_to_add ?desired live) live"
        "snd lc = (tags_to_add ?desired live \<noteq> [])" using r1 lc by simp_all
      from delete_phase [OF del lc_eq(1)] obtain w3 ds
        where s3: "s3 = s2\<lparr>world := w3, calls := calls s2 @ ds\<rparr>"
        and att2: "attempted (map (CallDeleteTag ?id) (tags_to_delete ?desired live)) ds (\<not> isl r2)"
        and r2: "isl r2 \<or> r2 = Inr (reconciled_tags ?desired live, snd lc \<or> tags_to_delete ?desired live \<noteq> [])"
        by (auto simp: s1_def s2)
      have plan: "attempted (tag_plan ?id ?desired live) (cs @ ds) (\<not> isl r2)"
        using att att2 lc by (simp add: tag_plan_def attempted_append)
      have r2': "isl r2 \<or> r2 = Inr (reconciled_tags ?desired live, cs @ ds \<noteq> [])"
        using r2 plan lc_eq(2) by (auto simp: attempted_all tag_plan_def add_plan_def)
      show ?thesis using run a Inr add lc del plan r2'
        by (intro tags_outcome_def [THEN iffD2] exI [of _ a] exI [of _ "cs @ ds"])
          (cases r2; auto simp: reconcileTagsDrift_def invoke_def setCondition_def now_def s3 s2 s1_def Let_def
            split: prod.splits if_splits)
    qed
  qed
qed

lemma tags_outcome_NoneE:
  assumes "tags_outcome s None s'"
  obtains live where
    "calls s' = calls s @ CallListTags (st_FsId (status_of s)) (Inr live)
       # map (\<lambda>p. p None) (tag_plan (st_FsId (status_of s)) (sp_Tags (spec_of s)) live)"
    "st_Tags (status_of s') = reconciled_tags (sp_Tags (spec_of s)) live"
proof -
  from assms obtain a cs where ac:
    "calls s' = calls s @ CallListTags (st_FsId (status_of s)) a # cs"
    "case a of Inl e \<Rightarrow> False
      | Inr live \<Rightarrow> attempted (tag_plan (st_FsId (status_of s)) (sp_Tags (spec_of s)) live) cs True
          \<and> st_Tags (status_of s') = reconciled_tags (sp_Tags (spec_of s)) live"
    unfolding tags_outcome_def by (elim exE conjE) (simp split: sum.splits)
  then show ?thesis using that by (cases a) (auto simp: attempted_all simp del: map_map)
qed

lemma tags_outcome_SomeE:
  assumes "tags_outcome s (Some x) s'"
  obtains a cs where
    "calls s' = calls s @ CallListTags (st_FsId (status_of s)) a # cs" "sfsti s' = sfsti s"
    "case a of Inl e \<Rightarrow> cs = []
      | Inr live \<Rightarrow> attempted (tag_plan (st_FsId (status_of s)) (sp_Tags (spec_of s)) live) cs False"
proof -
  from assms obtain a cs where
    "calls s' = calls s @ CallListTags (st_FsId (status_of s)) a # cs" and
    b: "case a of Inl e \<Rightarrow> cs = [] \<and> sfsti s' = sfsti s
      | Inr live \<Rightarrow> attempted (tag_plan (st_FsId (status_of s)) (sp_Tags (spec_of s)) live) cs False
          \<and> sfsti s' = sfsti s"
    unfolding tags_outcome_def by (elim exE conjE) (simp split: sum.splits)
  then show ?thesis by (intro that [of a cs]) (simp_all split: sum.splits)
qed

text \<open>
  C19. When \<open>reconcileTagsDrift\<close> reports no error, the calls it made were the reading
  of the live tags and then only accepted \<open>AddTag\<close> and \<open>DeleteTag\<close> calls, and their
  effect on the tag set it had read is a tag set that maps every key as \<open>spec.tags\<close>
  does; that set is what it leaves in \<open>status.tags\<close>.
\<close>

theorem tags_converge:
  assumes "wf_map (sp_Tags (spec_of s))" and "run_state (reconcileTagsDrift R) s = (None, s')"
  shows "\<exists>live cs. calls s' = calls s @ CallListTags (st_FsId (status_of s)) (Inr live) # cs
    \<and> map_of (fold tag_effect cs live) = map_of (sp_Tags (spec_of s))
    \<and> st_Tags (status_of s') = fold tag_effect cs live"
proof -
  let ?plan = "\<lambda>live. tag_plan (st_FsId (status_of s)) (sp_Tags (spec_of s)) live"
  from reconcileTagsDrift_outcome [OF assms] obtain live
    where "calls s' = calls s @ CallListTags (st_FsId (status_of s)) (Inr live) # map (\<lambda>p. p None) (?plan live)"
      and "st_Tags (status_of s') = reconciled_tags (sp_Tags (spec_of s)) live"
    by (rule tags_outcome_NoneE)
  then show ?thesis
    by (intro exI [of _ live] exI [of _ "map (\<lambda>p. p None) (?plan live)"])
      (simp add: tag_effects_of_plan map_of_reconciled_tags [OF assms(1)] del: map_map)
qed

definition demo_tagged :: SfsTurboInstance where
  "demo_tagged = demo_tracked\<lparr>cr_Spec := demo_spec\<lparr>sp_Tags := [(''env'', ''prod''), (''team'', ''a'')]\<rparr>\<rparr>"

definition demo_live_tags :: gomap where
  "demo_live_tags = [(''env'', ''dev''), (''old'', ''x''), (''team'', ''a'')]"

lemmas tags_run_defs = run_defs reconcileTagsDrift_def demo_defs demo_tagged_def demo_live_tags_def

theorem tags_converge_witness:
  "\<exists>live cs. calls (snd (run_state (reconcileTagsDrift (scripted (demo_script\<lparr>a_tags := Inr demo_live_tags\<rparr>)))
        (demo_pass demo_tagged))) = CallListTags ''fs-1'' (Inr live) # cs
    \<and> map_of (fold tag_effect cs live) = map_of [(''env'', ''prod''), (''team'', ''a'')]"
proof -
  define R where "R = scripted (demo_script\<lparr>a_tags := Inr demo_live_tags\<rparr>)"
  have wf: "wf_map (sp_Tags (spec_of (demo_pass demo_tagged)))"
    by (simp add: wf_map_def demo_defs demo_tagged_def)
  have run: "run_state (reconcileTagsDrift R) (demo_pass demo_tagged)
      = (None, snd (run_state (reconcileTagsDrift R) (demo_pass demo_tagged)))"
    by (simp add: R_def tags_run_defs)
  show ?thesis
    using tags_converge [OF wf run] unfolding R_def [symmetric]
    by (auto simp: demo_defs demo_tagged_def)
qed

text \<open>
  When \<open>reconcileTagsDrift\<close> fails, either the live tags could not be read and no tag
  was touched, or exactly one tag call failed: all calls before it were accepted, none
  was made after it, and the object is left unchanged for the next pass.
\<close>

lemma tags_stop_at_first_error:
  assumes "wf_map (sp_Tags (spec_of s))" and "run_state (reconcileTagsDrift R) s = (Some x, s')"
  shows "sfsti s' = sfsti s \<and>
    ((\<exists>e. calls s' = calls s @ [CallListTags (st_FsId (status_of s)) (Inl e)])
   \<or> (\<exists>live i e. i < length (tag_plan (st_FsId (status_of s)) (sp_Tags (spec_of s)) live)
        \<and> calls s' = calls s @ CallListTags (st_FsId (status_of s)) (Inr live)
            # map (\<lambda>p. p None) (take i (tag_plan (st_FsId (status_of s)) (sp_Tags (spec_of s)) live))
            @ [(tag_plan (st_FsId (status_of s)) (sp_Tags (spec_of s)) live ! i) (Some e)]))"
proof -
  from reconcileTagsDrift_outcome [OF assms] obtain a cs
    where c: "calls s' = calls s @ CallListTags (st_FsId (status_of s)) a # cs" "sfsti s' = sfsti s"
      and a: "case a of Inl e \<Rightarrow> cs = []
        | Inr live \<Rightarrow> attempted (tag_plan (st_FsId (status_of s)) (sp_Tags (spec_of s)) live) cs False"
    by (rule tags_outcome_SomeE)
  show ?thesis
  proof (cases a)
    case (Inl e)
    with a c show ?thesis by auto
  next
    case (Inr live)
    with a have "attempted (tag_plan (st_FsId (status_of s)) (sp_Tags (spec_of s)) live) cs False" by simp
    from attempted_stops [OF this] a c Inr show ?thesis by auto
  qed
qed

lemma tags_stop_at_first_error_example:
  "calls (snd (run_state (reconcileTagsDrift
       (scripted (demo_script\<lparr>a_tags := Inr demo_live_tags, a_huawei := Some (OtherError ''x'')\<rparr>)))
       (demo_pass demo_tagged))) \<noteq> []"
proof -
  define R where "R = scripted (demo_script\<lparr>a_tags := Inr demo_live_tags, a_huawei := Some (OtherError ''x'')\<rparr>)"
  have wf: "wf_map (sp_Tags (spec_of (demo_pass demo_tagged)))"
    by (simp add: wf_map_def demo_defs demo_tagged_def)
  have run: "run_state (reconcileTagsDrift R) (demo_pass demo_tagged)
      = (Some (Errorf ''AddTag(env=prod): '' (OtherError ''x'') []),
         snd (run_state (reconcileTagsDrift R) (demo_pass demo_tagged)))"
    by (simp add: R_def tags_run_defs)
  show ?thesis using tags_stop_at_first_error [OF wf run] unfolding R_def [symmetric] by auto
qed

lemma tag_plan_empty_iff:
  assumes "wf_map desired"
  shows "(tag_plan fsId desired live = [] \<longleftrightarrow> map_of live = map_of desired)
    \<and> tag_plan fsId desired (reconciled_tags desired live) = []"
proof -
  have add: "tags_to_add desired m = [] \<longleftrightarrow> (\<forall>k v. (k, v) \<notin> set desired \<or> map_of m k = Some v)" for m
    by (auto simp: tags_to_add_def filter_empty_conv)
  have del: "tags_to_delete desired m = [] \<longleftrightarrow> dom (map_of m) \<subseteq> dom (map_of desired)" for m
    by (force simp: tags_to_delete_def filter_empty_conv dom_map_of_conv_image_fst map_of_eq_None_iff)
  have ent: "(k, v) \<in> set desired \<longleftrightarrow> map_of desired k = Some v" for k v
    using assms by (simp add: wf_map_def)
  have iff: "tag_plan fsId desired m = [] \<longleftrightarrow> map_of m = map_of desired" for m
  proof
    assume "tag_plan fsId desired m = []"
    then have a: "map_of desired k = Some v \<Longrightarrow> map_of m k = Some v" and
      d: "map_of m k = Some v \<Longrightarrow> map_of desired k \<noteq> None" for k v
      by (auto simp: no_plan_iff add del ent)
    show "map_of m = map_of desired"
    proof
      fix k
      show "map_of m k = map_of desired k"
        using a [of k] d [of k] by (cases "map_of desired k"; cases "map_of m k") auto
    qed
  qed (simp add: no_plan_iff add del ent)
  then show ?thesis by (simp add: map_of_reconciled_tags [OF assms])
qed

text \<open>
  C24. A successful \<open>reconcileTagsDrift\<close> makes no tag call beyond the reading exactly when
  the live set already maps every key as \<open>spec.tags\<close> does. So the pass after a
  successful one, which reads the set that one left, changes nothing.
\<close>

theorem tags_quiet_iff_aligned:
  assumes "wf_map (sp_Tags (spec_of s))" and "run_state (reconcileTagsDrift R) s = (None, s')"
  shows "\<exists>live cs. calls s' = calls s @ CallListTags (st_FsId (status_of s)) (Inr live) # cs
    \<and> (cs = [] \<longleftrightarrow> map_of live = map_of (sp_Tags (spec_of s)))
    \<and> tag_plan (st_FsId (status_of s)) (sp_Tags (spec_of s)) (st_Tags (status_of s')) = []"
proof -
  let ?plan = "\<lambda>live. tag_plan (st_FsId (status_of s)) (sp_Tags (spec_of s)) live"
  from reconcileTagsDrift_outcome [OF assms] obtain live
    where "calls s' = calls s @ CallListTags (st_FsId (status_of s)) (Inr live) # map (\<lambda>p. p None) (?plan live)"
      and "st_Tags (status_of s') = reconciled_tags (sp_Tags (spec_of s)) live"
    by (rule tags_outcome_NoneE)
  then show ?thesis
    using tag_plan_empty_iff [OF assms(1)]
    by (intro exI [of _ live] exI [of _ "map (\<lambda>p. p None) (?plan live)"]) simp
qed

theorem tags_quiet_iff_aligned_witness:
  "\<exists>live cs. calls (snd (run_state (reconcileTagsDrift (scripted (demo_script\<lparr>a_tags := Inr demo_live_tags\<rparr>)))
        (demo_pass demo_tagged))) = CallListTags ''fs-1'' (Inr live) # cs
    \<and> (cs = [] \<longleftrightarrow> map_of live = map_of [(''env'', ''prod''), (''team'', ''a'')])"
proof -
  define R where "R = scripted (demo_script\<lparr>a_tags := Inr demo_live_tags\<rparr>)"
  have wf: "wf_map (sp_Tags (spec_of (demo_pass demo_tagged)))"
    by (simp add: wf_map_def demo_defs demo_tagged_def)
  have run: "run_state (reconcileTagsDrift R) (demo_pass demo_tagged)
      = (None, snd (run_state (reconcileTagsDrift R) (demo_pass demo_tagged)))"
    by (simp add: R_def tags_run_defs)
  show ?thesis
    using tags_quiet_iff_aligned [OF wf run] unfolding R_def [symmetric]
    by (auto simp: demo_defs demo_tagged_def)
qed

end
