(* ===== verification/Volumes.thy ===== *)
theory Volumes
  imports Scenario
begin

text \<open>
  The PersistentVolume and PersistentVolumeClaim that front the file system:
  \<open>ensurePVPVC\<close>, \<open>buildPV\<close>, \<open>buildPVC\<close> and \<open>cascadeDeletePVPVC\<close> of the controller.
\<close>

section \<open>Building the pair\<close>

definition defaultStorageClassName :: string where
  [go_consts]: "defaultStorageClassName = ''csi-sfsturbo-perinstance''"
definition managedByKey :: string where [go_consts]: "managedByKey = ''app.kubernetes.io/managed-by''"
definition managedByValue :: string where [go_consts]: "managedByValue = ''huawei-sfs-operator''"
definition ComponentSharedStorage :: string where [go_consts]: "ComponentSharedStorage = ''shared-storage''"

definition owner_labels :: "SfsTurboInstance \<Rightarrow> gomap" where
  "owner_labels cr = [
     (''app.kubernetes.io/component'', ComponentSharedStorage),
     (''app.kubernetes.io/instance'', sp_PvcName (cr_Spec cr)),
     (managedByKey, managedByValue),
     (''sfs.huaweicloud.com/owned-by'', cr_Namespace cr @ ''.'' @ cr_Name cr)]"

definition buildPV :: "SfsTurboInstance \<Rightarrow> string \<Rightarrow> quantity \<Rightarrow> PersistentVolume" where
  "buildPV cr storageClass capacity = \<lparr>
     pv_Name = sp_PvcName (cr_Spec cr),
     pv_Labels = owner_labels cr,
     pv_Annotations = [
       (''argocd.argoproj.io/sync-options'', ''Prune=false''),
       (''sfs.huaweicloud.com/sfsturboinstance'', cr_Namespace cr @ ''/'' @ cr_Name cr)],
     pv_DeletionTimestamp = None,
     pv_Capacity = [(''storage'', capacity)],
     pv_AccessModes = [''ReadWriteMany''],
     pv_ReclaimPolicy = ''Retain'',
     pv_StorageClassName = storageClass,
     pv_ClaimRef = Some \<lparr>or_Namespace = cr_Namespace cr, or_Name = sp_PvcName (cr_Spec cr), or_UID = []\<rparr>,
     pv_MountOptions = [''vers=3'', ''nolock'', ''noresvport'', ''timeo=600''],
     pv_CSI = Some \<lparr>
       csi_Driver = ''sfsturbo.csi.everest.io'',
       csi_FSType = ''nfs'',
       csi_VolumeHandle = st_FsId (cr_Status cr),
       csi_VolumeAttributes = [
         (''everest.io/share-export-location'', st_ExportPath (cr_Status cr)),
         (''everest.io/share-source'', ''sfs-turbo''),
         (''storage.kubernetes.io/csiProvisionerIdentity'', ''everest-csi-provisioner'')]\<rparr>,
     pv_Phase = []\<rparr>"

definition buildPVC :: "SfsTurboInstance \<Rightarrow> string \<Rightarrow> quantity \<Rightarrow> PersistentVolumeClaim" where
  "buildPVC cr storageClass capacity = \<lparr>
     pvc_Name = sp_PvcName (cr_Spec cr),
     pvc_Namespace = cr_Namespace cr,
     pvc_Labels = owner_labels cr,
     pvc_Annotations = [
       (''helm.sh/resource-policy'', ''keep''),
       (''argocd.argoproj.io/sync-options'', ''Prune=false''),
       (''sfs.huaweicloud.com/sfsturboinstance'', cr_Namespace cr @ ''/'' @ cr_Name cr)],
     pvc_DeletionTimestamp = None,
     pvc_AccessModes = [''ReadWriteMany''],
     pvc_StorageClassName = Some storageClass,
     pvc_VolumeName = sp_PvcName (cr_Spec cr),
     pvc_Requests = [(''storage'', capacity)]\<rparr>"

section \<open>ensurePVPVC\<close>

definition storage_class :: "SfsTurboInstanceSpec \<Rightarrow> string" where
  "storage_class sp = (if sp_StorageClassName sp = [] then defaultStorageClassName else sp_StorageClassName sp)"

text \<open>\<open>int64(sfsti.Spec.Size)*1024*1024*1024\<close>: sign extension, then wrapping 64-bit products.\<close>

definition default_capacity_bytes :: "int32 \<Rightarrow> int64" where
  "default_capacity_bytes gib = word_of_int (sint gib) * 1024 * 1024 * 1024"

definition pvc_size :: "Library \<Rightarrow> SfsTurboInstanceSpec \<Rightarrow> string" where
  "pvc_size L sp = (if sp_PvcSize sp = [] then QuantityString L (default_capacity_bytes (sp_Size sp))
     else sp_PvcSize sp)"

text \<open>The three preconditions of the re-deploy recovery.\<close>

definition stale_claim :: "PersistentVolume \<Rightarrow> bool" where
  "stale_claim pv \<longleftrightarrow> pv_Phase pv = VolumeReleased
     \<and> map_index (pv_Labels pv) managedByKey = managedByValue
     \<and> pv_ClaimRef pv \<noteq> None"

definition ensurePV :: "'w Reconciler \<Rightarrow> string \<Rightarrow> quantity \<Rightarrow> ('w, err option) rec" where
  "ensurePV R storageClass quantity = do {
     cr \<leftarrow> gets sfsti;
     r \<leftarrow> invoke (kGetPV (Client R) (sp_PvcName (cr_Spec cr))) (CallGetPV (sp_PvcName (cr_Spec cr)));
     (case r of
       Inl e \<Rightarrow>
         if IsNotFound (Lib R) e then
           invoke (kCreatePV (Client R) (buildPV cr storageClass quantity)) (CallCreatePV (buildPV cr storageClass quantity))
         else State_Monad.return (Some e)
     | Inr pv \<Rightarrow>
         if stale_claim pv then do {
           u \<leftarrow> invoke (kUpdatePV (Client R) (pv\<lparr>pv_ClaimRef := None\<rparr>)) (CallUpdatePV (pv\<lparr>pv_ClaimRef := None\<rparr>));
           State_Monad.return (map_option
             (\<lambda>e. Errorf (''clearing stale claimRef on Released PV '' @ pv_Name pv @ '': '') e []) u)
         }
         else State_Monad.return None)
   }"

definition ensurePVC :: "'w Reconciler \<Rightarrow> string \<Rightarrow> quantity \<Rightarrow> ('w, err option) rec" where
  "ensurePVC R storageClass quantity = do {
     cr \<leftarrow> gets sfsti;
     let key = \<lparr>nn_Namespace = cr_Namespace cr, nn_Name = sp_PvcName (cr_Spec cr)\<rparr>;
     r \<leftarrow> invoke (kGetPVC (Client R) key) (CallGetPVC key);
     (case r of
       Inl e \<Rightarrow>
         if IsNotFound (Lib R) e then
           invoke (kCreatePVC (Client R) (buildPVC cr storageClass quantity)) (CallCreatePVC (buildPVC cr storageClass quantity))
         else State_Monad.return (Some e)
     | Inr pvc \<Rightarrow> State_Monad.return None)
   }"

definition ensurePVPVC :: "'w Reconciler \<Rightarrow> ('w, err option) rec" where
  "ensurePVPVC R = do {
     cr \<leftarrow> gets sfsti;
     (if sp_PvcName (cr_Spec cr) = [] then State_Monad.return None
      else if st_FsId (cr_Status cr) = [] \<or> st_ExportPath (cr_Status cr) = [] then
        State_Monad.return (Some (OtherError ''ensurePVPVC called before status populated''))
      else (let pvcSize = pvc_size (Lib R) (cr_Spec cr) in
        case ParseQuantity (Lib R) pvcSize of
          Inl e \<Rightarrow> State_Monad.return (Some (OtherError (''invalid pvcSize: '' @ pvcSize @ '': '' @ error_text e)))
        | Inr quantity \<Rightarrow> do {
            e1 \<leftarrow> ensurePV R (storage_class (cr_Spec cr)) quantity;
            (case e1 of
              Some e \<Rightarrow> State_Monad.return (Some e)
            | None \<Rightarrow> ensurePVC R (storage_class (cr_Spec cr)) quantity)
          }))
   }"

section \<open>cascadeDeletePVPVC\<close>

text \<open>A failed \<open>Delete\<close> of an object that is gone counts as done.\<close>

definition tolerate_missing :: "Library \<Rightarrow> err option \<Rightarrow> err option" where
  "tolerate_missing L r = (case r of None \<Rightarrow> None | Some e \<Rightarrow> if IsNotFound L e then None else Some e)"

definition cascadeDeletePVC :: "'w Reconciler \<Rightarrow> ('w, err option) rec" where
  "cascadeDeletePVC R = do {
     cr \<leftarrow> gets sfsti;
     let key = \<lparr>nn_Namespace = cr_Namespace cr, nn_Name = sp_PvcName (cr_Spec cr)\<rparr>;
     r \<leftarrow> invoke (kGetPVC (Client R) key) (CallGetPVC key);
     (case r of
       Inl e \<Rightarrow> State_Monad.return (if IsNotFound (Lib R) e then None else Some e)
     | Inr pvc \<Rightarrow>
         if timestamp_IsZero (pvc_DeletionTimestamp pvc) then do {
           d \<leftarrow> invoke (kDeletePVC (Client R) pvc) (CallDeletePVC pvc);
           State_Monad.return (tolerate_missing (Lib R) d)
         }
         else State_Monad.return None)
   }"

definition cascadeDeletePV :: "'w Reconciler \<Rightarrow> ('w, err option) rec" where
  "cascadeDeletePV R = do {
     cr \<leftarrow> gets sfsti;
     r \<leftarrow> invoke (kGetPV (Client R) (sp_PvcName (cr_Spec cr))) (CallGetPV (sp_PvcName (cr_Spec cr)));
     (case r of
       Inl e \<Rightarrow> State_Monad.return (if IsNotFound (Lib R) e then None else Some e)
     | Inr pv \<Rightarrow>
         if timestamp_IsZero (pv_DeletionTimestamp pv) then do {
           d \<leftarrow> invoke (kDeletePV (Client R) pv) (CallDeletePV pv);
           State_Monad.return (tolerate_missing (Lib R) d)
         }
         else State_Monad.return None)
   }"

definition cascadeDeletePVPVC :: "'w Reconciler \<Rightarrow> ('w, err option) rec" where
  "cascadeDeletePVPVC R = do {
     e \<leftarrow> cascadeDeletePVC R;
     (case e of
       Some x \<Rightarrow> State_Monad.return (Some x)
     | None \<Rightarrow> cascadeDeletePV R)
   }"

lemmas volume_defs = ensurePV_def ensurePVC_def ensurePVPVC_def cascadeDeletePVC_def
  cascadeDeletePV_def cascadeDeletePVPVC_def

section \<open>Properties\<close>

text \<open>
  C40. The byte count behind the default \<open>pvcSize\<close> is exact: for every \<open>int32\<close> the
  64-bit products do not wrap, so the PVC asks for \<open>spec.size\<close> GiB.
\<close>

theorem default_capacity_exact: "sint (default_capacity_bytes gib) = sint gib * 2 ^ 30"
proof -
  have "- (2 ^ 31) \<le> sint gib" and "sint gib < 2 ^ 31"
    using sint_range_size [of gib] by (simp_all add: word_size)
  then have "sint (word_of_int (sint gib * 1073741824) :: int64) = sint gib * 1073741824"
    by (intro signed_take_bit_int_eq_self [THEN trans [OF sint_sbintrunc']]) simp_all
  moreover have "default_capacity_bytes gib = word_of_int (sint gib * 1073741824)"
    by (simp add: default_capacity_bytes_def)
  ultimately show ?thesis by simp
qed

text \<open>What a pass of \<open>ensurePVPVC\<close> may do to the cluster, given what it read.\<close>

definition pv_step :: "Library \<Rightarrow> PersistentVolume \<Rightarrow> err + PersistentVolume \<Rightarrow> err option \<Rightarrow> call list" where
  "pv_step L fresh found r = (case found of
       Inl e \<Rightarrow> if IsNotFound L e then [CallCreatePV fresh r] else []
     | Inr pv \<Rightarrow> if stale_claim pv then [CallUpdatePV (pv\<lparr>pv_ClaimRef := None\<rparr>) r] else [])"

definition pvc_step :: "Library \<Rightarrow> PersistentVolumeClaim \<Rightarrow> err + PersistentVolumeClaim \<Rightarrow> err option \<Rightarrow> call list" where
  "pvc_step L fresh found r = (case found of
       Inl e \<Rightarrow> if IsNotFound L e then [CallCreatePVC fresh r] else []
     | Inr pvc \<Rightarrow> [])"

definition pv_verdict :: "Library \<Rightarrow> err + PersistentVolume \<Rightarrow> err option \<Rightarrow> err option" where
  "pv_verdict L found r = (case found of
       Inl e \<Rightarrow> if IsNotFound L e then r else Some e
     | Inr pv \<Rightarrow> if stale_claim pv
         then map_option (\<lambda>e. Errorf (''clearing stale claimRef on Released PV '' @ pv_Name pv @ '': '') e []) r
         else None)"

definition pvc_verdict :: "Library \<Rightarrow> err + PersistentVolumeClaim \<Rightarrow> err option \<Rightarrow> err option" where
  "pvc_verdict L found r = (case found of
       Inl e \<Rightarrow> if IsNotFound L e then r else Some e | Inr pvc \<Rightarrow> None)"

lemma ensurePV_outcome:
  "\<exists>w found r. run_state (ensurePV R sc q) s =
     (pv_verdict (Lib R) found r,
      s\<lparr>world := w, calls := calls s @ CallGetPV (sp_PvcName (spec_of s)) found
         # pv_step (Lib R) (buildPV (sfsti s) sc q) found r\<rparr>)"
proof -
  obtain found w where f: "kGetPV (Client R) (sp_PvcName (spec_of s)) (world s) = (found, w)" by fastforce
  show ?thesis
  proof (cases found)
    case (Inl e)
    obtain r w' where "kCreatePV (Client R) (buildPV (sfsti s) sc q) w = (r, w')" by fastforce
    with f Inl show ?thesis
      by (intro exI [of _ "if IsNotFound (Lib R) e then w' else w"] exI [of _ found] exI [of _ r])
        (simp add: ensurePV_def invoke_def pv_verdict_def pv_step_def)
  next
    case (Inr pv)
    obtain r w' where "kUpdatePV (Client R) (pv\<lparr>pv_ClaimRef := None\<rparr>) w = (r, w')" by fastforce
    with f Inr show ?thesis
      by (intro exI [of _ "if stale_claim pv then w' else w"] exI [of _ found] exI [of _ r])
        (simp add: ensurePV_def invoke_def pv_verdict_def pv_step_def)
  qed
qed

abbreviation pvc_key :: "SfsTurboInstance \<Rightarrow> NamespacedName" where
  "pvc_key cr \<equiv> \<lparr>nn_Namespace = cr_Namespace cr, nn_Name = sp_PvcName (cr_Spec cr)\<rparr>"

lemma ensurePVC_outcome:
  "\<exists>w found r. run_state (ensurePVC R sc q) s =
     (pvc_verdict (Lib R) found r,
      s\<lparr>world := w, calls := calls s @ CallGetPVC (pvc_key (sfsti s)) found
         # pvc_step (Lib R) (buildPVC (sfsti s) sc q) found r\<rparr>)"
proof -
  obtain found w where f: "kGetPVC (Client R) (pvc_key (sfsti s)) (world s) = (found, w)" by fastforce
  obtain r w' where "kCreatePVC (Client R) (buildPVC (sfsti s) sc q) w = (r, w')" by fastforce
  with f show ?thesis
    by (cases found;
      intro exI [of _ "case found of Inl e \<Rightarrow> if IsNotFound (Lib R) e then w' else w | Inr pvc \<Rightarrow> w"]
        exI [of _ found] exI [of _ r])
      (simp_all add: ensurePVC_def Let_def invoke_def pvc_verdict_def pvc_step_def)
qed

text \<open>
  The outcome of \<open>ensurePVPVC\<close> once the status is populated and the size parses: the PV
  is looked at first, the PVC only if nothing failed for the PV.
\<close>

inductive ensure_outcome ::
  "Library \<Rightarrow> SfsTurboInstance \<Rightarrow> quantity \<Rightarrow> err option \<Rightarrow> call list \<Rightarrow> bool" for L cr q where
  pv_failed: "pv_verdict L pv rv = Some e \<Longrightarrow>
     ensure_outcome L cr q (Some e)
       (CallGetPV (sp_PvcName (cr_Spec cr)) pv # pv_step L (buildPV cr (storage_class (cr_Spec cr)) q) pv rv)"
| pv_done: "pv_verdict L pv rv = None \<Longrightarrow>
     ensure_outcome L cr q (pvc_verdict L pvc rc)
       (CallGetPV (sp_PvcName (cr_Spec cr)) pv # pv_step L (buildPV cr (storage_class (cr_Spec cr)) q) pv rv
        @ CallGetPVC (pvc_key cr) pvc # pvc_step L (buildPVC cr (storage_class (cr_Spec cr)) q) pvc rc)"

lemma ensurePVPVC_outcome:
  assumes run: "run_state (ensurePVPVC R) s = (r, s')"
  shows "\<exists>w cs. s' = s\<lparr>world := w, calls := calls s @ cs\<rparr> \<and>
    (if sp_PvcName (spec_of s) = [] then cs = [] \<and> r = None
     else if st_FsId (status_of s) = [] \<or> st_ExportPath (status_of s) = [] then cs = [] \<and> r \<noteq> None
     else case ParseQuantity (Lib R) (pvc_size (Lib R) (spec_of s)) of
         Inl e \<Rightarrow> cs = [] \<and> r \<noteq> None
       | Inr q \<Rightarrow> ensure_outcome (Lib R) (sfsti s) q r cs)"
proof (cases "sp_PvcName (spec_of s) = [] \<or> st_FsId (status_of s) = [] \<or> st_ExportPath (status_of s) = []
    \<or> isl (ParseQuantity (Lib R) (pvc_size (Lib R) (spec_of s)))")
  case True
  then show ?thesis using run
    by (intro exI [of _ "world s"] exI [of _ "[]"])
      (auto simp: ensurePVPVC_def Let_def split: if_splits sum.splits)
next
  case False
  then obtain q where q: "ParseQuantity (Lib R) (pvc_size (Lib R) (spec_of s)) = Inr q"
    by (cases "ParseQuantity (Lib R) (pvc_size (Lib R) (spec_of s))") auto
  let ?sc = "storage_class (spec_of s)"
  obtain w pv rv where pv: "run_state (ensurePV R ?sc q) s = (pv_verdict (Lib R) pv rv,
      s\<lparr>world := w, calls := calls s @ CallGetPV (sp_PvcName (spec_of s)) pv
         # pv_step (Lib R) (buildPV (sfsti s) ?sc q) pv rv\<rparr>)"
    using ensurePV_outcome [of R ?sc q s] by (elim exE) (rule that)
  let ?s1 = "s\<lparr>world := w, calls := calls s @ CallGetPV (sp_PvcName (spec_of s)) pv
         # pv_step (Lib R) (buildPV (sfsti s) ?sc q) pv rv\<rparr>"
  obtain w' pvc rc where pvc: "run_state (ensurePVC R ?sc q) ?s1 = (pvc_verdict (Lib R) pvc rc,
      ?s1\<lparr>world := w', calls := calls ?s1 @ CallGetPVC (pvc_key (sfsti ?s1)) pvc
         # pvc_step (Lib R) (buildPVC (sfsti ?s1) ?sc q) pvc rc\<rparr>)"
    using ensurePVC_outcome [of R ?sc q ?s1] by (elim exE) (rule that)
  show ?thesis
  proof (cases "pv_verdict (Lib R) pv rv")
    case None
    from pv_done [where cr = "sfsti s" and q = q, OF this, of pvc rc] run pv pvc None False q show ?thesis
      by (intro exI [of _ w'] exI [of _ "CallGetPV (sp_PvcName (spec_of s)) pv
            # pv_step (Lib R) (buildPV (sfsti s) ?sc q) pv rv
            @ CallGetPVC (pvc_key (sfsti s)) pvc # pvc_step (Lib R) (buildPVC (sfsti s) ?sc q) pvc rc"])
        (auto simp: ensurePVPVC_def Let_def)
  next
    case (Some e)
    from pv_failed [where cr = "sfsti s" and q = q, OF this] run pv Some False q show ?thesis
      by (intro exI [of _ w] exI [of _ "CallGetPV (sp_PvcName (spec_of s)) pv
            # pv_step (Lib R) (buildPV (sfsti s) ?sc q) pv rv"])
        (auto simp: ensurePVPVC_def Let_def)
  qed
qed

text \<open>
  C25. When \<open>ensurePVPVC\<close> succeeds for a CR that names a PVC, both objects are there: the
  PV was found or \<open>buildPV\<close>'s was created, and the PVC was found or \<open>buildPVC\<close>'s was
  created, with the capacity the (possibly defaulted) \<open>pvcSize\<close> parses to.
\<close>

theorem ensure_success_has_pair:
  assumes "run_state (ensurePVPVC R) s = (None, s')" and "sp_PvcName (spec_of s) \<noteq> []"
  shows "\<exists>cs q. calls s' = calls s @ cs \<and> sfsti s' = sfsti s
    \<and> ParseQuantity (Lib R) (pvc_size (Lib R) (spec_of s)) = Inr q
    \<and> ((\<exists>pv. CallGetPV (sp_PvcName (spec_of s)) (Inr pv) \<in> set cs)
        \<or> CallCreatePV (buildPV (sfsti s) (storage_class (spec_of s)) q) None \<in> set cs)
    \<and> ((\<exists>pvc. CallGetPVC (pvc_key (sfsti s)) (Inr pvc) \<in> set cs)
        \<or> CallCreatePVC (buildPVC (sfsti s) (storage_class (spec_of s)) q) None \<in> set cs)"
proof -
  from ensurePVPVC_outcome [OF assms(1)] assms(2) obtain w cs q
    where s': "s' = s\<lparr>world := w, calls := calls s @ cs\<rparr>"
      and q: "ParseQuantity (Lib R) (pvc_size (Lib R) (spec_of s)) = Inr q"
      and out: "ensure_outcome (Lib R) (sfsti s) q None cs"
    by (auto split: if_splits sum.splits)
  from out have "((\<exists>pv. CallGetPV (sp_PvcName (spec_of s)) (Inr pv) \<in> set cs)
        \<or> CallCreatePV (buildPV (sfsti s) (storage_class (spec_of s)) q) None \<in> set cs)
    \<and> ((\<exists>pvc. CallGetPVC (pvc_key (sfsti s)) (Inr pvc) \<in> set cs)
        \<or> CallCreatePVC (buildPVC (sfsti s) (storage_class (spec_of s)) q) None \<in> set cs)"
    by cases (auto simp: pv_verdict_def pvc_verdict_def pv_step_def pvc_step_def split: sum.splits if_splits)
  with s' q show ?thesis by (intro exI [of _ cs] exI [of _ q]) simp
qed

definition demo_mounted :: SfsTurboInstance where
  "demo_mounted = demo_tracked\<lparr>
     cr_Spec := demo_spec\<lparr>sp_PvcName := ''data-pvc''\<rparr>,
     cr_Status := demo_status\<lparr>st_FsId := ''fs-1'', st_ExportPath := ''10.0.0.5:/''\<rparr>\<rparr>"

lemmas volume_run_defs = run_defs volume_defs demo_defs demo_mounted_def

theorem ensure_success_has_pair_witness:
  "\<exists>q. CallCreatePV (buildPV demo_mounted defaultStorageClassName q) None
     \<in> set (calls (snd (run_state (ensurePVPVC (scripted demo_script)) (demo_pass demo_mounted))))"
proof -
  have run: "run_state (ensurePVPVC (scripted demo_script)) (demo_pass demo_mounted)
      = (None, snd (run_state (ensurePVPVC (scripted demo_script)) (demo_pass demo_mounted)))"
    and named: "sp_PvcName (spec_of (demo_pass demo_mounted)) \<noteq> []"
    by (simp_all add: volume_run_defs Let_def)
  have none: "CallGetPV n (Inr pv)
      \<notin> set (calls (snd (run_state (ensurePVPVC (scripted demo_script)) (demo_pass demo_mounted))))" for n pv
    by (simp add: volume_run_defs Let_def)
  show ?thesis
    using ensure_success_has_pair [OF run named] none
    by (auto simp: storage_class_def demo_defs demo_mounted_def)
qed

text \<open>
  What \<open>ensurePVPVC\<close> may do next for \<open>cr\<close> after the calls it made: look for the two objects of the PVC's name; create one
  under that name after it was not found; update the PV as it was found there.
\<close>

fun owned_change :: "Library \<Rightarrow> SfsTurboInstance \<Rightarrow> call list \<Rightarrow> call \<Rightarrow> bool" where
  "owned_change L cr before (CallGetPV n r) = (n = sp_PvcName (cr_Spec cr))"
| "owned_change L cr before (CallGetPVC k r) = (k = pvc_key cr)"
| "owned_change L cr before (CallCreatePV pv r) =
     (pv_Name pv = sp_PvcName (cr_Spec cr) \<and> (\<exists>e. CallGetPV (pv_Name pv) (Inl e) \<in> set before \<and> IsNotFound L e))"
| "owned_change L cr before (CallCreatePVC pvc r) =
     (\<lparr>nn_Namespace = pvc_Namespace pvc, nn_Name = pvc_Name pvc\<rparr> = pvc_key cr
        \<and> (\<exists>e. CallGetPVC (pvc_key cr) (Inl e) \<in> set before \<and> IsNotFound L e))"
| "owned_change L cr before (CallUpdatePV pv' r) =
     (\<exists>pv. CallGetPV (sp_PvcName (cr_Spec cr)) (Inr pv) \<in> set before \<and> pv' = pv\<lparr>pv_ClaimRef := None\<rparr>
        \<and> pv_Phase pv = VolumeReleased \<and> map_index (pv_Labels pv) managedByKey = managedByValue
        \<and> pv_ClaimRef pv \<noteq> None)"
| "owned_change L cr before _ = False"

text \<open>Every call of the list at its position.\<close>

definition each_at :: "(call list \<Rightarrow> call \<Rightarrow> bool) \<Rightarrow> call list \<Rightarrow> bool" where
  "each_at P cs \<longleftrightarrow> (\<forall>before c after. cs = before @ c # after \<longrightarrow> P before c)"

lemma each_at_Nil [simp]: "each_at P []"
  by (simp add: each_at_def)

lemma each_at_Cons [simp]: "each_at P (c # cs) \<longleftrightarrow> P [] c \<and> each_at (\<lambda>before. P (c # before)) cs"
  by (auto simp: each_at_def Cons_eq_append_conv)

lemma each_at_snoc: "each_at P (cs @ [c]) \<longleftrightarrow> each_at P cs \<and> P cs c"
  by (induction cs arbitrary: P) auto

lemma each_at_mono: "each_at P cs \<Longrightarrow> (\<And>before c. P before c \<Longrightarrow> Q before c) \<Longrightarrow> each_at Q cs"
  by (auto simp: each_at_def)

lemma ensure_outcome_owned: "ensure_outcome L cr q r cs \<Longrightarrow> each_at (owned_change L cr) cs"
  by (cases rule: ensure_outcome.cases, assumption)
    (auto simp: pv_step_def pvc_step_def stale_claim_def buildPV_def buildPVC_def split: sum.split)

lemma ensurePVPVC_calls:
  assumes "run_state (ensurePVPVC R) s = (r, s')"
  shows "\<exists>w cs. s' = s\<lparr>world := w, calls := calls s @ cs\<rparr>
    \<and> (cs = [] \<or> sp_PvcName (spec_of s) \<noteq> [] \<and> (\<exists>q. ensure_outcome (Lib R) (sfsti s) q r cs))"
proof -
  from ensurePVPVC_outcome [OF assms] obtain w cs
    where s': "s' = s\<lparr>world := w, calls := calls s @ cs\<rparr>"
      and c: "if sp_PvcName (spec_of s) = [] then cs = [] \<and> r = None
        else if st_FsId (status_of s) = [] \<or> st_ExportPath (status_of s) = [] then cs = [] \<and> r \<noteq> None
        else case ParseQuantity (Lib R) (pvc_size (Lib R) (spec_of s)) of
            Inl e \<Rightarrow> cs = [] \<and> r \<noteq> None
          | Inr q \<Rightarrow> ensure_outcome (Lib R) (sfsti s) q r cs"
    by (elim exE conjE) (rule that)
  from c have "cs = [] \<or> sp_PvcName (spec_of s) \<noteq> [] \<and> (\<exists>q. ensure_outcome (Lib R) (sfsti s) q r cs)"
    by (auto split: if_splits sum.splits)
  with s' show ?thesis by (intro exI [of _ w] exI [of _ cs]) simp
qed

text \<open>
  C26. \<open>ensurePVPVC\<close> looks at the PV and the PVC named by \<open>spec.pvcName\<close> and at nothing else, never deletes anything and never
  touches the Huawei API; it creates an object only under that name, and only after the API server said that no object of
  that name exists; and the only update it makes is to clear the claim reference of the PV that it found there, Released, with the
  operator's managed-by label and a claim reference, all other fields as they were.
\<close>

theorem ensure_touches_only_owned:
  assumes "run_state (ensurePVPVC R) s = (r, s')"
  shows "\<exists>cs. calls s' = calls s @ cs \<and> each_at (owned_change (Lib R) (sfsti s)) cs"
proof -
  from ensurePVPVC_calls [OF assms] obtain w cs
    where "s' = s\<lparr>world := w, calls := calls s @ cs\<rparr>"
      and "cs = [] \<or> sp_PvcName (spec_of s) \<noteq> [] \<and> (\<exists>q. ensure_outcome (Lib R) (sfsti s) q r cs)"
    by (elim exE conjE) (rule that)
  then show ?thesis by (auto dest: ensure_outcome_owned)
qed

theorem ensure_touches_only_owned_witness:
  "\<exists>cs q. calls (snd (run_state (ensurePVPVC (scripted demo_script)) (demo_pass demo_mounted))) = cs
     \<and> each_at (owned_change demo_library demo_mounted) cs \<and> CallCreatePV (buildPV demo_mounted defaultStorageClassName q) None \<in> set cs"
proof -
  have "\<exists>q. CallCreatePV (buildPV demo_mounted defaultStorageClassName q) None
      \<in> set (calls (snd (run_state (ensurePVPVC (scripted demo_script)) (demo_pass demo_mounted))))"
    by (simp add: volume_run_defs Let_def storage_class_def) (rule exI, rule refl)
  then show ?thesis
    using ensure_touches_only_owned [of "scripted demo_script" "demo_pass demo_mounted" _
        "snd (run_state (ensurePVPVC (scripted demo_script)) (demo_pass demo_mounted))", OF prod.collapse [symmetric]]
    by (simp add: demo_pass_def scripted_def)
qed

section \<open>Properties of the cascade\<close>

definition pvc_delete_step :: "err + PersistentVolumeClaim \<Rightarrow> err option \<Rightarrow> call list" where
  "pvc_delete_step found d = (case found of
       Inl e \<Rightarrow> []
     | Inr pvc \<Rightarrow> if timestamp_IsZero (pvc_DeletionTimestamp pvc) then [CallDeletePVC pvc d] else [])"

definition pv_delete_step :: "err + PersistentVolume \<Rightarrow> err option \<Rightarrow> call list" where
  "pv_delete_step found d = (case found of
       Inl e \<Rightarrow> []
     | Inr pv \<Rightarrow> if timestamp_IsZero (pv_DeletionTimestamp pv) then [CallDeletePV pv d] else [])"

definition delete_verdict :: "Library \<Rightarrow> err + 'o \<Rightarrow> ('o \<Rightarrow> gtime option) \<Rightarrow> err option \<Rightarrow> err option" where
  "delete_verdict L found ts d = (case found of
       Inl e \<Rightarrow> if IsNotFound L e then None else Some e
     | Inr x \<Rightarrow> if timestamp_IsZero (ts x) then tolerate_missing L d else None)"

lemma cascadeDeletePVC_outcome:
  "\<exists>w found d. run_state (cascadeDeletePVC R) s =
     (delete_verdict (Lib R) found pvc_DeletionTimestamp d,
      s\<lparr>world := w, calls := calls s @ CallGetPVC (pvc_key (sfsti s)) found # pvc_delete_step found d\<rparr>)"
proof -
  obtain found w where f: "kGetPVC (Client R) (pvc_key (sfsti s)) (world s) = (found, w)" by fastforce
  obtain d w' where "kDeletePVC (Client R) (projr found) w = (d, w')" by fastforce
  with f show ?thesis
    by (intro exI [of _ "case found of Inl e \<Rightarrow> w | Inr pvc \<Rightarrow>
          if timestamp_IsZero (pvc_DeletionTimestamp pvc) then w' else w"] exI [of _ found] exI [of _ d])
      (auto simp: cascadeDeletePVC_def Let_def invoke_def delete_verdict_def pvc_delete_step_def split: sum.split)
qed

lemma cascadeDeletePV_outcome:
  "\<exists>w found d. run_state (cascadeDeletePV R) s =
     (delete_verdict (Lib R) found pv_DeletionTimestamp d,
      s\<lparr>world := w, calls := calls s @ CallGetPV (sp_PvcName (spec_of s)) found # pv_delete_step found d\<rparr>)"
proof -
  obtain found w where f: "kGetPV (Client R) (sp_PvcName (spec_of s)) (world s) = (found, w)" by fastforce
  obtain d w' where "kDeletePV (Client R) (projr found) w = (d, w')" by fastforce
  with f show ?thesis
    by (intro exI [of _ "case found of Inl e \<Rightarrow> w | Inr pv \<Rightarrow>
          if timestamp_IsZero (pv_DeletionTimestamp pv) then w' else w"] exI [of _ found] exI [of _ d])
      (auto simp: cascadeDeletePV_def Let_def invoke_def delete_verdict_def pv_delete_step_def split: sum.split)
qed

inductive cascade_outcome :: "Library \<Rightarrow> SfsTurboInstance \<Rightarrow> err option \<Rightarrow> call list \<Rightarrow> bool" for L cr where
  pvc_stuck: "delete_verdict L pvc pvc_DeletionTimestamp dc = Some e \<Longrightarrow>
     cascade_outcome L cr (Some e) (CallGetPVC (pvc_key cr) pvc # pvc_delete_step pvc dc)"
| pvc_gone: "delete_verdict L pvc pvc_DeletionTimestamp dc = None \<Longrightarrow>
     cascade_outcome L cr (delete_verdict L pv pv_DeletionTimestamp dv)
       (CallGetPVC (pvc_key cr) pvc # pvc_delete_step pvc dc
        @ CallGetPV (sp_PvcName (cr_Spec cr)) pv # pv_delete_step pv dv)"

lemma cascadeDeletePVPVC_outcome:
  assumes run: "run_state (cascadeDeletePVPVC R) s = (r, s')"
  shows "\<exists>w cs. s' = s\<lparr>world := w, calls := calls s @ cs\<rparr> \<and> cascade_outcome (Lib R) (sfsti s) r cs"
proof -
  obtain w pvc dc where pvc: "run_state (cascadeDeletePVC R) s =
     (delete_verdict (Lib R) pvc pvc_DeletionTimestamp dc,
      s\<lparr>world := w, calls := calls s @ CallGetPVC (pvc_key (sfsti s)) pvc # pvc_delete_step pvc dc\<rparr>)"
    using cascadeDeletePVC_outcome [of R s] by (elim exE) (rule that)
  let ?s1 = "s\<lparr>world := w, calls := calls s @ CallGetPVC (pvc_key (sfsti s)) pvc # pvc_delete_step pvc dc\<rparr>"
  obtain w' pv dv where pv: "run_state (cascadeDeletePV R) ?s1 =
     (delete_verdict (Lib R) pv pv_DeletionTimestamp dv,
      ?s1\<lparr>world := w', calls := calls ?s1 @ CallGetPV (sp_PvcName (spec_of ?s1)) pv # pv_delete_step pv dv\<rparr>)"
    using cascadeDeletePV_outcome [of R ?s1] by (elim exE) (rule that)
  show ?thesis
  proof (cases "delete_verdict (Lib R) pvc pvc_DeletionTimestamp dc")
    case None
    from pvc_gone [where cr = "sfsti s", OF this, of pv dv] run pvc pv None show ?thesis
      by (intro exI [of _ w'] exI [of _ "CallGetPVC (pvc_key (sfsti s)) pvc # pvc_delete_step pvc dc
            @ CallGetPV (sp_PvcName (spec_of s)) pv # pv_delete_step pv dv"])
        (auto simp: cascadeDeletePVPVC_def)
  next
    case (Some e)
    from pvc_stuck [where cr = "sfsti s", OF this] run pvc Some show ?thesis
      by (intro exI [of _ w] exI [of _ "CallGetPVC (pvc_key (sfsti s)) pvc # pvc_delete_step pvc dc"])
        (auto simp: cascadeDeletePVPVC_def)
  qed
qed

definition pvc_settled :: "Library \<Rightarrow> SfsTurboInstance \<Rightarrow> call list \<Rightarrow> bool" where
  "pvc_settled L cr cs \<longleftrightarrow>
     (\<exists>e. CallGetPVC (pvc_key cr) (Inl e) \<in> set cs \<and> IsNotFound L e)
   \<or> (\<exists>pvc. CallGetPVC (pvc_key cr) (Inr pvc) \<in> set cs \<and>
        (\<not> timestamp_IsZero (pvc_DeletionTimestamp pvc)
         \<or> CallDeletePVC pvc None \<in> set cs \<or> (\<exists>e. CallDeletePVC pvc (Some e) \<in> set cs \<and> IsNotFound L e)))"

definition pv_settled :: "Library \<Rightarrow> SfsTurboInstance \<Rightarrow> call list \<Rightarrow> bool" where
  "pv_settled L cr cs \<longleftrightarrow>
     (\<exists>e. CallGetPV (sp_PvcName (cr_Spec cr)) (Inl e) \<in> set cs \<and> IsNotFound L e)
   \<or> (\<exists>pv. CallGetPV (sp_PvcName (cr_Spec cr)) (Inr pv) \<in> set cs \<and>
        (\<not> timestamp_IsZero (pv_DeletionTimestamp pv)
         \<or> CallDeletePV pv None \<in> set cs \<or> (\<exists>e. CallDeletePV pv (Some e) \<in> set cs \<and> IsNotFound L e)))"

lemma pvc_settled_step:
  "delete_verdict L pvc pvc_DeletionTimestamp dc = None \<Longrightarrow>
   pvc_settled L cr (CallGetPVC (pvc_key cr) pvc # pvc_delete_step pvc dc)"
  by (auto simp: delete_verdict_def pvc_delete_step_def pvc_settled_def tolerate_missing_def
      split: sum.splits option.splits if_splits)

lemma pv_settled_step:
  "delete_verdict L pv pv_DeletionTimestamp dv = None \<Longrightarrow>
   pv_settled L cr (CallGetPV (sp_PvcName (cr_Spec cr)) pv # pv_delete_step pv dv)"
  by (auto simp: delete_verdict_def pv_delete_step_def pv_settled_def tolerate_missing_def
      split: sum.splits option.splits if_splits)

text \<open>
  C38. The cascade deletes the PVC before the PV and stops if the PVC could not be dealt
  with. When it succeeds each of the two was absent, was already terminating, or had a
  \<open>Delete\<close> issued that was accepted or met an object that was gone meanwhile.
\<close>

theorem cascade_order:
  assumes "run_state (cascadeDeletePVPVC R) s = (r, s')"
  shows "\<exists>before after. calls s' = calls s @ before @ after \<and> sfsti s' = sfsti s
    \<and> (\<forall>pv d. CallDeletePV pv d \<notin> set before)
    \<and> (if after = [] then r \<noteq> None else pvc_settled (Lib R) (sfsti s) before)
    \<and> (if r = None then pv_settled (Lib R) (sfsti s) after else True)"
proof -
  from cascadeDeletePVPVC_outcome [OF assms] obtain w cs
    where s': "s' = s\<lparr>world := w, calls := calls s @ cs\<rparr>"
      and out: "cascade_outcome (Lib R) (sfsti s) r cs" by auto
  from out show ?thesis
  proof cases
    case (pvc_stuck pvc dc e)
    then show ?thesis
      by (intro exI [of _ cs] exI [of _ "[]"]) (auto simp: s' pvc_delete_step_def split: sum.split)
  next
    case (pvc_gone pvc dc pv dv)
    let ?before = "CallGetPVC (pvc_key (sfsti s)) pvc # pvc_delete_step pvc dc"
    have "\<forall>x d. CallDeletePV x d \<notin> set ?before"
      by (auto simp: pvc_delete_step_def split: sum.split)
    with pvc_settled_step [OF pvc_gone(3)] pvc_gone(1,2) pv_settled_step show ?thesis
      by (intro exI [of _ ?before] exI [of _ "CallGetPV (sp_PvcName (spec_of s)) pv # pv_delete_step pv dv"])
        (auto simp: s')
  qed
qed

definition foreign_pv :: PersistentVolume where
  "foreign_pv = (buildPV demo_mounted [] (Quantity []))
     \<lparr>pv_Labels := [(managedByKey, ''someone-else'')], pv_Phase := ''Bound''\<rparr>"

theorem cascade_order_witness:
  "\<exists>before after. calls (snd (run_state (cascadeDeletePVPVC (scripted (demo_script\<lparr>a_pv := Inr foreign_pv\<rparr>)))
       (demo_pass demo_mounted))) = before @ after \<and> pvc_settled demo_library demo_mounted before"
proof -
  define R where "R = scripted (demo_script\<lparr>a_pv := Inr foreign_pv\<rparr>)"
  have run: "run_state (cascadeDeletePVPVC R) (demo_pass demo_mounted) =
      (None, snd (run_state (cascadeDeletePVPVC R) (demo_pass demo_mounted)))"
    by (simp add: R_def volume_run_defs foreign_pv_def buildPV_def timestamp_IsZero_def tolerate_missing_def Let_def)
  have lib: "Lib R = demo_library" by (simp add: R_def scripted_def)
  show ?thesis
    using cascade_order [OF run] unfolding R_def [symmetric] lib
    by (auto simp: demo_pass_def split: if_splits)
qed

text \<open>
  C27. The cascade does not look at ownership: whatever labels the PV of that name
  carries, if it is not yet terminating and the PVC step went through, its deletion is
  issued. (\<open>ensurePVPVC\<close> touches a PV only with the managed-by label, and PVs are
  cluster-scoped, so the name may belong to another team's volume.)
\<close>

theorem cascade_ignores_owner:
  assumes "run_state (cascadeDeletePVPVC R) s = (r, s')" and "calls s = []"
    and "CallGetPV (sp_PvcName (spec_of s)) (Inr pv) \<in> set (calls s')"
    and "pv_DeletionTimestamp pv = None"
  shows "\<exists>d. CallDeletePV pv d \<in> set (calls s')"
proof -
  from cascadeDeletePVPVC_outcome [OF assms(1)] assms(2) obtain cs
    where cs: "calls s' = cs" and out: "cascade_outcome (Lib R) (sfsti s) r cs" by auto
  from out show ?thesis using assms(3,4) unfolding cs
    by cases (auto simp: pvc_delete_step_def pv_delete_step_def timestamp_IsZero_def split: sum.splits if_splits)
qed

theorem cascade_ignores_owner_witness:
  "map_index (pv_Labels foreign_pv) managedByKey = ''someone-else'' \<and>
   (\<exists>d. CallDeletePV foreign_pv d \<in> set (calls (snd (run_state
      (cascadeDeletePVPVC (scripted (demo_script\<lparr>a_pv := Inr foreign_pv\<rparr>))) (demo_pass demo_mounted)))))"
proof -
  define R where "R = scripted (demo_script\<lparr>a_pv := Inr foreign_pv\<rparr>)"
  have mem: "CallGetPV (sp_PvcName (spec_of (demo_pass demo_mounted))) (Inr foreign_pv)
      \<in> set (calls (snd (run_state (cascadeDeletePVPVC R) (demo_pass demo_mounted))))"
    and ts: "pv_DeletionTimestamp foreign_pv = None" and empty: "calls (demo_pass demo_mounted) = []"
    by (simp_all add: R_def volume_run_defs foreign_pv_def buildPV_def timestamp_IsZero_def Let_def)
  show ?thesis
    using cascade_ignores_owner [OF prod.collapse [symmetric] empty mem ts] unfolding R_def [symmetric]
    by (simp add: foreign_pv_def map_index_def)
qed

end
