(* ===== verification/Handlers.thy ===== *)
theory Handlers
  imports Tags Volumes
begin

text \<open>
  The reconciler's handlers: \<open>reconcileDelete\<close>, \<open>reconcileCreate\<close>, \<open>reconcilePoll\<close> and
  \<open>immutableDrift\<close> (internal/controller/sfsturboinstance_controller.go).
\<close>

section \<open>Requeue intervals and message texts\<close>

definition requeueProvisioning :: int where "requeueProvisioning = 30 * second"
definition requeueDeleting :: int where "requeueDeleting = 10 * second"

definition intStr :: "int32 \<Rightarrow> string" where
  "intStr n = format_d (sint n)"

section \<open>Recurring shapes\<close>

text \<open>
  An error of the Huawei API is recorded in a condition and the status is written back;
  a failure of that write is only logged; the error is returned.
\<close>

definition report_failure ::
  "'w Reconciler \<Rightarrow> string \<Rightarrow> string \<Rightarrow> string \<Rightarrow> err \<Rightarrow> ('w, outcome) rec" where
  "report_failure R t status reason e = do {
     setCondition R t status reason (error_text e);
     _ \<leftarrow> patchStatus R;
     State_Monad.return (no_requeue, Some e)
   }"

text \<open>\<open>if err := r.patchStatus(ctx, sfsti); err != nil { return ctrl.Result{}, err }\<close>\<close>

definition patch_then :: "'w Reconciler \<Rightarrow> ('w, outcome) rec \<Rightarrow> ('w, outcome) rec" where
  "patch_then R k = do {
     e \<leftarrow> patchStatus R;
     (case e of Some x \<Rightarrow> State_Monad.return (no_requeue, Some x) | None \<Rightarrow> k)
   }"

section \<open>reconcileDelete\<close>

definition delete_share :: "'w Reconciler \<Rightarrow> ('w, outcome) rec" where
  "delete_share R = do {
     cr \<leftarrow> gets sfsti;
     d \<leftarrow> invoke (Delete (Huawei R) (st_FsId (cr_Status cr))) (CallDelete (st_FsId (cr_Status cr)));
     (case d of
       Some e \<Rightarrow> report_failure R ConditionFailed ConditionTrue ReasonFsDeleteFailed e
     | None \<Rightarrow> do {
         setCondition R ConditionDeleting ConditionTrue ReasonFsDeletePending
           ''DeleteShare accepted; polling for removal'';
         setCondition R ConditionReady ConditionFalse ReasonFsDeletePending
           ''FS deletion in progress'';
         patch_then R (State_Monad.return (\<lparr>RequeueAfter = requeueDeleting\<rparr>, None))
       })
   }"

definition delete_live :: "'w Reconciler \<Rightarrow> ('w, outcome) rec" where
  "delete_live R = do {
     cr \<leftarrow> gets sfsti;
     (if \<not> hasConditionTrue cr ConditionDeleting then do {
        _ \<leftarrow> (if sp_PvcName (cr_Spec cr) \<noteq> [] then cascadeDeletePVPVC R else State_Monad.return None);
        delete_share R
      }
      else State_Monad.return (\<lparr>RequeueAfter = requeueDeleting\<rparr>, None))
   }"

definition reconcileDelete :: "'w Reconciler \<Rightarrow> ('w, outcome) rec" where
  "reconcileDelete R = do {
     cr \<leftarrow> gets sfsti;
     (if \<not> ContainsFinalizer (Lib R) (cr_Finalizers cr) Finalizer then
        State_Monad.return (no_requeue, None)
      else if st_FsId (cr_Status cr) = [] then removeFinalizer R
      else if sp_ReclaimPolicy (cr_Spec cr) \<noteq> ReclaimPolicyDelete then do {
        setCondition R ConditionDeleting ConditionFalse ReasonRetainPolicyApplied
          ''reclaimPolicy=Retain; FS preserved'';
        patch_then R (removeFinalizer R)
      }
      else do {
        r \<leftarrow> invoke (Get (Huawei R) (st_FsId (cr_Status cr))) (CallGet (st_FsId (cr_Status cr)));
        (case r of
          Inl e \<Rightarrow>
            if is_ErrFsNotFound e then do {
              setCondition R ConditionDeleting ConditionFalse ReasonFsDeleted
                ''FS not found upstream; treated as deleted'';
              patch_then R (removeFinalizer R)
            }
            else report_failure R ConditionFailed ConditionTrue ReasonHuaweiAPIError e
        | Inr info \<Rightarrow> delete_live R)
      })
   }"

section \<open>reconcileCreate\<close>

definition create_input :: "SfsTurboInstanceSpec \<Rightarrow> CreateInput" where
  "create_input sp = \<lparr>
     in_Name = sp_FsName sp,
     in_Size = sp_Size sp,
     in_ShareType = sp_ShareType sp,
     in_ShareProto = sp_ShareProtocol sp,
     in_AvailabilityZone = sp_AvailabilityZone sp,
     in_VpcId = sp_VpcId sp,
     in_SubnetId = sp_SubnetId sp,
     in_SecurityGroupId = sp_SecurityGroupId sp,
     in_CryptKeyId = sp_CryptKeyId sp,
     in_AutoCreateSgRules = sp_AutoCreateSgRules sp,
     in_Tags = sp_Tags sp\<rparr>"

definition reconcileCreate :: "'w Reconciler \<Rightarrow> ('w, outcome) rec" where
  "reconcileCreate R = do {
     cr \<leftarrow> gets sfsti;
     r \<leftarrow> invoke (Create (Huawei R) (create_input (cr_Spec cr))) (CallCreate (create_input (cr_Spec cr)));
     (case r of
       Inl e \<Rightarrow> report_failure R ConditionFailed ConditionTrue ReasonFsCreateFailed e
     | Inr fsId \<Rightarrow> do {
         set_status (\<lambda>st. st\<lparr>st_FsId := fsId, st_ObservedGeneration := cr_Generation cr\<rparr>);
         setCondition R ConditionProvisioning ConditionTrue ReasonFsCreatePending
           ''CreateShare accepted; polling for ready'';
         setCondition R ConditionFailed ConditionFalse ReasonFsCreatePending ''previous error cleared'';
         patch_then R (State_Monad.return (\<lparr>RequeueAfter = requeueProvisioning\<rparr>, None))
       })
   }"

section \<open>reconcilePoll\<close>

definition immutableDrift :: "SfsTurboInstanceSpec \<Rightarrow> ShareInfo \<Rightarrow> string" where
  "immutableDrift sp info =
     (if si_ShareType info \<noteq> [] \<and> sp_ShareType sp \<noteq> [] \<and> sp_ShareType sp \<noteq> si_ShareType info
        then ''shareType''
      else if si_AvailabilityZone info \<noteq> [] \<and> sp_AvailabilityZone sp \<noteq> si_AvailabilityZone info
        then ''availabilityZone''
      else if si_VpcId info \<noteq> [] \<and> sp_VpcId sp \<noteq> si_VpcId info then ''vpcId''
      else if si_SubnetId info \<noteq> [] \<and> sp_SubnetId sp \<noteq> si_SubnetId info then ''subnetId''
      else if sp_CryptKeyId sp \<noteq> si_CryptKeyId info then ''cryptKeyId''
      else [])"

text \<open>
  The resize part of the available branch. \<open>Some\<close> is an early return of the handler,
  \<open>None\<close> means that it goes on.
\<close>

definition poll_grow :: "'w Reconciler \<Rightarrow> ShareInfo \<Rightarrow> ('w, outcome) rec" where
  "poll_grow R info = do {
     cr \<leftarrow> gets sfsti;
     (if \<not> hasConditionTrue cr ConditionExpanding then do {
        e \<leftarrow> invoke (Expand (Huawei R) (st_FsId (cr_Status cr)) (sp_Size (cr_Spec cr)))
          (CallExpand (st_FsId (cr_Status cr)) (sp_Size (cr_Spec cr)));
        (case e of
          Some x \<Rightarrow> report_failure R ConditionFailed ConditionTrue ReasonHuaweiAPIError x
        | None \<Rightarrow> do {
            setCondition R ConditionExpanding ConditionTrue ReasonFsExpandPending
              (''ExpandShare accepted; growing from '' @ intStr (si_Size info) @ '' GiB to ''
                @ intStr (sp_Size (cr_Spec cr)) @ '' GiB'');
            patch_then R (State_Monad.return (\<lparr>RequeueAfter = requeueProvisioning\<rparr>, None))
          })
      }
      else patch_then R (State_Monad.return (\<lparr>RequeueAfter = requeueProvisioning\<rparr>, None)))
   }"

definition poll_resize :: "'w Reconciler \<Rightarrow> ShareInfo \<Rightarrow> ('w, outcome option) rec" where
  "poll_resize R info = do {
     cr \<leftarrow> gets sfsti;
     (if 0 < sint (si_Size info) then
        if sint (si_Size info) < sint (sp_Size (cr_Spec cr)) then do {
          r \<leftarrow> poll_grow R info;
          State_Monad.return (Some r)
        }
        else if sint (sp_Size (cr_Spec cr)) < sint (si_Size info) then do {
          setCondition R ConditionFailed ConditionTrue ReasonShrinkRefused
            (''SFS Turbo doesn't support shrinking; spec.size='' @ intStr (sp_Size (cr_Spec cr))
              @ '' < status.size='' @ intStr (si_Size info) @ ''. Recreate the slot if you need a smaller FS.'');
          State_Monad.return None
        }
        else if hasConditionTrue cr ConditionExpanding then do {
          setCondition R ConditionExpanding ConditionFalse ReasonFsExpanded
            (''FS now '' @ intStr (si_Size info) @ '' GiB'');
          State_Monad.return None
        }
        else State_Monad.return None
      else State_Monad.return None)
   }"

text \<open>Part (a): drift of an immutable field is reported, the handler goes on.\<close>

definition poll_immutable :: "'w Reconciler \<Rightarrow> ShareInfo \<Rightarrow> ('w, unit) rec" where
  "poll_immutable R info = do {
     cr \<leftarrow> gets sfsti;
     (let drifted = immutableDrift (cr_Spec cr) info in
      if drifted \<noteq> [] then
        setCondition R ConditionFailed ConditionTrue ReasonImmutableFieldChanged
          (''spec field '' @ drifted @ '' cannot be changed on a live FS; delete + recreate the CR to take effect'')
      else State_Monad.return ())
   }"

text \<open>Part (b): security-group drift, which returns early, or the end of a change.\<close>

definition poll_sg_drift :: "'w Reconciler \<Rightarrow> ShareInfo \<Rightarrow> ('w, outcome) rec" where
  "poll_sg_drift R info = do {
     cr \<leftarrow> gets sfsti;
     failed \<leftarrow>
       (if IsSgChangeInFlight (si_SubStatus info) then do {
          setCondition R ConditionUpdatingSecurityGroup ConditionTrue ReasonSgUpdatePending
            (''ChangeSecurityGroup in flight (subStatus='' @ si_SubStatus info @ '')'');
          State_Monad.return None
        }
        else do {
          e \<leftarrow> invoke (ChangeSecurityGroup (Huawei R) (st_FsId (cr_Status cr)) (sp_SecurityGroupId (cr_Spec cr)))
            (CallChangeSecurityGroup (st_FsId (cr_Status cr)) (sp_SecurityGroupId (cr_Spec cr)));
          (case e of
            Some x \<Rightarrow> do {
              r \<leftarrow> report_failure R ConditionUpdatingSecurityGroup ConditionFalse ReasonSgUpdateFailed x;
              State_Monad.return (Some r)
            }
          | None \<Rightarrow> do {
              setCondition R ConditionUpdatingSecurityGroup ConditionTrue ReasonSgUpdatePending
                (''ChangeSecurityGroup accepted; switching to '' @ sp_SecurityGroupId (cr_Spec cr));
              State_Monad.return None
            })
        });
     (case failed of
       Some r \<Rightarrow> State_Monad.return r
     | None \<Rightarrow> do {
         set_status (\<lambda>st. st\<lparr>st_SecurityGroupId := si_SecurityGroupId info\<rparr>);
         patch_then R (State_Monad.return (\<lparr>RequeueAfter = requeueProvisioning\<rparr>, None))
       })
   }"

definition poll_sg_settled :: "'w Reconciler \<Rightarrow> ShareInfo \<Rightarrow> ('w, unit) rec" where
  "poll_sg_settled R info = do {
     set_status (\<lambda>st. st\<lparr>st_SecurityGroupId := si_SecurityGroupId info\<rparr>);
     cr \<leftarrow> gets sfsti;
     (if hasConditionTrue cr ConditionUpdatingSecurityGroup then
        setCondition R ConditionUpdatingSecurityGroup ConditionFalse ReasonSgUpdated
          (''FS now uses SG '' @ si_SecurityGroupId info)
      else State_Monad.return ())
   }"

text \<open>Part (c): the tags; a failure is surfaced in the condition and does not stop the pass.\<close>

definition poll_tags :: "'w Reconciler \<Rightarrow> ShareInfo \<Rightarrow> ('w, unit) rec" where
  "poll_tags R info =
     (if \<not> IsSgChangeInFlight (si_SubStatus info) then do {
        e \<leftarrow> reconcileTagsDrift R;
        (case e of
          Some x \<Rightarrow> setCondition R ConditionFailed ConditionTrue ReasonHuaweiAPIError
            (''tag reconcile: '' @ error_text x)
        | None \<Rightarrow> State_Monad.return ())
      }
      else State_Monad.return ())"

definition poll_finish :: "'w Reconciler \<Rightarrow> ('w, outcome) rec" where
  "poll_finish R = patch_then R (do {
     e \<leftarrow> ensurePVPVC R;
     (case e of
       Some x \<Rightarrow> State_Monad.return (\<lparr>RequeueAfter = requeueProvisioning\<rparr>, Some x)
     | None \<Rightarrow> State_Monad.return (no_requeue, None))
   })"

text \<open>The drift parts (a), (b), (c) and the end of the available branch.\<close>

definition poll_drift :: "'w Reconciler \<Rightarrow> ShareInfo \<Rightarrow> ('w, outcome) rec" where
  "poll_drift R info = do {
     poll_immutable R info;
     cr \<leftarrow> gets sfsti;
     (if sp_SecurityGroupId (cr_Spec cr) \<noteq> []
         \<and> sp_SecurityGroupId (cr_Spec cr) \<noteq> si_SecurityGroupId info
      then poll_sg_drift R info
      else do {
        poll_sg_settled R info;
        poll_tags R info;
        poll_finish R
      })
   }"

text \<open>What the available branch records first, whatever the drift.\<close>

definition poll_record :: "'w Reconciler \<Rightarrow> ShareInfo \<Rightarrow> ('w, unit) rec" where
  "poll_record R info = do {
     update_sfsti (\<lambda>cr. cr\<lparr>cr_Status := (cr_Status cr)\<lparr>
       st_ExportPath := si_ExportLocation info, st_Size := si_Size info,
       st_ObservedGeneration := cr_Generation cr\<rparr>\<rparr>);
     setCondition R ConditionReady ConditionTrue ReasonFsCreated (''FS available at '' @ si_ExportLocation info);
     setCondition R ConditionProvisioning ConditionFalse ReasonFsCreated ''create complete'';
     setCondition R ConditionFailed ConditionFalse ReasonFsCreated []
   }"

definition poll_available :: "'w Reconciler \<Rightarrow> ShareInfo \<Rightarrow> ('w, outcome) rec" where
  "poll_available R info = do {
     poll_record R info;
     resized \<leftarrow> poll_resize R info;
     (case resized of
       Some r \<Rightarrow> State_Monad.return r
     | None \<Rightarrow> poll_drift R info)
   }"

definition poll_missing :: "'w Reconciler \<Rightarrow> ('w, outcome) rec" where
  "poll_missing R = do {
     set_status (\<lambda>st. st\<lparr>st_FsId := [], st_ExportPath := []\<rparr>);
     setCondition R ConditionReady ConditionFalse ReasonHuaweiAPIError ''FS not found upstream; will recreate'';
     e \<leftarrow> patchStatus R;
     State_Monad.return (\<lparr>RequeueAfter = 1\<rparr>, e)
   }"

definition poll_errored :: "'w Reconciler \<Rightarrow> ShareInfo \<Rightarrow> ('w, outcome) rec" where
  "poll_errored R info = do {
     setCondition R ConditionFailed ConditionTrue ReasonFsCreateFailed
       (''Huawei reports share status='' @ si_Status info);
     setCondition R ConditionProvisioning ConditionFalse ReasonFsCreateFailed [];
     e \<leftarrow> patchStatus R;
     State_Monad.return (no_requeue, e)
   }"

definition reconcilePoll :: "'w Reconciler \<Rightarrow> ('w, outcome) rec" where
  "reconcilePoll R = do {
     cr \<leftarrow> gets sfsti;
     r \<leftarrow> invoke (Get (Huawei R) (st_FsId (cr_Status cr))) (CallGet (st_FsId (cr_Status cr)));
     (case r of
       Inl e \<Rightarrow>
         if is_ErrFsNotFound e then poll_missing R
         else report_failure R ConditionFailed ConditionTrue ReasonHuaweiAPIError e
     | Inr info \<Rightarrow>
         if IsAvailable (si_Status info) then poll_available R info
         else if IsErrored (si_Status info) then poll_errored R info
         else State_Monad.return (\<lparr>RequeueAfter = requeueProvisioning\<rparr>, None))
   }"

section \<open>Reconcile\<close>

definition reconcile_body :: "'w Reconciler \<Rightarrow> NamespacedName \<Rightarrow> ('w, outcome) rec" where
  "reconcile_body R req = do {
     r \<leftarrow> invoke (kGetCR (Client R) req) (CallGetCR req);
     (case r of
       Inl e \<Rightarrow>
         if IsNotFound (Lib R) e then State_Monad.return (no_requeue, None)
         else State_Monad.return (no_requeue, Some e)
     | Inr cr \<Rightarrow> do {
         update_sfsti (\<lambda>_. cr);
         (if \<not> timestamp_IsZero (cr_DeletionTimestamp cr) then reconcileDelete R
          else if \<not> ContainsFinalizer (Lib R) (cr_Finalizers cr) Finalizer then do {
            update_sfsti (\<lambda>cr. cr\<lparr>cr_Finalizers := AddFinalizer (Lib R) (cr_Finalizers cr) Finalizer\<rparr>);
            cr' \<leftarrow> gets sfsti;
            u \<leftarrow> invoke (kUpdateCR (Client R) cr') (CallUpdateCR cr');
            (case u of
              Inl e \<Rightarrow> State_Monad.return (no_requeue, Some e)
            | Inr cr'' \<Rightarrow> do {
                update_sfsti (\<lambda>_. cr'');
                State_Monad.return (\<lparr>RequeueAfter = 1\<rparr>, None)
              })
          }
          else if sp_PausedReconcile (cr_Spec cr) then do {
            setCondition R ConditionProvisioning ConditionFalse ReasonReconcilePaused ''spec.pausedReconcile=true'';
            e \<leftarrow> patchStatus R;
            State_Monad.return (no_requeue, e)
          }
          else if st_FsId (cr_Status cr) = [] then reconcileCreate R
          else reconcilePoll R)
       })
   }"

text \<open>The label of the deferred outcome metric.\<close>

definition outcome_label :: "outcome \<Rightarrow> string" where
  "outcome_label r = (if snd r \<noteq> None then ''error_transient''
     else if 0 < RequeueAfter (fst r) then ''requeued'' else ''success'')"

definition Reconcile :: "'w Reconciler \<Rightarrow> NamespacedName \<Rightarrow> ('w, outcome) rec" where
  "Reconcile R req = do {
     r \<leftarrow> reconcile_body R req;
     modify (\<lambda>s. s\<lparr>calls := calls s @ [MetricReconcileTotal (nn_Namespace req) (outcome_label r)]\<rparr>);
     State_Monad.return r
   }"

end
