(* ===== verification/Safety.thy ===== *)
theory Safety
  imports Handlers
begin

text \<open>
  What a reconcile pass may ask of the outside. The guards of the code are collected into
  one predicate, \<open>authorised\<close>: given the custom resource the pass read and the calls
  made so far with their answers, it says which call may come next. The theorem of this
  theory is that every call of every pass is authorised, whatever the environment
  answers.
\<close>

section \<open>Authorised calls\<close>

definition deleting :: "SfsTurboInstance \<Rightarrow> bool" where
  "deleting cr \<longleftrightarrow> \<not> timestamp_IsZero (cr_DeletionTimestamp cr)"

definition protected :: "Library \<Rightarrow> SfsTurboInstance \<Rightarrow> bool" where
  "protected L cr \<longleftrightarrow> ContainsFinalizer L (cr_Finalizers cr) Finalizer"

text \<open>The CR is in the create/poll branches: not being deleted, protected, not paused.\<close>

definition active :: "Library \<Rightarrow> SfsTurboInstance \<Rightarrow> bool" where
  "active L cr \<longleftrightarrow> \<not> deleting cr \<and> protected L cr \<and> \<not> sp_PausedReconcile (cr_Spec cr)"

text \<open>The CR is in the branch that tears the file system down.\<close>

definition tearing_down :: "Library \<Rightarrow> SfsTurboInstance \<Rightarrow> bool" where
  "tearing_down L cr \<longleftrightarrow> deleting cr \<and> protected L cr \<and> st_FsId (cr_Status cr) \<noteq> []
     \<and> sp_ReclaimPolicy (cr_Spec cr) = ReclaimPolicyDelete"

text \<open>The file system was reported available in this pass, with this information.\<close>

definition seen_available :: "SfsTurboInstance \<Rightarrow> call list \<Rightarrow> ShareInfo \<Rightarrow> bool" where
  "seen_available cr before info \<longleftrightarrow>
     CallGet (st_FsId (cr_Status cr)) (Inr info) \<in> set before \<and> IsAvailable (si_Status info)"

definition tracked_by :: "Library \<Rightarrow> SfsTurboInstance \<Rightarrow> string \<Rightarrow> bool" where
  "tracked_by L cr fsId \<longleftrightarrow> active L cr \<and> fsId = st_FsId (cr_Status cr) \<and> fsId \<noteq> []"

text \<open>The object in memory after these calls: the CR that was read, or what the API server answered to the last status write.\<close>

fun answer_of :: "call \<Rightarrow> SfsTurboInstance \<Rightarrow> SfsTurboInstance" where
  "answer_of (CallStatusUpdate y (Inr z)) x = z"
| "answer_of _ x = x"

definition in_hand :: "SfsTurboInstance \<Rightarrow> call list \<Rightarrow> SfsTurboInstance" where
  "in_hand cr cs = fold answer_of cs cr"

lemma in_hand_simps [simp]:
  "in_hand cr [] = cr" "in_hand cr (cs @ ds) = in_hand (in_hand cr cs) ds" "in_hand cr (c # cs) = in_hand (answer_of c cr) cs"
  by (simp_all add: in_hand_def)

fun authorised :: "Library \<Rightarrow> SfsTurboInstance \<Rightarrow> call list \<Rightarrow> call \<Rightarrow> bool" where
  "authorised L cr before (CallCreate inp r) =
     (active L cr \<and> st_FsId (cr_Status cr) = [] \<and> inp = create_input (cr_Spec cr)
      \<and> (\<forall>i a. CallCreate i a \<notin> set before))"
| "authorised L cr before (CallGet fsId r) =
     (fsId = st_FsId (cr_Status cr) \<and> fsId \<noteq> [] \<and> (active L cr \<or> tearing_down L cr))"
| "authorised L cr before (CallDelete fsId r) =
     (tearing_down L cr \<and> fsId = st_FsId (cr_Status cr) \<and> \<not> hasConditionTrue cr ConditionDeleting
      \<and> (\<exists>info. CallGet fsId (Inr info) \<in> set before)
      \<and> (\<forall>i a. CallDelete i a \<notin> set before))"
| "authorised L cr before (CallExpand fsId n r) =
     (tracked_by L cr fsId \<and> n = sp_Size (cr_Spec cr) \<and> \<not> hasConditionTrue cr ConditionExpanding
      \<and> (\<exists>info. seen_available cr before info \<and> 0 < sint (si_Size info) \<and> sint (si_Size info) < sint n)
      \<and> (\<forall>i m a. CallExpand i m a \<notin> set before))"
| "authorised L cr before (CallChangeSecurityGroup fsId sg r) =
     (tracked_by L cr fsId \<and> sg = sp_SecurityGroupId (cr_Spec cr) \<and> sg \<noteq> []
      \<and> (\<exists>info. seen_available cr before info \<and> sg \<noteq> si_SecurityGroupId info
          \<and> \<not> IsSgChangeInFlight (si_SubStatus info))
      \<and> (\<forall>i g a. CallChangeSecurityGroup i g a \<notin> set before))"
| "authorised L cr before (CallListTags fsId r) =
     (tracked_by L cr fsId \<and> (\<exists>info. seen_available cr before info \<and> \<not> IsSgChangeInFlight (si_SubStatus info)))"
| "authorised L cr before (CallAddTag fsId k v r) =
     (tracked_by L cr fsId \<and> (k, v) \<in> set (sp_Tags (cr_Spec cr))
      \<and> (\<exists>live. CallListTags fsId (Inr live) \<in> set before \<and> map_of live k \<noteq> Some v))"
| "authorised L cr before (CallDeleteTag fsId k r) =
     (tracked_by L cr fsId \<and> map_of (sp_Tags (cr_Spec cr)) k = None
      \<and> (\<exists>live. CallListTags fsId (Inr live) \<in> set before \<and> k \<in> fst ` set live))"
| "authorised L cr before (CallUpdateCR cr' r) =
     (if deleting cr then protected L cr
        \<and> (\<exists>fs. cr_Finalizers cr' = RemoveFinalizer L fs Finalizer)
        \<and> (st_FsId (cr_Status cr) = [] \<or> sp_ReclaimPolicy (cr_Spec cr) \<noteq> ReclaimPolicyDelete
           \<or> (\<exists>e. CallGet (st_FsId (cr_Status cr)) (Inl e) \<in> set before \<and> is_ErrFsNotFound e))
      else \<not> protected L cr \<and> cr' = cr\<lparr>cr_Finalizers := AddFinalizer L (cr_Finalizers cr) Finalizer\<rparr>)"
| "authorised L cr before (CallDeletePV pv r) =
     (tearing_down L cr \<and> sp_PvcName (cr_Spec cr) \<noteq> [] \<and> CallGetPV (sp_PvcName (cr_Spec cr)) (Inr pv) \<in> set before)"
| "authorised L cr before (CallDeletePVC pvc r) =
     (tearing_down L cr \<and> sp_PvcName (cr_Spec cr) \<noteq> [] \<and> CallGetPVC (pvc_key cr) (Inr pvc) \<in> set before)"
| "authorised L cr before (CallGetPV n r) =
     (n \<noteq> [] \<and> (active L cr \<and> n = sp_PvcName (cr_Spec (in_hand cr before)) \<or> tearing_down L cr \<and> n = sp_PvcName (cr_Spec cr)))"
| "authorised L cr before (CallGetPVC k r) =
     (nn_Name k \<noteq> [] \<and> (active L cr \<and> k = pvc_key (in_hand cr before) \<or> tearing_down L cr \<and> k = pvc_key cr))"
| "authorised L cr before (CallCreatePV pv r) = (active L cr \<and> owned_change L (in_hand cr before) before (CallCreatePV pv r))"
| "authorised L cr before (CallUpdatePV pv r) = (active L cr \<and> owned_change L (in_hand cr before) before (CallUpdatePV pv r))"
| "authorised L cr before (CallCreatePVC pvc r) = (active L cr \<and> owned_change L (in_hand cr before) before (CallCreatePVC pvc r))"
| "authorised L cr before (MetricReconcileTotal ns res) = False"
| "authorised L cr before _ = True"

definition log_ok :: "Library \<Rightarrow> SfsTurboInstance \<Rightarrow> call list \<Rightarrow> bool" where
  "log_ok L cr cs \<longleftrightarrow> (\<forall>i < length cs. authorised L cr (take i cs) (cs ! i))"

lemma log_ok_Nil [simp]: "log_ok L cr []"
  by (simp add: log_ok_def)

lemma log_ok_snoc [simp]: "log_ok L cr (cs @ [c]) \<longleftrightarrow> log_ok L cr cs \<and> authorised L cr cs c"
  by (auto simp: log_ok_def nth_append less_Suc_eq)

lemma log_ok_short [simp]:
  "log_ok L cr [c] \<longleftrightarrow> authorised L cr [] c"
  "log_ok L cr [c, d] \<longleftrightarrow> authorised L cr [] c \<and> authorised L cr [c] d"
  "log_ok L cr [c, d, e] \<longleftrightarrow> authorised L cr [] c \<and> authorised L cr [c] d \<and> authorised L cr [c, d] e"
  using log_ok_snoc [of L cr "[]" c] log_ok_snoc [of L cr "[c]" d] log_ok_snoc [of L cr "[c, d]" e]
  by simp_all

lemma log_ok_append:
  assumes "log_ok L cr cs"
    and "\<And>ys c. set cs \<subseteq> set ys \<Longrightarrow> set ys \<subseteq> set (cs @ ds) \<Longrightarrow> c \<in> set ds \<Longrightarrow> authorised L cr ys c"
  shows "log_ok L cr (cs @ ds)"
  using assms
proof (induction ds rule: rev_induct)
  case (snoc d ds)
  have "log_ok L cr (cs @ ds)"
  proof (rule snoc.IH [OF snoc.prems(1)])
    fix ys c
    assume "set cs \<subseteq> set ys" "set ys \<subseteq> set (cs @ ds)" "c \<in> set ds"
    then show "authorised L cr ys c" by (intro snoc.prems(2)) auto
  qed
  moreover have "authorised L cr (cs @ ds) d"
    by (rule snoc.prems(2)) auto
  ultimately show ?case using log_ok_snoc [of L cr "cs @ ds" d] by simp
qed simp

lemma log_ok_each:
  assumes "log_ok L cr cs" and "each_at (\<lambda>before. authorised L cr (cs @ before)) ds"
  shows "log_ok L cr (cs @ ds)"
  using assms(2)
proof (induction ds rule: rev_induct)
  case (snoc d ds)
  then show ?case using log_ok_snoc [of L cr "cs @ ds" d] by (simp add: each_at_snoc)
qed (simp add: assms(1))

section \<open>The handlers keep the log authorised\<close>

text \<open>
  The object in memory has the spec and the file-system id of the CR that was read. This
  holds until the first write, whose answer replaces the object.
\<close>

definition on_target :: "SfsTurboInstance \<Rightarrow> 'w pass \<Rightarrow> bool" where
  "on_target cr s \<longleftrightarrow> spec_of s = cr_Spec cr \<and> st_FsId (status_of s) = st_FsId (cr_Status cr)"

definition safe :: "Library \<Rightarrow> SfsTurboInstance \<Rightarrow> outcome \<Rightarrow> 'w pass \<Rightarrow> bool" where
  "safe L cr r s \<longleftrightarrow> log_ok L cr (calls s)"

lemma wp_report_failure_safe:
  "log_ok (Lib R) cr (calls s) \<Longrightarrow> wp (report_failure R t st rs e) (safe (Lib R) cr) s"
  by (auto simp: report_failure_def safe_def wp_rules split: sum.split)

lemma wp_patch_then_safe:
  assumes "\<And>t. set (calls s) \<subseteq> set (calls t) \<Longrightarrow> log_ok (Lib R) cr (calls t) \<Longrightarrow> wp k (safe (Lib R) cr) t"
    and "log_ok (Lib R) cr (calls s)"
  shows "wp (patch_then R k) (safe (Lib R) cr) s"
proof -
  have k: "wp k (safe (Lib R) cr) (s\<lparr>world := w, calls := calls s @ [CallStatusUpdate x r], sfsti := y\<rparr>)"
    "wp k (safe (Lib R) cr) (s\<lparr>world := w, calls := calls s @ [CallStatusUpdate x r]\<rparr>)" for w x r y
    by (rule assms(1); use assms(2) in auto)+
  show ?thesis using assms(2)
    by (auto simp: patch_then_def wp_rules k safe_def split: sum.split)
qed

lemma wp_removeFinalizer_safe:
  assumes "log_ok (Lib R) cr (calls s)" and "deleting cr" and "protected (Lib R) cr"
    and "st_FsId (cr_Status cr) = [] \<or> sp_ReclaimPolicy (cr_Spec cr) \<noteq> ReclaimPolicyDelete
      \<or> (\<exists>e. CallGet (st_FsId (cr_Status cr)) (Inl e) \<in> set (calls s) \<and> is_ErrFsNotFound e)"
  shows "wp (removeFinalizer R) (safe (Lib R) cr) s"
  using assms by (auto simp: removeFinalizer_def safe_def wp_rules split: sum.split)

lemma wp_cascade:
  assumes "\<And>r w cs. cascade_outcome (Lib R) (sfsti s) r cs \<Longrightarrow> Q r (s\<lparr>world := w, calls := calls s @ cs\<rparr>)"
  shows "wp (cascadeDeletePVPVC R) Q s"
proof (rule wp_runI)
  fix r s'
  assume "run_state (cascadeDeletePVPVC R) s = (r, s')"
  from cascadeDeletePVPVC_outcome [OF this] show "Q r s'" using assms by auto
qed

lemma cascade_authorised:
  assumes "cascade_outcome L cr r cs" and "tearing_down L cr" and "sp_PvcName (cr_Spec cr) \<noteq> []"
  shows "each_at (\<lambda>before. authorised L cr (ys @ before)) cs" and "CallDelete i a \<notin> set cs"
  using assms by (cases; auto simp: pvc_delete_step_def pv_delete_step_def split: sum.splits if_splits)+

lemma wp_delete_share_safe:
  assumes "tearing_down (Lib R) cr" and "\<not> hasConditionTrue cr ConditionDeleting"
    and "st_FsId (status_of s) = st_FsId (cr_Status cr)" and "log_ok (Lib R) cr (calls s)"
    and "CallGet (st_FsId (cr_Status cr)) (Inr info) \<in> set (calls s)"
    and "\<And>i a. CallDelete i a \<notin> set (calls s)"
  shows "wp (delete_share R) (safe (Lib R) cr) s"
  using assms
  by (auto simp: delete_share_def wp_rules split: option.split intro!: wp_report_failure_safe wp_patch_then_safe)
    (auto simp: safe_def)

lemma wp_delete_live_safe:
  assumes td: "tearing_down (Lib R) cr" and s: "sfsti s = cr" and ok: "log_ok (Lib R) cr (calls s)"
    and got: "CallGet (st_FsId (cr_Status cr)) (Inr info) \<in> set (calls s)"
    and none: "\<And>i a. CallDelete i a \<notin> set (calls s)"
  shows "wp (delete_live R) (safe (Lib R) cr) s"
proof (cases "hasConditionTrue cr ConditionDeleting")
  case True
  then show ?thesis using s ok by (simp add: delete_live_def wp_rules safe_def)
next
  case False
  have casc: "log_ok (Lib R) cr (calls s @ cs)" "CallDelete i a \<notin> set cs"
    if "cascade_outcome (Lib R) (sfsti s) r cs" "sp_PvcName (cr_Spec cr) \<noteq> []" for r cs i a
    using cascade_authorised [OF that(1) [unfolded s] td that(2)] ok by (blast intro!: log_ok_each)+
  show ?thesis
    unfolding delete_live_def using s casc got none ok False
    by (auto simp: wp_rules intro!: wp_cascade wp_delete_share_safe [OF td [folded s] False [folded s]])
qed

lemma wp_reconcileDelete_safe:
  assumes s: "sfsti s = cr" "calls s = [CallGetCR req (Inr cr)]" and del: "deleting cr"
  shows "wp (reconcileDelete R) (safe (Lib R) cr) s"
proof (cases "protected (Lib R) cr \<and> st_FsId (cr_Status cr) \<noteq> []
    \<and> sp_ReclaimPolicy (cr_Spec cr) = ReclaimPolicyDelete")
  case False
  have ok: "log_ok (Lib R) cr (calls s)"
    by (simp add: s(2))
  show ?thesis using False s(1) ok del
    by (auto simp: reconcileDelete_def wp_rules safe_def [abs_def] protected_def
        intro!: wp_removeFinalizer_safe [unfolded safe_def [abs_def]] wp_patch_then_safe [unfolded safe_def [abs_def]])
next
  case True
  with del have td: "tearing_down (Lib R) cr" by (simp add: tearing_down_def)
  have ok: "log_ok (Lib R) cr (calls s)"
    by (simp add: s(2))
  show ?thesis using True td s ok del
    by (auto simp: reconcileDelete_def wp_rules protected_def
        split: sum.split
        intro!: wp_report_failure_safe wp_delete_live_safe wp_patch_then_safe wp_removeFinalizer_safe)
qed

lemma wp_reconcileCreate_safe:
  assumes "sfsti s = cr" and "calls s = [CallGetCR req (Inr cr)]"
    and "active (Lib R) cr" and "st_FsId (cr_Status cr) = []"
  shows "wp (reconcileCreate R) (safe (Lib R) cr) s"
  using assms
  by (auto simp: reconcileCreate_def wp_rules split: sum.split intro!: wp_report_failure_safe wp_patch_then_safe)
    (auto simp: safe_def)

lemma wp_poll_grow_safe:
  assumes "on_target cr s" and "log_ok (Lib R) cr (calls s)" and "active (Lib R) cr"
    and "st_FsId (cr_Status cr) \<noteq> []"
    and "hasConditionTrue (sfsti s) ConditionExpanding = hasConditionTrue cr ConditionExpanding"
    and "seen_available cr (calls s) info" and "0 < sint (si_Size info)"
    and "sint (si_Size info) < sint (sp_Size (cr_Spec cr))"
    and "\<And>i n a. CallExpand i n a \<notin> set (calls s)"
  shows "wp (poll_grow R info) (safe (Lib R) cr) s"
  using assms
  by (auto simp: poll_grow_def wp_rules on_target_def tracked_by_def split: option.split
      intro!: wp_report_failure_safe wp_patch_then_safe)
    (auto simp: safe_def)

text \<open>The object in memory has the spec and the namespace of the last answer.\<close>

definition in_step :: "SfsTurboInstance \<Rightarrow> 'w pass \<Rightarrow> bool" where
  "in_step cr s \<longleftrightarrow> spec_of s = cr_Spec (in_hand cr (calls s)) \<and> cr_Namespace (sfsti s) = cr_Namespace (in_hand cr (calls s))"

lemma in_step_fields [simp]:
  "cr_Spec y = spec_of s \<Longrightarrow> cr_Namespace y = cr_Namespace (sfsti s) \<Longrightarrow> in_step cr (s\<lparr>sfsti := y\<rparr>) = in_step cr s"
  "in_step cr (s\<lparr>world := w\<rparr>) = in_step cr s"
  by (simp_all add: in_step_def)

lemma in_step_update [maintains_rules]:
  "(\<And>x. cr_Spec (f x) = cr_Spec x \<and> cr_Namespace (f x) = cr_Namespace x) \<Longrightarrow> maintains (in_step cr) (update_sfsti f)"
  by (rule maintains_modify) (simp add: in_step_def)

lemma in_step_invoke [maintains_rules]: "(\<And>r x. answer_of (ev r) x = x) \<Longrightarrow> maintains (in_step cr) (invoke op ev)"
  by (auto simp: maintains_def wp_rules in_step_def)

lemma in_step_setCondition [maintains_rules]: "maintains (in_step cr) (setCondition R t st rs msg)"
  by (auto simp: maintains_def wp_rules in_step_def)

lemma in_step_patchStatus [maintains_rules]: "maintains (in_step cr) (patchStatus R)"
  by (auto simp: maintains_def wp_rules in_step_def split: sum.split)

lemma in_step_tags: "maintains (in_step cr) (poll_tags R info)"
proof -
  have "maintains (in_step cr) (add_missing R desired live changed)" for desired live changed
    by (induction R desired live changed rule: add_missing.induct) (auto intro!: maintains_rules)
  moreover have "maintains (in_step cr) (delete_extras R desired ks live changed)" for desired ks live changed
    by (induction R desired ks live changed rule: delete_extras.induct) (auto intro!: maintains_rules)
  ultimately show ?thesis unfolding poll_tags_def reconcileTagsDrift_def by (intro maintains_rules; simp)
qed

text \<open>What \<open>poll_resize\<close> gives its continuation: no further call, the same target.\<close>

definition still_polling :: "Library \<Rightarrow> SfsTurboInstance \<Rightarrow> ShareInfo \<Rightarrow> 'w pass \<Rightarrow> bool" where
  "still_polling L cr info s \<longleftrightarrow> on_target cr s \<and> log_ok L cr (calls s) \<and> active L cr
     \<and> st_FsId (cr_Status cr) \<noteq> [] \<and> seen_available cr (calls s) info
     \<and> (\<forall>i n a. CallExpand i n a \<notin> set (calls s)) \<and> (\<forall>i g a. CallChangeSecurityGroup i g a \<notin> set (calls s))
     \<and> in_step cr s"

lemma wp_poll_resize_safe:
  assumes "still_polling (Lib R) cr info s"
    and "hasConditionTrue (sfsti s) ConditionExpanding = hasConditionTrue cr ConditionExpanding"
  shows "wp (poll_resize R info) (\<lambda>r t. case r of
      Some r' \<Rightarrow> safe (Lib R) cr r' t | None \<Rightarrow> still_polling (Lib R) cr info t) s"
  using assms
  by (auto simp: poll_resize_def wp_rules still_polling_def on_target_def safe_def [abs_def]
      intro!: wp_poll_grow_safe [unfolded safe_def [abs_def]])

lemma wp_poll_immutable_safe:
  "still_polling L cr info s \<Longrightarrow> wp (poll_immutable R info) (\<lambda>_. still_polling L cr info) s"
  by (auto simp: poll_immutable_def wp_rules still_polling_def on_target_def Let_def)

lemma wp_poll_sg_drift_safe:
  assumes "still_polling (Lib R) cr info s" and "sp_SecurityGroupId (cr_Spec cr) \<noteq> []"
    and "sp_SecurityGroupId (cr_Spec cr) \<noteq> si_SecurityGroupId info"
  shows "wp (poll_sg_drift R info) (safe (Lib R) cr) s"
  using assms
  by (auto simp: poll_sg_drift_def wp_rules still_polling_def on_target_def tracked_by_def safe_def [abs_def]
      split: option.split
      intro!: wp_patch_then_safe [unfolded safe_def [abs_def]] wp_report_failure_safe [unfolded safe_def [abs_def]])

lemma attempted_calls:
  "attempted ps cs ok \<Longrightarrow> c \<in> set cs \<Longrightarrow> \<exists>p \<in> set ps. \<exists>r. c = p r"
proof (induction ps arbitrary: cs)
  case (Cons p ps)
  then show ?case by (cases cs) auto
qed simp

lemma tag_calls_authorised:
  assumes "attempted (tag_plan fsId (sp_Tags (cr_Spec cr)) live) cs ok" and "c \<in> set cs"
    and "tracked_by L cr fsId" and "CallListTags fsId (Inr live) \<in> set ys"
  shows "authorised L cr ys c"
proof -
  from attempted_calls [OF assms(1,2)] obtain p r
    where "p \<in> set (tag_plan fsId (sp_Tags (cr_Spec cr)) live)" and c: "c = p r" by auto
  then consider k v where "p = CallAddTag fsId k v" "(k, v) \<in> set (tags_to_add (sp_Tags (cr_Spec cr)) live)"
    | k where "p = CallDeleteTag fsId k" "k \<in> set (tags_to_delete (sp_Tags (cr_Spec cr)) live)"
    by (auto simp: tag_plan_def add_plan_def)
  then show ?thesis
    using assms(3,4) c by cases (auto simp: tags_to_add_def tags_to_delete_def)
qed

lemma tags_outcome_calls:
  assumes "tags_outcome s r s'"
  obtains a cs where "calls s' = (calls s @ [CallListTags (st_FsId (status_of s)) a]) @ cs"
    "case a of Inl e \<Rightarrow> cs = []
      | Inr live \<Rightarrow> attempted (tag_plan (st_FsId (status_of s)) (sp_Tags (spec_of s)) live) cs (r = None)"
proof -
  from assms obtain a cs where
    1: "calls s' = calls s @ CallListTags (st_FsId (status_of s)) a # cs" and
    2: "case a of Inl e \<Rightarrow> cs = []
      | Inr live \<Rightarrow> attempted (tag_plan (st_FsId (status_of s)) (sp_Tags (spec_of s)) live) cs (r = None)"
    unfolding tags_outcome_def by (elim exE conjE) (simp split: sum.splits)
  show ?thesis by (rule that [of a cs, OF _ 2]) (simp add: 1)
qed

lemma wp_poll_tags_safe:
  assumes "still_polling (Lib R) cr info s" and wf: "wf_map (sp_Tags (cr_Spec cr))"
  shows "wp (poll_tags R info) (\<lambda>_ t. log_ok (Lib R) cr (calls t)) s"
proof -
  have drift: "wp (reconcileTagsDrift R) (\<lambda>_ t. log_ok (Lib R) cr (calls t)) s"
    if "\<not> IsSgChangeInFlight (si_SubStatus info)"
  proof (rule wp_runI)
    fix r s'
    assume run: "run_state (reconcileTagsDrift R) s = (r, s')"
    let ?id = "st_FsId (cr_Status cr)"
    have eqs: "st_FsId (status_of s) = ?id" "sp_Tags (spec_of s) = sp_Tags (cr_Spec cr)"
      using assms(1) by (simp_all add: still_polling_def on_target_def)
    from reconcileTagsDrift_outcome [OF _ run] wf eqs have "tags_outcome s r s'" by simp
    then obtain a cs where calls: "calls s' = (calls s @ [CallListTags ?id a]) @ cs"
        and a: "case a of Inl e \<Rightarrow> cs = []
          | Inr live \<Rightarrow> attempted (tag_plan ?id (sp_Tags (cr_Spec cr)) live) cs (r = None)"
      by (rule tags_outcome_calls [of s r s', unfolded eqs])
    have tr: "tracked_by (Lib R) cr ?id" using assms(1) by (simp add: still_polling_def tracked_by_def)
    have ok: "log_ok (Lib R) cr (calls s @ [CallListTags ?id a])"
      using assms(1) that tr by (auto simp: still_polling_def)
    show "log_ok (Lib R) cr (calls s')"
      unfolding calls using a tr
      by (intro log_ok_append [OF ok]) (cases a; auto intro: tag_calls_authorised)
  qed
  show ?thesis
    using assms(1) by (auto simp: poll_tags_def wp_rules still_polling_def split: option.split
        intro!: wp_mono [OF drift])
qed

lemma ensure_authorised:
  assumes "ensure_outcome L x q r cs" and "cr_Spec x = cr_Spec (in_hand cr ys)" "cr_Namespace x = cr_Namespace (in_hand cr ys)"
    and "active L cr" and "sp_PvcName (cr_Spec x) \<noteq> []"
  shows "each_at (\<lambda>before. authorised L cr (ys @ before)) cs"
  using assms
  by (cases; auto simp: pv_step_def pvc_step_def stale_claim_def buildPV_def buildPVC_def split: sum.split)

lemma wp_poll_finish_safe:
  assumes "log_ok (Lib R) cr (calls s)" and "active (Lib R) cr" and "in_step cr s"
  shows "wp (poll_finish R) (safe (Lib R) cr) s"
proof -
  have ensure: "wp (ensurePVPVC R) (\<lambda>_ t. log_ok (Lib R) cr (calls t)) t" if ok: "log_ok (Lib R) cr (calls t)" "in_step cr t" for t
  proof (rule wp_runI)
    fix r t'
    assume "run_state (ensurePVPVC R) t = (r, t')"
    from ensurePVPVC_calls [OF this] obtain w cs where t': "t' = t\<lparr>world := w, calls := calls t @ cs\<rparr>"
      and out: "cs = [] \<or> sp_PvcName (spec_of t) \<noteq> [] \<and> (\<exists>q. ensure_outcome (Lib R) (sfsti t) q r cs)" by (elim exE conjE) (rule that)
    have "each_at (\<lambda>before. authorised (Lib R) cr (calls t @ before)) cs"
      using out ok(2) assms(2) by (auto simp: in_step_def intro: ensure_authorised)
    then show "log_ok (Lib R) cr (calls t')"
      using ok(1) by (simp add: t' log_ok_each)
  qed
  have rest: "wp (do {
      e \<leftarrow> ensurePVPVC R;
      (case e of
        Some x \<Rightarrow> State_Monad.return (\<lparr>RequeueAfter = requeueProvisioning\<rparr>, Some x)
      | None \<Rightarrow> State_Monad.return (no_requeue, None)) }) (safe (Lib R) cr) t" if "log_ok (Lib R) cr (calls t)" "in_step cr t" for t
    unfolding wp_bind by (rule wp_mono [OF ensure [OF that]]) (simp add: safe_def wp_return split: option.split)
  have "wp (patchStatus R) (\<lambda>_ t. log_ok (Lib R) cr (calls t)) s"
    using assms(1) by (auto simp: wp_rules split: sum.split)
  from wp_maintains [OF this in_step_patchStatus assms(3)] show ?thesis
    unfolding poll_finish_def patch_then_def wp_bind [of "patchStatus _"]
    by (rule wp_mono) (auto simp: safe_def wp_return split: option.split intro: rest)
qed

lemma wp_poll_drift_safe:
  fixes R :: "'w Reconciler"
  assumes "still_polling (Lib R) cr info s" and "wf_map (sp_Tags (cr_Spec cr))"
  shows "wp (poll_drift R info) (safe (Lib R) cr) s"
proof -
  have settled: "wp (poll_sg_settled R info) (\<lambda>_. still_polling (Lib R) cr info) t"
    if "still_polling (Lib R) cr info t" for t
    using that by (auto simp: poll_sg_settled_def wp_rules still_polling_def on_target_def)
  have tail: "wp (poll_tags R info) (\<lambda>_. wp (poll_finish R) (safe (Lib R) cr)) t"
    if "still_polling (Lib R) cr info t" for t
  proof -
    have "in_step cr t" using that by (simp add: still_polling_def)
    from wp_maintains [OF wp_poll_tags_safe [OF that assms(2)] in_step_tags this] show ?thesis
      by (rule wp_mono) (use that in \<open>auto simp: still_polling_def intro: wp_poll_finish_safe\<close>)
  qed
  have "wp (poll_sg_settled R info) (\<lambda>_. wp (poll_tags R info) (\<lambda>_. wp (poll_finish R) (safe (Lib R) cr))) t"
    if "still_polling (Lib R) cr info t" for t
    by (rule wp_mono [OF settled [OF that] tail])
  moreover have "spec_of t = cr_Spec cr" if "still_polling (Lib R) cr info t" for t :: "'w pass"
    using that by (simp add: still_polling_def on_target_def)
  ultimately show ?thesis
    unfolding poll_drift_def wp_bind
    by (intro wp_mono [OF wp_poll_immutable_safe [OF assms(1)]])
      (auto simp: wp_gets wp_bind wp_if intro: wp_poll_sg_drift_safe)
qed

lemma wp_poll_record_safe:
  assumes "sfsti s = cr" and "still_polling L cr info s"
  shows "wp (poll_record R info) (\<lambda>_ t. still_polling L cr info t
    \<and> hasConditionTrue (sfsti t) ConditionExpanding = hasConditionTrue cr ConditionExpanding) s"
proof -
  have "hasConditionTrue (x\<lparr>cr_Status := (cr_Status x)\<lparr>st_ExportPath := p, st_Size := n,
      st_ObservedGeneration := g\<rparr>\<rparr>) t = hasConditionTrue x t" for x p n g t
    by (simp add: hasConditionTrue_def)
  then show ?thesis
    using assms by (auto simp: poll_record_def wp_rules still_polling_def on_target_def)
qed

lemma wp_poll_available_safe:
  fixes R :: "'w Reconciler"
  assumes "sfsti s = cr" and "still_polling (Lib R) cr info s" and "wf_map (sp_Tags (cr_Spec cr))"
  shows "wp (poll_available R info) (safe (Lib R) cr) s"
  unfolding poll_available_def wp_bind
proof (rule wp_mono [OF wp_poll_record_safe [OF assms(1,2)]], elim conjE)
  fix t :: "'w pass"
  assume "still_polling (Lib R) cr info t"
    "hasConditionTrue (sfsti t) ConditionExpanding = hasConditionTrue cr ConditionExpanding"
  from wp_poll_resize_safe [OF this]
  show "wp (poll_resize R info) (\<lambda>r. wp (case r of
       None \<Rightarrow> poll_drift R info | Some r \<Rightarrow> State_Monad.return r) (safe (Lib R) cr)) t"
    by (rule wp_mono) (auto simp: wp_return intro: wp_poll_drift_safe [OF _ assms(3)] split: option.splits)
qed

lemma wp_reconcilePoll_safe:
  assumes "sfsti s = cr" and "calls s = [CallGetCR req (Inr cr)]"
    and "active (Lib R) cr" and "st_FsId (cr_Status cr) \<noteq> []" and "wf_map (sp_Tags (cr_Spec cr))"
  shows "wp (reconcilePoll R) (safe (Lib R) cr) s"
  using assms
  by (auto simp: reconcilePoll_def poll_missing_def poll_errored_def wp_rules seen_available_def
      still_polling_def on_target_def in_step_def safe_def [abs_def]
      split: sum.split intro!: wp_report_failure_safe [unfolded safe_def [abs_def]]
        wp_poll_available_safe [unfolded safe_def [abs_def]])

lemma wp_reconcile_body_safe:
  assumes s: "calls s = []" and got: "kGetCR (Client R) req (world s) = (Inr cr, w)"
    and wf: "wf_map (sp_Tags (cr_Spec cr))"
  shows "wp (reconcile_body R req) (safe (Lib R) cr) s"
proof (cases "deleting cr")
  case True
  then show ?thesis using s got
    by (auto simp: reconcile_body_def wp_rules deleting_def [symmetric] intro!: wp_reconcileDelete_safe)
next
  case False
  then show ?thesis using s got wf
    by (auto simp: reconcile_body_def wp_rules deleting_def [symmetric] protected_def [symmetric] active_def
        safe_def [abs_def] split: sum.split
        intro!: wp_reconcileCreate_safe [unfolded safe_def [abs_def]] wp_reconcilePoll_safe [unfolded safe_def [abs_def]])
qed

section \<open>A pass\<close>

text \<open>\<open>var sfsti storagev1alpha1.SfsTurboInstance\<close>: the zero value a pass starts from.\<close>

definition zero_instance :: SfsTurboInstance where
  "zero_instance = \<lparr>
     cr_Name = [], cr_Namespace = [], cr_Generation = 0, cr_Finalizers = [], cr_DeletionTimestamp = None,
     cr_Spec = \<lparr>
       sp_ReclaimPolicy = [], sp_PausedReconcile = False, sp_FsName = [], sp_Size = 0, sp_ShareType = [],
       sp_ShareProtocol = [], sp_Enhanced = False, sp_AvailabilityZone = [], sp_VpcId = [], sp_SubnetId = [],
       sp_SecurityGroupId = [], sp_CryptKeyId = [], sp_AutoCreateSgRules = False, sp_Tags = [],
       sp_PvcName = [], sp_PvcSize = [], sp_StorageClassName = []\<rparr>,
     cr_Status = \<lparr>
       st_FsId = [], st_ExportPath = [], st_Size = 0, st_SecurityGroupId = [], st_Tags = [],
       st_ObservedGeneration = 0, st_Conditions = []\<rparr>\<rparr>"

definition start :: "'w \<Rightarrow> 'w pass" where
  "start w = \<lparr>world = w, sfsti = zero_instance, calls = []\<rparr>"

lemma start_simps [simp]: "world (start w) = w" "sfsti (start w) = zero_instance" "calls (start w) = []"
  by (simp_all add: start_def)

definition pass :: "'w Reconciler \<Rightarrow> NamespacedName \<Rightarrow> 'w \<Rightarrow> outcome \<times> 'w pass" where
  "pass R req w = run_state (Reconcile R req) (start w)"

definition pass_calls :: "'w Reconciler \<Rightarrow> NamespacedName \<Rightarrow> 'w \<Rightarrow> call list" where
  "pass_calls R req w = calls (snd (pass R req w))"

text \<open>A property of the handlers' code gives one of the whole pass, the metric call aside.\<close>

lemma pass_body:
  assumes "wp (reconcile_body R req) Q (start w)"
  obtains r t where "Q r t" "pass R req w =
    (r, t\<lparr>calls := calls t @ [MetricReconcileTotal (nn_Namespace req) (outcome_label r)]\<rparr>)"
proof -
  obtain r t where run: "run_state (reconcile_body R req) (start w) = (r, t)" by fastforce
  show ?thesis
    by (rule that [of r t]) (use assms run in \<open>simp_all add: wp_def pass_def Reconcile_def\<close>)
qed

text \<open>
  C1. Whatever the Kubernetes API and the Huawei API answer, every call of a reconcile
  pass is authorised at its position by the CR that was read and the calls before it:
  a file system is created at most once, only for an active CR that tracks none and with the
  input of its spec; deleted at most once, only for a CR under deletion with
  reclaimPolicy Delete, after a \<open>Get\<close> found it and only while no deletion is recorded;
  expanded only upwards, once, and with no expansion recorded; the security group
  changed only where it is pinned, differs and no change is in flight; a tag call is
  made only for an entry that differs, after the tags were listed; the PV and the PVC of the
  name in the object at hand are looked at, created only for an active CR and after they were not found, updated only when stale
  (\<open>owned_change\<close>), and deleted only in a teardown and as they were found; and the
  finalizer is removed only where there is no file system to destroy, the policy is
  not Delete, or \<open>Get\<close> answered that it is gone. The outcome metric is recorded exactly
  once, as the last thing of the pass, with the label of the outcome.
\<close>

theorem every_call_authorised:
  assumes "kGetCR (Client R) req w = (Inr cr, w')" and "wf_map (sp_Tags (cr_Spec cr))"
  shows "\<exists>cs. log_ok (Lib R) cr cs \<and> pass_calls R req w =
    cs @ [MetricReconcileTotal (nn_Namespace req) (outcome_label (fst (pass R req w)))]"
proof -
  have "wp (reconcile_body R req) (safe (Lib R) cr) (start w)"
    by (rule wp_reconcile_body_safe) (use assms in simp_all)
  then obtain r t where "safe (Lib R) cr r t" "pass R req w =
      (r, t\<lparr>calls := calls t @ [MetricReconcileTotal (nn_Namespace req) (outcome_label r)]\<rparr>)"
    by (rule pass_body)
  then show ?thesis by (simp add: pass_calls_def safe_def)
qed

lemmas pass_defs = pass_calls_def pass_def Reconcile_def reconcile_body_def reconcilePoll_def poll_available_def
  poll_record_def poll_resize_def poll_grow_def poll_drift_def poll_immutable_def poll_sg_drift_def
  poll_sg_settled_def poll_tags_def poll_finish_def poll_missing_def poll_errored_def reconcileCreate_def
  reconcileDelete_def delete_live_def delete_share_def report_failure_def patch_then_def
  reconcileTagsDrift_def timestamp_IsZero_def Let_def volume_defs start_def no_requeue_def

definition demo_req :: NamespacedName where
  "demo_req = \<lparr>nn_Namespace = ''team'', nn_Name = ''share''\<rparr>"

text \<open>\<open>demo_tracked\<close> after the user raised \<open>spec.size\<close> from 500 to 600.\<close>

definition demo_growing :: SfsTurboInstance where
  "demo_growing = demo_tracked\<lparr>cr_Spec := demo_spec\<lparr>sp_Size := 600\<rparr>\<rparr>"

theorem every_call_authorised_witness:
  "\<exists>cs. pass_calls (scripted (demo_script\<lparr>a_cr := Inr demo_growing\<rparr>)) demo_req () =
       cs @ [MetricReconcileTotal ''team'' ''requeued'']
     \<and> log_ok demo_library demo_growing cs \<and> CallExpand ''fs-1'' 600 None \<in> set cs"
proof -
  define R where "R = scripted (demo_script\<lparr>a_cr := Inr demo_growing\<rparr>)"
  have read: "kGetCR (Client R) demo_req () = (Inr demo_growing, ())" and lib: "Lib R = demo_library"
    by (simp_all add: R_def scripted_def)
  have wf: "wf_map (sp_Tags (cr_Spec demo_growing))"
    by (simp add: demo_growing_def demo_spec_def wf_map_def)
  have "CallExpand ''fs-1'' 600 None \<in> set (pass_calls R demo_req ())"
    and "outcome_label (fst (pass R demo_req ())) = ''requeued''"
    by (simp_all add: R_def pass_defs run_defs demo_defs demo_growing_def IsAvailable_def hasConditionTrue_def
        with_condition_def go_consts outcome_label_def requeueProvisioning_def second_def)
  with every_call_authorised [OF read wf] show ?thesis
    unfolding R_def [symmetric] lib by (auto simp: demo_req_def)
qed

end
