(* ===== verification/Lifecycle.thy ===== *)
theory Lifecycle
  imports Safety
begin

text \<open>
  What a reconcile pass does in each of its branches: the calls it makes, the status it
  writes back and the outcome it returns, for every answer of the environment.
\<close>

section \<open>Creation\<close>

text \<open>The outcome of a branch that ends with \<open>patchStatus\<close>: an error of the write is returned.\<close>

definition after_patch :: "Library \<Rightarrow> outcome \<Rightarrow> err + SfsTurboInstance \<Rightarrow> outcome" where
  "after_patch L r a = (case a of
       Inl e \<Rightarrow> if IsNotFound L e then r else (no_requeue, Some e)
     | Inr cr \<Rightarrow> r)"

lemma wp_patch_then_return [wp_rules]:
  "wp (patch_then R (State_Monad.return r)) Q s \<longleftrightarrow>
     (\<forall>a w. kStatusUpdate (Client R) (sfsti s) (world s) = (a, w) \<longrightarrow>
        Q (after_patch (Lib R) r a) (s\<lparr>world := w, calls := calls s @ [CallStatusUpdate (sfsti s) a],
          sfsti := (case a of Inl e \<Rightarrow> sfsti s | Inr cr \<Rightarrow> cr)\<rparr>))"
  by (auto simp: patch_then_def after_patch_def wp_rules split: sum.splits)

lemma creation_pass:
  assumes "kGetCR (Client R) req w = (Inr cr, w1)" and "active (Lib R) cr" and "st_FsId (cr_Status cr) = []"
    and "Create (Huawei R) (create_input (cr_Spec cr)) w1 = (Inr fsId, w2)"
  shows "\<exists>x a r. pass_calls R req w = [CallGetCR req (Inr cr), CallCreate (create_input (cr_Spec cr)) (Inr fsId),
        CallStatusUpdate x a, MetricReconcileTotal (nn_Namespace req) (outcome_label r)]
    \<and> fst (pass R req w) = r \<and> r = after_patch (Lib R) (\<lparr>RequeueAfter = 30 * second\<rparr>, None) a
    \<and> cr_Spec x = cr_Spec cr \<and> st_FsId (cr_Status x) = fsId
    \<and> st_ObservedGeneration (cr_Status x) = cr_Generation cr
    \<and> condition_status x ConditionProvisioning = Some ConditionTrue
    \<and> condition_status x ConditionFailed = Some ConditionFalse"
proof -
  have "wp (reconcile_body R req) (\<lambda>r t. \<exists>x a. calls t =
        [CallGetCR req (Inr cr), CallCreate (create_input (cr_Spec cr)) (Inr fsId), CallStatusUpdate x a]
      \<and> r = after_patch (Lib R) (\<lparr>RequeueAfter = 30 * second\<rparr>, None) a
      \<and> cr_Spec x = cr_Spec cr \<and> st_FsId (cr_Status x) = fsId
      \<and> st_ObservedGeneration (cr_Status x) = cr_Generation cr
      \<and> condition_status x ConditionProvisioning = Some ConditionTrue
      \<and> condition_status x ConditionFailed = Some ConditionFalse) (start w)"
    using assms
    by (auto simp: reconcile_body_def reconcileCreate_def wp_rules active_def deleting_def protected_def
        requeueProvisioning_def)
  then show ?thesis
    by (rule pass_body) (auto simp: pass_calls_def)
qed

text \<open>
  When the Huawei API accepts the creation, the pass makes exactly one more call: it
  writes a status that records the returned id and the generation, with Provisioning
  True and Failed False, and asks to be called again after 30 s.
\<close>

lemma creation_is_recorded:
  assumes "kGetCR (Client R) req w = (Inr cr, w1)" and "active (Lib R) cr" and "st_FsId (cr_Status cr) = []"
    and "Create (Huawei R) (create_input (cr_Spec cr)) w1 = (Inr fsId, w2)"
  shows "\<exists>x a r. pass_calls R req w = [CallGetCR req (Inr cr), CallCreate (create_input (cr_Spec cr)) (Inr fsId),
        CallStatusUpdate x a, MetricReconcileTotal (nn_Namespace req) (outcome_label r)]
    \<and> fst (pass R req w) = r \<and> r = after_patch (Lib R) (\<lparr>RequeueAfter = 30 * second\<rparr>, None) a
    \<and> cr_Spec x = cr_Spec cr \<and> st_FsId (cr_Status x) = fsId
    \<and> st_ObservedGeneration (cr_Status x) = cr_Generation cr
    \<and> condition_status x ConditionProvisioning = Some ConditionTrue
    \<and> condition_status x ConditionFailed = Some ConditionFalse"
  using assms by (rule creation_pass)

section \<open>Errors\<close>

text \<open>
  The calls whose failure ends the pass: the condition in which it is reported, with its
  status, and the error.
\<close>

fun surfaced :: "call \<Rightarrow> (string \<times> string \<times> err) option" where
  "surfaced (CallCreate inp (Inl e)) = Some (ConditionFailed, ConditionTrue, e)"
| "surfaced (CallGet fsId (Inl e)) =
     (if is_ErrFsNotFound e then None else Some (ConditionFailed, ConditionTrue, e))"
| "surfaced (CallDelete fsId (Some e)) = Some (ConditionFailed, ConditionTrue, e)"
| "surfaced (CallExpand fsId n (Some e)) = Some (ConditionFailed, ConditionTrue, e)"
| "surfaced (CallChangeSecurityGroup fsId sg (Some e)) = Some (ConditionUpdatingSecurityGroup, ConditionFalse, e)"
| "surfaced _ = None"

abbreviation quiet :: "('w, 'a) rec \<Rightarrow> bool" where
  "quiet m \<equiv> emits (\<lambda>c. surfaced c = None) m"

lemma quiet_setCondition [emits_rules]: "quiet (setCondition R t st rs msg)"
  unfolding setCondition_def by (intro emits_rules)

lemma quiet_patchStatus [emits_rules]: "quiet (patchStatus R)"
  unfolding patchStatus_def by (intro emits_rules; simp)

lemma quiet_removeFinalizer [emits_rules]: "quiet (removeFinalizer R)"
  unfolding removeFinalizer_def by (intro emits_rules; simp)

lemma quiet_add_missing [emits_rules]: "quiet (add_missing R desired live changed)"
  by (induction R desired live changed rule: add_missing.induct) (auto intro!: emits_rules)

lemma quiet_delete_extras [emits_rules]: "quiet (delete_extras R desired ks live changed)"
  by (induction R desired ks live changed rule: delete_extras.induct) (auto intro!: emits_rules)

lemma quiet_tags [emits_rules]: "quiet (reconcileTagsDrift R)"
  unfolding reconcileTagsDrift_def by (intro emits_rules; simp)

lemma quiet_volumes [emits_rules]: "quiet (ensurePVPVC R)" "quiet (cascadeDeletePVPVC R)"
  unfolding volume_defs Let_def by (intro emits_rules; simp)+

definition reported :: "outcome \<Rightarrow> call list \<Rightarrow> bool" where
  "reported r cs \<longleftrightarrow> (\<forall>c t st e. c \<in> set cs \<and> surfaced c = Some (t, st, e) \<longrightarrow>
     r = (no_requeue, Some e) \<and> (\<exists>before x a. cs = before @ [c, CallStatusUpdate x a]
       \<and> condition_status x t = Some st
       \<and> map_option co_Message (condition (st_Conditions (cr_Status x)) t) = Some (error_text e)))"

definition no_failure :: "call list \<Rightarrow> bool" where
  "no_failure cs \<longleftrightarrow> list_all (\<lambda>c. surfaced c = None) cs"

lemma wp_quiet:
  assumes "quiet m" and "no_failure (calls s)" and "\<And>r t. no_failure (calls t) \<Longrightarrow> Q r t"
  shows "wp m Q s"
  by (rule wp_emits [OF assms(1)]) (use assms(2,3) in \<open>simp add: no_failure_def\<close>)

lemma reported_no_failure: "no_failure cs \<Longrightarrow> reported r cs"
  by (auto simp: reported_def no_failure_def list_all_iff)

lemma wp_report_failure_reported:
  assumes "calls s = before @ [c]" and "no_failure before" and "surfaced c = Some (t, st, e)"
  shows "wp (report_failure R t st rs e) (\<lambda>r t. reported r (calls t)) s"
proof -
  have "reported (no_requeue, Some e) ((before @ [c]) @ [CallStatusUpdate (with_condition n t st rs (error_text e) x) a])"
    for n x a
    unfolding reported_def
  proof (intro allI impI)
    fix c' t' st' e'
    assume "c' \<in> set ((before @ [c]) @ [CallStatusUpdate (with_condition n t st rs (error_text e) x) a])
      \<and> surfaced c' = Some (t', st', e')"
    with assms(2,3) have "c' = c" "t' = t" "st' = st" "e' = e"
      by (auto simp: no_failure_def list_all_iff)
    then show "(no_requeue, Some e) = (no_requeue, Some e') \<and> (\<exists>before' x' a'.
        (before @ [c]) @ [CallStatusUpdate (with_condition n t st rs (error_text e) x) a] =
          before' @ [c', CallStatusUpdate x' a']
        \<and> condition_status x' t' = Some st'
        \<and> map_option co_Message (condition (st_Conditions (cr_Status x')) t') = Some (error_text e'))"
      by (intro conjI exI [of _ before] exI [of _ a]
          exI [of _ "with_condition n t st rs (error_text e) x"])
        (simp_all add: condition_status_def with_condition_def condition_upsert merge_condition_def split: option.split)
  qed
  with assms(1) show ?thesis
    by (auto simp: report_failure_def wp_rules split: sum.split)
qed

lemma quiet_patch_then [emits_rules]: "quiet k \<Longrightarrow> quiet (patch_then R k)"
  unfolding patch_then_def by (intro emits_rules)

lemma quiet_poll_parts [emits_rules]:
  "quiet (poll_record R info)" "quiet (poll_immutable R info)" "quiet (poll_sg_settled R info)"
  "quiet (poll_tags R info)" "quiet (poll_finish R)" "quiet (poll_missing R)" "quiet (poll_errored R info)"
  unfolding poll_record_def poll_immutable_def poll_sg_settled_def poll_tags_def poll_finish_def
    poll_missing_def poll_errored_def Let_def
  by (intro emits_rules)+

abbreviation reports :: "('w, outcome) rec \<Rightarrow> bool" where
  "reports m \<equiv> (\<forall>s. no_failure (calls s) \<longrightarrow> wp m (\<lambda>r t. reported r (calls t)) s)"

lemma reports_quiet: "quiet m \<Longrightarrow> reports m"
  by (auto intro: wp_quiet reported_no_failure)

lemma reports_delete_share: "reports (delete_share R)"
  by (auto simp: delete_share_def wp_rules split: option.split
      intro!: wp_report_failure_reported reported_no_failure)
    (auto simp: no_failure_def)

lemma reports_reconcileDelete: "reports (reconcileDelete R)"
proof -
  have live: "reports (delete_live R)"
    by (auto simp: delete_live_def wp_rules no_failure_def [symmetric] reported_no_failure reports_delete_share
        intro!: wp_quiet [OF quiet_volumes(2)])
  have patch: "reports (patch_then R (removeFinalizer R))" "reports (removeFinalizer R)"
    by (intro reports_quiet emits_rules)+
  show ?thesis
    by (auto simp: reconcileDelete_def wp_rules reported_no_failure split: sum.split
        intro!: wp_report_failure_reported patch [rule_format] live [rule_format])
      (auto simp: no_failure_def)
qed

lemma reports_reconcileCreate: "reports (reconcileCreate R)"
  by (auto simp: reconcileCreate_def wp_rules split: sum.split
      intro!: wp_report_failure_reported reported_no_failure)
    (auto simp: no_failure_def)

lemma reports_poll_grow: "reports (poll_grow R info)"
  by (auto simp: poll_grow_def wp_rules split: option.split
      intro!: wp_report_failure_reported reported_no_failure)
    (auto simp: no_failure_def)

lemma reports_poll_sg_drift: "reports (poll_sg_drift R info)"
  by (auto simp: poll_sg_drift_def wp_rules split: option.split
      intro!: wp_report_failure_reported reported_no_failure)
    (auto simp: no_failure_def)

lemma reports_bind_quiet:
  assumes "quiet m" and "\<And>a. reports (f a)"
  shows "reports (State_Monad.bind m f)"
  using assms(2) by (auto simp: wp_bind intro!: wp_quiet [OF assms(1)])

lemma reports_poll_available: "reports (poll_available R info)"
proof -
  have drift: "reports (poll_drift R info)"
    unfolding poll_drift_def
    by (intro reports_bind_quiet emits_rules, split if_split)
      (auto intro!: reports_poll_sg_drift [rule_format] reports_quiet [rule_format] emits_rules)
  have resize: "wp (poll_resize R info) (\<lambda>r t. case r of
      Some r' \<Rightarrow> reported r' (calls t) | None \<Rightarrow> no_failure (calls t)) s" if "no_failure (calls s)" for s
    using that reports_poll_grow by (auto simp: poll_resize_def wp_rules)
  have "reports (do { resized \<leftarrow> poll_resize R info;
     (case resized of Some r \<Rightarrow> State_Monad.return r | None \<Rightarrow> poll_drift R info) })"
    unfolding wp_bind
    by (intro allI impI, rule wp_mono [OF resize]) (auto simp: wp_return drift split: option.splits)
  then show ?thesis
    unfolding poll_available_def by (intro reports_bind_quiet [OF quiet_poll_parts(1)])
qed

lemma reports_reconcilePoll: "reports (reconcilePoll R)"
proof -
  have other: "reports (poll_missing R)" "reports (poll_errored R info)" for info
    by (intro reports_quiet emits_rules)+
  show ?thesis
    by (auto simp: reconcilePoll_def wp_rules split: sum.split
        intro!: wp_report_failure_reported reported_no_failure other [rule_format]
          reports_poll_available [rule_format])
      (auto simp: no_failure_def)
qed

lemma reports_reconcile_body: "reports (reconcile_body R req)"
  by (auto simp: reconcile_body_def wp_rules split: sum.split
      intro!: reported_no_failure reports_reconcileDelete [rule_format]
        reports_reconcileCreate [rule_format] reports_reconcilePoll [rule_format])
    (auto simp: no_failure_def)

text \<open>A failed call that has to surface is followed by the status write that reports it, and ends the pass.\<close>

lemma failure_is_reported:
  assumes "c \<in> set (pass_calls R req w)" and "surfaced c = Some (t, st, e)"
  shows "fst (pass R req w) = (no_requeue, Some e) \<and> (\<exists>before x a. pass_calls R req w =
      before @ [c, CallStatusUpdate x a, MetricReconcileTotal (nn_Namespace req) ''error_transient'']
    \<and> condition_status x t = Some st
    \<and> map_option co_Message (condition (st_Conditions (cr_Status x)) t) = Some (error_text e))"
proof -
  have "wp (reconcile_body R req) (\<lambda>r t. reported r (calls t)) (start w)"
    by (rule reports_reconcile_body [rule_format]) (simp add: no_failure_def)
  then obtain r s where rep: "reported r (calls s)" and run: "pass R req w =
      (r, s\<lparr>calls := calls s @ [MetricReconcileTotal (nn_Namespace req) (outcome_label r)]\<rparr>)"
    by (rule pass_body)
  with assms have c: "c \<in> set (calls s)" by (auto simp: pass_calls_def)
  from rep [unfolded reported_def, rule_format, OF conjI [OF c assms(2)]] run
  show ?thesis by (auto simp: pass_calls_def outcome_label_def)
qed

text \<open>
  C15. An error of the Huawei API is never swallowed: when creating, deleting, expanding or changing the security group
  fails, or reading with an error other than \<open>ErrFsNotFound\<close> (which is an answer, not a failure), that is the last
  thing the pass tries; it writes a status that names the error in the Failed (or
  UpdatingSecurityGroup) condition and returns the very error, so that
  controller-runtime retries.
\<close>

theorem huawei_errors_surface:
  assumes "c \<in> set (pass_calls R req w)" and "surfaced c = Some (t, st, e)"
  shows "fst (pass R req w) = (no_requeue, Some e) \<and> (\<exists>before x a. pass_calls R req w =
      before @ [c, CallStatusUpdate x a, MetricReconcileTotal (nn_Namespace req) ''error_transient'']
    \<and> condition_status x t = Some st
    \<and> map_option co_Message (condition (st_Conditions (cr_Status x)) t) = Some (error_text e))"
  by (rule failure_is_reported [OF assms])

theorem huawei_errors_surface_witness:
  "fst (pass (scripted (demo_script\<lparr>a_create := Inl (OtherError ''quota'')\<rparr>)) demo_req ())
     = (no_requeue, Some (OtherError ''quota''))"
proof -
  define R where "R = scripted (demo_script\<lparr>a_create := Inl (OtherError ''quota'')\<rparr>)"
  have c: "CallCreate (create_input demo_spec) (Inl (OtherError ''quota'')) \<in> set (pass_calls R demo_req ())"
    by (simp add: R_def pass_defs run_defs demo_defs hasConditionTrue_def)
  show ?thesis
    using huawei_errors_surface [OF c, of ConditionFailed ConditionTrue "OtherError ''quota''"]
    unfolding R_def [symmetric] by simp
qed

lemma creation_is_recorded_example:
  "\<exists>x a. CallStatusUpdate x a \<in> set (pass_calls (scripted demo_script) demo_req ())
     \<and> st_FsId (cr_Status x) = ''fs-1'' \<and> condition_status x ConditionProvisioning = Some ConditionTrue"
proof -
  define R where "R = scripted demo_script"
  have "kGetCR (Client R) demo_req () = (Inr demo_cr, ())" and "active (Lib R) demo_cr"
    and "st_FsId (cr_Status demo_cr) = []"
    and "Create (Huawei R) (create_input (cr_Spec demo_cr)) () = (Inr ''fs-1'', ())"
    by (simp_all add: R_def demo_defs active_def deleting_def protected_def timestamp_IsZero_def)
  from creation_is_recorded [OF this] show ?thesis
    unfolding R_def [symmetric] by auto
qed

section \<open>Protection, pausing and deletion\<close>

text \<open>
  A CR that is not being deleted gets the finalizer before anything else: the pass
  makes one update, with the finalizer added and everything else as read, and asks to be
  called again at once; no Huawei call is made before the finalizer is stored.
\<close>

lemma finalizer_comes_first:
  assumes "kGetCR (Client R) req w = (Inr cr, w1)" and "\<not> deleting cr" and "\<not> protected (Lib R) cr"
    and "finalizer_laws (Lib R)"
  shows "\<exists>x a r. pass_calls R req w = [CallGetCR req (Inr cr), CallUpdateCR x a,
        MetricReconcileTotal (nn_Namespace req) (outcome_label r)]
    \<and> protected (Lib R) x \<and> x = cr\<lparr>cr_Finalizers := cr_Finalizers x\<rparr>
    \<and> set (cr_Finalizers x) = insert Finalizer (set (cr_Finalizers cr))
    \<and> fst (pass R req w) = r
    \<and> r = (case a of Inl e \<Rightarrow> (no_requeue, Some e) | Inr _ \<Rightarrow> (\<lparr>RequeueAfter = 1\<rparr>, None))"
proof -
  let ?x = "cr\<lparr>cr_Finalizers := AddFinalizer (Lib R) (cr_Finalizers cr) Finalizer\<rparr>"
  have fin: "protected (Lib R) ?x" "set (cr_Finalizers ?x) = insert Finalizer (set (cr_Finalizers cr))"
    using assms(4) by (simp_all add: finalizer_laws_def protected_def)
  have "wp (reconcile_body R req) (\<lambda>r t. \<exists>a. calls t = [CallGetCR req (Inr cr), CallUpdateCR ?x a]
      \<and> r = (case a of Inl e \<Rightarrow> (no_requeue, Some e) | Inr _ \<Rightarrow> (\<lparr>RequeueAfter = 1\<rparr>, None))) (start w)"
    using assms by (auto simp: reconcile_body_def wp_rules deleting_def protected_def split: sum.split)
  then show ?thesis
    by (rule pass_body) (intro exI [of _ ?x], use fin in \<open>auto simp: pass_calls_def\<close>)
qed

lemma finalizer_comes_first_example:
  "\<exists>x a. CallUpdateCR x a \<in> set (pass_calls
       (scripted (demo_script\<lparr>a_cr := Inr (demo_cr\<lparr>cr_Finalizers := [''other'']\<rparr>)\<rparr>)) demo_req ())
     \<and> set (cr_Finalizers x) = {''other'', Finalizer}"
proof -
  define R where "R = scripted (demo_script\<lparr>a_cr := Inr (demo_cr\<lparr>cr_Finalizers := [''other'']\<rparr>)\<rparr>)"
  have lib: "Lib R = demo_library" by (simp add: R_def scripted_def)
  have "kGetCR (Client R) demo_req () = (Inr (demo_cr\<lparr>cr_Finalizers := [''other'']\<rparr>), ())"
    and "\<not> deleting (demo_cr\<lparr>cr_Finalizers := [''other'']\<rparr>)"
    and "\<not> protected (Lib R) (demo_cr\<lparr>cr_Finalizers := [''other'']\<rparr>)"
    by (simp_all add: R_def demo_defs deleting_def protected_def timestamp_IsZero_def go_consts)
  from finalizer_comes_first [OF this] demo_library_laws [folded lib] show ?thesis
    unfolding R_def [symmetric] by (auto simp: insert_commute)
qed

text \<open>
  A paused CR that is not being deleted is left alone: no Huawei call and no PV or
  PVC call is made, only the status is written, which says Provisioning False.
\<close>

lemma paused_is_idle:
  assumes "kGetCR (Client R) req w = (Inr cr, w1)" and "\<not> deleting cr" and "protected (Lib R) cr"
    and "sp_PausedReconcile (cr_Spec cr)"
  shows "\<exists>x a r. pass_calls R req w = [CallGetCR req (Inr cr), CallStatusUpdate x a,
        MetricReconcileTotal (nn_Namespace req) (outcome_label r)]
    \<and> cr_Spec x = cr_Spec cr \<and> st_FsId (cr_Status x) = st_FsId (cr_Status cr)
    \<and> condition_status x ConditionProvisioning = Some ConditionFalse
    \<and> fst (pass R req w) = r \<and> r = after_patch (Lib R) (no_requeue, None) a"
proof -
  have "wp (reconcile_body R req) (\<lambda>r t. \<exists>x a. calls t = [CallGetCR req (Inr cr), CallStatusUpdate x a]
      \<and> cr_Spec x = cr_Spec cr \<and> st_FsId (cr_Status x) = st_FsId (cr_Status cr)
      \<and> condition_status x ConditionProvisioning = Some ConditionFalse
      \<and> r = after_patch (Lib R) (no_requeue, None) a) (start w)"
    using assms
    by (auto simp: reconcile_body_def wp_rules deleting_def protected_def after_patch_def split: sum.split)
  then show ?thesis
    by (rule pass_body) (auto simp: pass_calls_def)
qed

text \<open>
  C17. The deletion of a tracked file system is not held back by anything but the guards
  of the teardown: once the CR is under deletion with reclaimPolicy Delete, no
  deletion is recorded and \<open>Get\<close> finds the file system, the pass issues \<open>Delete\<close> for it.
  In particular the outcome of the PV and PVC cascade does not matter, and neither does
  \<open>spec.pausedReconcile\<close>: a paused CR that is deleted loses its file system.
\<close>

theorem teardown_destroys:
  assumes "kGetCR (Client R) req w = (Inr cr, w1)" and "tearing_down (Lib R) cr"
    and "\<not> hasConditionTrue cr ConditionDeleting"
    and "Get (Huawei R) (st_FsId (cr_Status cr)) w1 = (Inr info, w2)"
  shows "\<exists>d. CallDelete (st_FsId (cr_Status cr)) d \<in> set (pass_calls R req w)"
proof -
  let ?issued = "\<lambda>r t. \<exists>d. CallDelete (st_FsId (cr_Status cr)) d \<in> set (calls t)"
  have share: "wp (delete_share R) (\<lambda>r t. \<exists>d. CallDelete i d \<in> set (calls t)) t" if "i = st_FsId (status_of t)" for t i
    using that by (auto simp: delete_share_def report_failure_def wp_rules split: option.split sum.split)
  have live: "wp (delete_live R) ?issued t" if "sfsti t = cr" for t
    using that assms(3) by (auto simp: delete_live_def wp_rules intro!: wp_cascade share)
  have "wp (reconcile_body R req) ?issued (start w)"
    using assms(1,2,4)
    by (auto simp: reconcile_body_def reconcileDelete_def wp_rules tearing_down_def deleting_def protected_def
        intro!: live)
  then show ?thesis
    by (rule pass_body) (auto simp: pass_calls_def)
qed

text \<open>The concrete instance is a paused CR.\<close>

theorem teardown_destroys_witness:
  "\<exists>d. CallDelete ''fs-1'' d \<in> set (pass_calls (scripted (demo_script\<lparr>a_cr := Inr
       (demo_doomed\<lparr>cr_Spec := (cr_Spec demo_doomed)\<lparr>sp_PausedReconcile := True\<rparr>\<rparr>)\<rparr>)) demo_req ())"
proof -
  define cr where "cr = demo_doomed\<lparr>cr_Spec := (cr_Spec demo_doomed)\<lparr>sp_PausedReconcile := True\<rparr>\<rparr>"
  define R where "R = scripted (demo_script\<lparr>a_cr := Inr cr\<rparr>)"
  have "kGetCR (Client R) demo_req () = (Inr cr, ())" and "tearing_down (Lib R) cr"
    and "\<not> hasConditionTrue cr ConditionDeleting"
    and "Get (Huawei R) (st_FsId (cr_Status cr)) () = (Inr demo_info, ())" and "st_FsId (cr_Status cr) = ''fs-1''"
    by (simp_all add: R_def cr_def demo_defs tearing_down_def deleting_def protected_def timestamp_IsZero_def
        hasConditionTrue_def time_IsZero_def demo_time_def second_def)
  with teardown_destroys [OF this(1-4)] show ?thesis
    unfolding R_def [symmetric] cr_def [symmetric] by simp
qed

lemma gone_pass:
  assumes "kGetCR (Client R) req w = (Inr cr, w1)" and "tearing_down (Lib R) cr"
    and "Get (Huawei R) (st_FsId (cr_Status cr)) w1 = (Inl e, w2)" and "is_ErrFsNotFound e"
  shows "\<exists>x a cs. pass_calls R req w = [CallGetCR req (Inr cr), CallGet (st_FsId (cr_Status cr)) (Inl e),
        CallStatusUpdate x a] @ cs @ [MetricReconcileTotal (nn_Namespace req) (outcome_label (fst (pass R req w)))]
    \<and> condition_status x ConditionDeleting = Some ConditionFalse
    \<and> (if snd (fst (pass R req w)) = None
       then \<exists>fs y b. cs = [CallUpdateCR y b] \<and> cr_Finalizers y = RemoveFinalizer (Lib R) fs Finalizer
       else True)"
proof -
  have "wp (reconcile_body R req) (\<lambda>r t. \<exists>x a cs. calls t = [CallGetCR req (Inr cr),
        CallGet (st_FsId (cr_Status cr)) (Inl e), CallStatusUpdate x a] @ cs
    \<and> condition_status x ConditionDeleting = Some ConditionFalse
    \<and> (if snd r = None then \<exists>fs y b. cs = [CallUpdateCR y b] \<and> cr_Finalizers y = RemoveFinalizer (Lib R) fs Finalizer
       else True)) (start w)"
    using assms
    by (auto simp: reconcile_body_def reconcileDelete_def patch_then_def removeFinalizer_def wp_rules
        tearing_down_def deleting_def protected_def split: sum.split)
  then show ?thesis
    by (rule pass_body) (auto simp: pass_calls_def)
qed

end
