(* ===== verification/Polling.thy ===== *)
theory Polling
  imports Lifecycle
begin

text \<open>
  The poll branch: what is written back when the file system is available, gone, still
  being built or broken, how growth is handled, and when the operator stops asking to be
  called again.
\<close>

section \<open>Status writes\<close>

fun status_writes :: "call list \<Rightarrow> SfsTurboInstance list" where
  "status_writes [] = []"
| "status_writes (CallStatusUpdate x a # cs) = x # status_writes cs"
| "status_writes (c # cs) = status_writes cs"

lemma status_writes_append [simp]: "status_writes (cs @ ds) = status_writes cs @ status_writes ds"
  by (induction cs rule: status_writes.induct) auto

abbreviation writes_none :: "('w, 'a) rec \<Rightarrow> bool" where
  "writes_none m \<equiv> emits (\<lambda>c. status_writes [c] = []) m"

lemma status_writes_none: "list_all (\<lambda>c. status_writes [c] = []) cs \<Longrightarrow> status_writes cs = []"
  by (induction cs rule: status_writes.induct) auto

lemma writes_none_add_missing [emits_rules]: "writes_none (add_missing R desired live changed)"
  by (induction R desired live changed rule: add_missing.induct) (auto intro!: emits_rules)

lemma writes_none_delete_extras [emits_rules]: "writes_none (delete_extras R desired ks live changed)"
  by (induction R desired ks live changed rule: delete_extras.induct) (auto intro!: emits_rules)

lemma writes_none_tags: "writes_none (reconcileTagsDrift R)"
  unfolding reconcileTagsDrift_def setCondition_def by (intro emits_rules; simp)

lemma writes_none_ensure: "writes_none (ensurePVPVC R)"
  unfolding volume_defs Let_def by (intro emits_rules; simp)

section \<open>What the available branch records\<close>

text \<open>The same object, with the same spec.\<close>

definition same_object :: "SfsTurboInstance \<Rightarrow> SfsTurboInstance \<Rightarrow> bool" where [simp]:
  "same_object x y \<longleftrightarrow> cr_Name x = cr_Name y \<and> cr_Namespace x = cr_Namespace y \<and> cr_Spec x = cr_Spec y"

text \<open>
  The status of an available file system. Under \<open>failing\<close> the Failed condition is True and
  its transition time was read from the clock of this very pass.
\<close>

definition recorded :: "'w Reconciler \<Rightarrow> bool \<Rightarrow> SfsTurboInstance \<Rightarrow> ShareInfo \<Rightarrow> SfsTurboInstance \<Rightarrow> bool" where
  "recorded R failing cr info x \<longleftrightarrow> same_object x cr
     \<and> st_FsId (cr_Status x) = st_FsId (cr_Status cr)
     \<and> st_ExportPath (cr_Status x) = si_ExportLocation info \<and> st_Size (cr_Status x) = si_Size info
     \<and> st_ObservedGeneration (cr_Status x) = cr_Generation cr
     \<and> condition_status x ConditionReady = Some ConditionTrue
     \<and> condition_status x ConditionProvisioning = Some ConditionFalse
     \<and> (if failing then condition_status x ConditionFailed = Some ConditionTrue
           \<and> (\<exists>c w. condition (st_Conditions (cr_Status x)) ConditionFailed = Some c
                \<and> co_LastTransitionTime c = time_UTC (fst (Now R w)))
        else True)"

text \<open>The state between the parts of the branch: recorded, nothing written yet.\<close>

definition unwritten :: "'w Reconciler \<Rightarrow> bool \<Rightarrow> SfsTurboInstance \<Rightarrow> ShareInfo \<Rightarrow> 'w pass \<Rightarrow> bool" where
  "unwritten R failing cr info s \<longleftrightarrow> status_writes (calls s) = [] \<and> recorded R failing cr info (sfsti s)
     \<and> (failing \<or> condition_status (sfsti s) ConditionFailed = Some ConditionFalse)"

definition written :: "'w Reconciler \<Rightarrow> bool \<Rightarrow> SfsTurboInstance \<Rightarrow> ShareInfo \<Rightarrow> 'w pass \<Rightarrow> bool" where
  "written R failing cr info s \<longleftrightarrow> (\<exists>x. status_writes (calls s) = [x] \<and> recorded R failing cr info x)"

lemma recorded_weaken: "recorded R True cr info x \<Longrightarrow> recorded R failing cr info x"
  by (simp add: recorded_def)

lemma condition_with_other [simp]:
  "t' \<noteq> t \<Longrightarrow> condition (st_Conditions (cr_Status (with_condition n t st rs msg x))) t' =
     condition (st_Conditions (cr_Status x)) t'"
  by (simp add: with_condition_def condition_upsert)

lemma recorded_with_other:
  assumes "recorded R failing cr info x"
    and "t \<notin> {ConditionReady, ConditionProvisioning, ConditionFailed}"
  shows "recorded R failing cr info (with_condition n t st rs msg x)"
  using assms by (auto simp: recorded_def)

lemma recorded_ready:
  "recorded R failing cr info x \<Longrightarrow> recorded R failing cr info (with_condition n ConditionReady ConditionTrue rs msg x)"
  by (auto simp: recorded_def)

lemma recorded_fail:
  assumes x: "recorded R failing cr info x" and n: "Now R w = (n, w')"
    and old: "failing \<or> condition_status x ConditionFailed = Some ConditionFalse"
  shows "recorded R True cr info (with_condition (time_UTC n) ConditionFailed ConditionTrue rs msg x)"
proof -
  let ?y = "with_condition (time_UTC n) ConditionFailed ConditionTrue rs msg x"
  have "\<exists>c w. condition (st_Conditions (cr_Status ?y)) ConditionFailed = Some c
      \<and> co_LastTransitionTime c = time_UTC (fst (Now R w))"
  proof (cases failing)
    case True
    with x obtain c v where "condition (st_Conditions (cr_Status x)) ConditionFailed = Some c"
      "co_Status c = ConditionTrue" "co_LastTransitionTime c = time_UTC (fst (Now R v))"
      by (auto simp: recorded_def condition_status_def)
    then show ?thesis
      by (auto simp: with_condition_def condition_upsert merge_condition_def)
  next
    case False
    with old obtain c where "condition (st_Conditions (cr_Status x)) ConditionFailed = Some c"
      "co_Status c = ConditionFalse" by (auto simp: condition_status_def)
    then show ?thesis using n
      by (auto simp: with_condition_def condition_upsert merge_condition_def go_consts intro!: exI [of _ w])
  qed
  with x show ?thesis by (auto simp: recorded_def)
qed

lemma wp_poll_record_unwritten:
  assumes "sfsti s = cr" and "status_writes (calls s) = []"
  shows "wp (poll_record R info) (\<lambda>_ t. unwritten R False cr info t
    \<and> hasConditionTrue (sfsti t) ConditionExpanding = hasConditionTrue cr ConditionExpanding) s"
proof -
  have "hasConditionTrue (x\<lparr>cr_Status := (cr_Status x)\<lparr>st_ExportPath := p, st_Size := n,
      st_ObservedGeneration := g\<rparr>\<rparr>) t = hasConditionTrue x t" for x p n g t
    by (simp add: hasConditionTrue_def)
  then show ?thesis
    using assms by (auto simp: poll_record_def wp_rules unwritten_def recorded_def)
qed

lemma wp_patch_then_written:
  assumes "status_writes (calls s) = []" and "recorded R failing cr info (sfsti s)" and "writes_none k"
  shows "wp (patch_then R k) (\<lambda>_. written R failing cr info) s"
proof -
  have "wp k (\<lambda>_. written R failing cr info) t" if "status_writes (calls t) = [sfsti s]" for t
    by (rule wp_emits [OF assms(3)]) (use that assms(2) in \<open>auto simp: written_def dest!: status_writes_none\<close>)
  then show ?thesis using assms(1,2)
    by (auto simp: patch_then_def wp_rules written_def split: sum.split)
qed

lemma wp_report_failure_written:
  assumes "unwritten R failing cr info s" and "t = ConditionFailed \<and> st = ConditionTrue \<or> t = ConditionUpdatingSecurityGroup"
  shows "wp (report_failure R t st rs e) (\<lambda>_. written R failing cr info) s"
proof -
  have "recorded R failing cr info (with_condition (time_UTC n) t st rs (error_text e) (sfsti s))"
    if n: "Now R (world s) = (n, w)" for n w
    using assms(2)
  proof
    assume "t = ConditionFailed \<and> st = ConditionTrue"
    then show ?thesis using assms(1) recorded_weaken [OF recorded_fail [OF _ n]] by (auto simp: unwritten_def)
  next
    assume "t = ConditionUpdatingSecurityGroup"
    then show ?thesis using assms(1) recorded_with_other [of R failing cr info "sfsti s" t] by (simp add: unwritten_def)
  qed
  then show ?thesis using assms(1)
    by (auto simp: report_failure_def wp_rules written_def unwritten_def split: sum.split)
qed

lemma wp_poll_grow_written:
  assumes "unwritten R failing cr info s"
  shows "wp (poll_grow R info) (\<lambda>_. written R failing cr info) s"
proof -
  have "unwritten R failing cr info (s\<lparr>world := w, calls := calls s @ [CallExpand i n r]\<rparr>)" for w i n r
    using assms by (simp add: unwritten_def)
  moreover have "writes_none (State_Monad.return x :: ('a, outcome) rec)" for x by (rule emits_return)
  ultimately show ?thesis using assms
    by (auto simp: poll_grow_def wp_bind wp_gets wp_if wp_invoke_eq wp_case_option wp_setCondition
        split: option.split
        intro!: wp_report_failure_written wp_patch_then_written recorded_with_other)
      (auto simp: unwritten_def)
qed

text \<open>The parts of the branch that write nothing: whether the Failed condition has to be True.\<close>

definition shrinking :: "SfsTurboInstance \<Rightarrow> ShareInfo \<Rightarrow> bool" where
  "shrinking cr info \<longleftrightarrow> 0 < sint (si_Size info) \<and> sint (sp_Size (cr_Spec cr)) < sint (si_Size info)"

definition growing :: "SfsTurboInstance \<Rightarrow> ShareInfo \<Rightarrow> bool" where
  "growing cr info \<longleftrightarrow> 0 < sint (si_Size info) \<and> sint (si_Size info) < sint (sp_Size (cr_Spec cr))"

lemma unwritten_fail:
  assumes "unwritten R failing cr info s" and "Now R (world s) = (n, w)"
  shows "unwritten R True cr info (s\<lparr>world := w, sfsti := with_condition (time_UTC n) ConditionFailed ConditionTrue rs msg (sfsti s)\<rparr>)"
  using assms recorded_fail [of R failing cr info "sfsti s" "world s" n w rs msg] by (auto simp: unwritten_def)

lemma unwritten_spec: "unwritten R failing cr info s \<Longrightarrow> spec_of s = cr_Spec cr"
  by (simp add: unwritten_def recorded_def)

lemma wp_poll_resize_written:
  assumes "unwritten R False cr info s"
  shows "wp (poll_resize R info) (\<lambda>r t. case r of
      Some _ \<Rightarrow> growing cr info \<and> written R False cr info t
    | None \<Rightarrow> \<not> growing cr info \<and> unwritten R (shrinking cr info) cr info t) s"
  using assms unwritten_spec [OF assms]
  by (auto simp: poll_resize_def wp_rules growing_def shrinking_def
      intro!: wp_mono [OF wp_poll_grow_written] unwritten_fail)
    (auto simp: unwritten_def intro!: recorded_with_other)

lemma wp_poll_immutable_written:
  assumes "unwritten R failing cr info s"
  shows "wp (poll_immutable R info)
    (\<lambda>_. unwritten R (failing \<or> immutableDrift (cr_Spec cr) info \<noteq> []) cr info) s"
  using assms unwritten_spec [OF assms]
  by (auto simp: poll_immutable_def wp_rules Let_def intro!: unwritten_fail)

lemma recorded_security_group [simp]:
  "recorded R failing cr info (x\<lparr>cr_Status := (cr_Status x)\<lparr>st_SecurityGroupId := g\<rparr>\<rparr>)
     \<longleftrightarrow> recorded R failing cr info x"
  "recorded R failing cr info (x\<lparr>cr_Status := (cr_Status x)\<lparr>st_Tags := m\<rparr>\<rparr>) \<longleftrightarrow> recorded R failing cr info x"
  by (simp_all add: recorded_def condition_status_def)

lemma condition_status_security_group [simp]:
  "condition_status (x\<lparr>cr_Status := (cr_Status x)\<lparr>st_SecurityGroupId := g\<rparr>\<rparr>) t = condition_status x t"
  by (simp add: condition_status_def)

lemma wp_poll_sg_drift_written:
  assumes "unwritten R failing cr info s"
  shows "wp (poll_sg_drift R info) (\<lambda>_. written R failing cr info) s"
proof -
  have "unwritten R failing cr info (s\<lparr>world := w, calls := calls s @ [CallChangeSecurityGroup i g r]\<rparr>)" for w i g r
    using assms by (simp add: unwritten_def)
  then show ?thesis using assms
    by (auto simp: poll_sg_drift_def wp_bind wp_return wp_gets wp_if wp_invoke_eq wp_case_option wp_modify wp_setCondition
        split: option.split
        intro!: wp_report_failure_written wp_patch_then_written recorded_with_other emits_return)
      (auto simp: unwritten_def)
qed

lemma wp_poll_sg_settled_written:
  "unwritten R failing cr info s \<Longrightarrow> wp (poll_sg_settled R info) (\<lambda>_. unwritten R failing cr info) s"
  by (auto simp: poll_sg_settled_def wp_rules unwritten_def intro!: recorded_with_other)

lemma tags_outcome_object:
  assumes "tags_outcome s None t"
  obtains x live n where "x = sfsti s \<or> x = with_condition n ConditionReady ConditionTrue ReasonTagsReconciled
      ''tags reconciled to spec'' (sfsti s)" "sfsti t = x\<lparr>cr_Status := (cr_Status x)\<lparr>st_Tags := live\<rparr>\<rparr>"
proof -
  let ?x = "\<lambda>n cs. if cs = [] then sfsti s else with_condition n ConditionReady ConditionTrue ReasonTagsReconciled
      ''tags reconciled to spec'' (sfsti s)"
  from assms obtain a :: "err + gomap" and cs :: "call list" and live n where
    "sfsti t = (?x n cs)\<lparr>cr_Status := (cr_Status (?x n cs))\<lparr>st_Tags := reconciled_tags (sp_Tags (spec_of s)) live\<rparr>\<rparr>"
    unfolding tags_outcome_def Let_def
    by (elim exE conjE) (simp only: simp_thms if_True option.distinct split: sum.split_asm, elim conjE exE, rule that)
  then show ?thesis by (intro that [of "?x n cs" n]) auto
qed

lemma wp_poll_tags_written:
  assumes un: "unwritten R failing cr info s" and wf: "wf_map (sp_Tags (cr_Spec cr))"
  shows "wp (poll_tags R info) (\<lambda>_ t. status_writes (calls t) = [] \<and> recorded R failing cr info (sfsti t)) s"
proof -
  have tags: "wp (reconcileTagsDrift R) (\<lambda>r t. status_writes (calls t) = [] \<and> recorded R failing cr info (sfsti t)
      \<and> (if r = None then True else sfsti t = sfsti s)) s"
  proof (rule wp_runI)
    fix r t
    assume run: "run_state (reconcileTagsDrift R) s = (r, t)"
    have rec: "recorded R failing cr info (sfsti s)" using un by (simp add: unwritten_def)
    from reconcileTagsDrift_outcome [OF _ run] wf unwritten_spec [OF un] have out: "tags_outcome s r t" by simp
    have same: "r = None \<or> sfsti t = sfsti s"
      using out unfolding tags_outcome_def by (elim exE conjE) (simp split: sum.splits if_splits)
    have "recorded R failing cr info (sfsti t)"
    proof (cases r)
      case None
      with out have "tags_outcome s None t" by simp
      then obtain x live n where
        x: "x = sfsti s \<or> x = with_condition n ConditionReady ConditionTrue ReasonTagsReconciled
          ''tags reconciled to spec'' (sfsti s)" and t: "sfsti t = x\<lparr>cr_Status := (cr_Status x)\<lparr>st_Tags := live\<rparr>\<rparr>"
        by (rule tags_outcome_object)
      from x rec recorded_ready [OF rec] have "recorded R failing cr info x" by auto
      with t show ?thesis by simp
    qed (use same rec in simp)
    moreover obtain cs where "calls t = calls s @ cs" "list_all (\<lambda>c. status_writes [c] = []) cs"
      by (rule emitsD [OF writes_none_tags run])
    then have "status_writes (calls t) = []" using un status_writes_none [of cs] by (simp add: unwritten_def)
    ultimately show "status_writes (calls t) = [] \<and> recorded R failing cr info (sfsti t)
        \<and> (if r = None then True else sfsti t = sfsti s)" using same by auto
  qed
  have fail: "recorded R failing cr info (with_condition (time_UTC n) ConditionFailed ConditionTrue rs msg (sfsti s))"
    if "Now R v = (n, v')" for n v v' rs msg
    using un recorded_weaken [OF recorded_fail [OF _ that]] by (auto simp: unwritten_def)
  have "status_writes (calls s) = []" "recorded R failing cr info (sfsti s)"
    using un by (simp_all add: unwritten_def)
  then show ?thesis
    by (auto simp: poll_tags_def wp_rules split: option.split intro!: wp_mono [OF tags] intro: fail)
qed

lemma wp_poll_drift_written:
  fixes R :: "'w Reconciler"
  assumes un: "unwritten R failing cr info s" and wf: "wf_map (sp_Tags (cr_Spec cr))"
  shows "wp (poll_drift R info) (\<lambda>_. written R (failing \<or> immutableDrift (cr_Spec cr) info \<noteq> []) cr info) s"
proof -
  let ?F = "failing \<or> immutableDrift (cr_Spec cr) info \<noteq> []"
  have finish: "wp (poll_finish R) (\<lambda>_. written R ?F cr info) t"
    if "status_writes (calls t) = [] \<and> recorded R ?F cr info (sfsti t)" for t
    unfolding poll_finish_def
    by (intro wp_patch_then_written emits_rules writes_none_ensure) (use that in auto)
  have "wp (poll_sg_settled R info) (\<lambda>_. wp (poll_tags R info) (\<lambda>_. wp (poll_finish R) (\<lambda>_. written R ?F cr info))) t"
    if "unwritten R ?F cr info t" for t
    by (intro wp_mono [OF wp_poll_sg_settled_written [OF that]] wp_mono [OF wp_poll_tags_written [OF _ wf]] finish)
  then show ?thesis
    unfolding poll_drift_def wp_bind
    by (intro wp_mono [OF wp_poll_immutable_written [OF un]])
      (auto simp: wp_gets wp_bind wp_if intro!: wp_poll_sg_drift_written)
qed

text \<open>The condition under which the available branch reports a refusal.\<close>

definition refused :: "SfsTurboInstance \<Rightarrow> ShareInfo \<Rightarrow> bool" where
  "refused cr info \<longleftrightarrow> \<not> growing cr info \<and> (shrinking cr info \<or> immutableDrift (cr_Spec cr) info \<noteq> [])"

lemma wp_poll_available_written:
  fixes R :: "'w Reconciler"
  assumes "sfsti s = cr" and "status_writes (calls s) = []" and "wf_map (sp_Tags (cr_Spec cr))"
  shows "wp (poll_available R info) (\<lambda>_. written R (refused cr info) cr info) s"
  unfolding poll_available_def wp_bind
proof (rule wp_mono [OF wp_poll_record_unwritten [OF assms(1,2)]], elim conjE)
  fix t :: "'w pass"
  assume un: "unwritten R False cr info t"
  show "wp (poll_resize R info) (\<lambda>r. wp (case r of
       None \<Rightarrow> poll_drift R info | Some r \<Rightarrow> State_Monad.return r) (\<lambda>_. written R (refused cr info) cr info)) t"
  proof (rule wp_mono [OF wp_poll_resize_written [OF un]])
    fix r :: "outcome option" and u :: "'w pass"
    assume "case r of Some _ \<Rightarrow> growing cr info \<and> written R False cr info u
      | None \<Rightarrow> \<not> growing cr info \<and> unwritten R (shrinking cr info) cr info u"
    then show "wp (case r of None \<Rightarrow> poll_drift R info | Some r \<Rightarrow> State_Monad.return r)
        (\<lambda>_. written R (refused cr info) cr info) u"
      using wp_poll_drift_written [OF _ assms(3), of R "shrinking cr info" info u]
      by (cases r) (auto simp: wp_return refused_def)
  qed
qed

text \<open>
  C16. A pass that finds the file system available writes the status exactly once, and
  that status carries what the API reported: export path, size, the generation it
  stands for, Ready True and Provisioning False, on an unchanged spec. If the spec asks
  for less than the size reported, or differs in an immutable field (and does not ask
  for more), it also says Failed True; the transition time of that condition was then
  read from the clock in this pass, also when the CR said Failed True before, because the pass
  first sets the condition to False: a lasting refusal is dated anew by every pass.
\<close>

theorem available_is_recorded:
  assumes "kGetCR (Client R) req w = (Inr cr, w1)" and "active (Lib R) cr" and "st_FsId (cr_Status cr) \<noteq> []"
    and "Get (Huawei R) (st_FsId (cr_Status cr)) w1 = (Inr info, w2)" and "IsAvailable (si_Status info)"
    and "wf_map (sp_Tags (cr_Spec cr))"
  shows "\<exists>x. status_writes (pass_calls R req w) = [x] \<and> recorded R (refused cr info) cr info x"
proof -
  have "wp (reconcile_body R req) (\<lambda>_. written R (refused cr info) cr info) (start w)"
    using assms
    by (auto simp: reconcile_body_def reconcilePoll_def wp_rules active_def deleting_def protected_def
        intro!: wp_poll_available_written)
  then obtain r t where "written R (refused cr info) cr info t" "pass R req w =
      (r, t\<lparr>calls := calls t @ [MetricReconcileTotal (nn_Namespace req) (outcome_label r)]\<rparr>)"
    by (rule pass_body)
  then show ?thesis by (auto simp: written_def pass_calls_def)
qed

text \<open>A CR that asks for less than its file system has, and said so before, at time 7.\<close>

definition demo_shrunk :: SfsTurboInstance where
  "demo_shrunk = demo_tracked\<lparr>cr_Spec := demo_spec\<lparr>sp_Size := 100\<rparr>,
     cr_Status := (cr_Status demo_tracked)\<lparr>st_Conditions := [\<lparr>co_Type = ConditionFailed,
       co_Status = ConditionTrue, co_Reason = ReasonShrinkRefused, co_Message = [],
       co_LastTransitionTime = \<lparr>wall = 7, mono = None\<rparr>, co_ObservedGeneration = 1\<rparr>]\<rparr>\<rparr>"

theorem available_is_recorded_witness:
  "\<exists>x c. status_writes (pass_calls (scripted (demo_script\<lparr>a_cr := Inr demo_shrunk\<rparr>)) demo_req ()) = [x]
     \<and> condition (st_Conditions (cr_Status x)) ConditionFailed = Some c
     \<and> co_LastTransitionTime c = time_UTC demo_time
     \<and> condition_status demo_shrunk ConditionFailed = condition_status x ConditionFailed"
proof -
  define R where "R = scripted (demo_script\<lparr>a_cr := Inr demo_shrunk\<rparr>)"
  have "kGetCR (Client R) demo_req () = (Inr demo_shrunk, ())" and "active (Lib R) demo_shrunk"
    and "st_FsId (cr_Status demo_shrunk) \<noteq> []"
    and "Get (Huawei R) (st_FsId (cr_Status demo_shrunk)) () = (Inr demo_info, ())"
    and "IsAvailable (si_Status demo_info)" and "wf_map (sp_Tags (cr_Spec demo_shrunk))"
    by (simp_all add: R_def demo_shrunk_def demo_defs active_def deleting_def protected_def
        timestamp_IsZero_def IsAvailable_def wf_map_def)
  from available_is_recorded [OF this] obtain x where
    w: "status_writes (pass_calls R demo_req ()) = [x]"
    and x: "recorded R (refused demo_shrunk demo_info) demo_shrunk demo_info x" by auto
  have "refused demo_shrunk demo_info" and clock: "fst (Now R v) = demo_time" for v
    by (simp_all add: refused_def growing_def shrinking_def demo_shrunk_def demo_defs R_def)
  with x have "condition_status x ConditionFailed = Some ConditionTrue"
    and "\<exists>c. condition (st_Conditions (cr_Status x)) ConditionFailed = Some c \<and> co_LastTransitionTime c = time_UTC demo_time"
    by (auto simp: recorded_def)
  moreover have "condition_status demo_shrunk ConditionFailed = Some ConditionTrue"
    by (simp add: condition_status_def demo_shrunk_def)
  ultimately show ?thesis
    unfolding R_def [symmetric] using w by auto
qed

section \<open>A file system that is gone\<close>

lemma missing_pass:
  assumes "kGetCR (Client R) req w = (Inr cr, w1)" and "active (Lib R) cr" and "st_FsId (cr_Status cr) \<noteq> []"
    and "Get (Huawei R) (st_FsId (cr_Status cr)) w1 = (Inl e, w2)" and "is_ErrFsNotFound e"
  shows "\<exists>x a r. pass_calls R req w = [CallGetCR req (Inr cr), CallGet (st_FsId (cr_Status cr)) (Inl e),
        CallStatusUpdate x a, MetricReconcileTotal (nn_Namespace req) (outcome_label r)]
    \<and> cr_Spec x = cr_Spec cr \<and> st_FsId (cr_Status x) = [] \<and> st_ExportPath (cr_Status x) = []
    \<and> condition_status x ConditionReady = Some ConditionFalse
    \<and> fst (pass R req w) = r \<and> RequeueAfter (fst r) = 1
    \<and> (snd r = None \<longleftrightarrow> (\<forall>f. a = Inl f \<longrightarrow> IsNotFound (Lib R) f))"
proof -
  have "wp (reconcile_body R req) (\<lambda>r t. \<exists>x a. calls t = [CallGetCR req (Inr cr),
        CallGet (st_FsId (cr_Status cr)) (Inl e), CallStatusUpdate x a]
    \<and> cr_Spec x = cr_Spec cr \<and> st_FsId (cr_Status x) = [] \<and> st_ExportPath (cr_Status x) = []
    \<and> condition_status x ConditionReady = Some ConditionFalse \<and> RequeueAfter (fst r) = 1
    \<and> (snd r = None \<longleftrightarrow> (\<forall>f. a = Inl f \<longrightarrow> IsNotFound (Lib R) f))) (start w)"
    using assms
    by (auto simp: reconcile_body_def reconcilePoll_def poll_missing_def wp_rules active_def deleting_def
        protected_def split: sum.split)
  then show ?thesis
    by (rule pass_body) (auto simp: pass_calls_def)
qed

section \<open>Growth\<close>

lemma hasConditionTrue_frame [simp]:
  "hasConditionTrue (x\<lparr>cr_Status := (cr_Status x)\<lparr>st_ExportPath := p, st_Size := n,
     st_ObservedGeneration := g\<rparr>\<rparr>) t = hasConditionTrue x t"
  by (simp add: hasConditionTrue_def)

lemma hasConditionTrue_set [simp]: "hasConditionTrue (with_condition n t ConditionTrue rs msg x) t"
proof -
  have "hasConditionTrue_in (upsertCondition c cs) (co_Type c)" if "co_Status c = ConditionTrue" for c cs
    using that by (induction cs) auto
  from this [of "\<lparr>co_Type = t, co_Status = ConditionTrue, co_Reason = rs, co_Message = msg,
      co_LastTransitionTime = n, co_ObservedGeneration = cr_Generation x\<rparr>"] show ?thesis
    by (simp add: hasConditionTrue_def with_condition_def)
qed

lemmas growth_branch_defs = reconcile_body_def reconcilePoll_def poll_available_def poll_record_def
  poll_resize_def poll_grow_def report_failure_def active_def deleting_def protected_def growing_def
  requeueProvisioning_def

text \<open>
  Growth: on an available file system smaller than the spec asks for, with no
  expansion recorded, the pass issues exactly one \<open>Expand\<close>, to the size of the spec, and
  one status write. If \<open>Expand\<close> was accepted the status says Expanding True and the pass
  asks to be called again after 30 s; if not, its error is returned.
\<close>

lemma growth_expands_once:
  assumes "kGetCR (Client R) req w = (Inr cr, w1)" and "active (Lib R) cr" and "st_FsId (cr_Status cr) \<noteq> []"
    and "Get (Huawei R) (st_FsId (cr_Status cr)) w1 = (Inr info, w2)" and "IsAvailable (si_Status info)"
    and "growing cr info" and "\<not> hasConditionTrue cr ConditionExpanding"
  shows "\<exists>x a r e. pass_calls R req w = [CallGetCR req (Inr cr), CallGet (st_FsId (cr_Status cr)) (Inr info),
        CallExpand (st_FsId (cr_Status cr)) (sp_Size (cr_Spec cr)) e,
        CallStatusUpdate x a, MetricReconcileTotal (nn_Namespace req) (outcome_label r)]
    \<and> fst (pass R req w) = r
    \<and> (case e of Some f \<Rightarrow> r = (no_requeue, Some f)
       | None \<Rightarrow> r = after_patch (Lib R) (\<lparr>RequeueAfter = 30 * second\<rparr>, None) a
           \<and> hasConditionTrue x ConditionExpanding)"
proof -
  have "wp (reconcile_body R req) (\<lambda>r t. \<exists>x a e. calls t = [CallGetCR req (Inr cr),
        CallGet (st_FsId (cr_Status cr)) (Inr info), CallExpand (st_FsId (cr_Status cr)) (sp_Size (cr_Spec cr)) e,
        CallStatusUpdate x a]
    \<and> (case e of Some f \<Rightarrow> r = (no_requeue, Some f)
       | None \<Rightarrow> r = after_patch (Lib R) (\<lparr>RequeueAfter = 30 * second\<rparr>, None) a
           \<and> hasConditionTrue x ConditionExpanding)) (start w)"
    using assms by (auto simp: growth_branch_defs wp_rules split: sum.split option.split)
  then show ?thesis
    by (rule pass_body) (auto simp: pass_calls_def)
qed

lemma growth_expands_once_example:
  "\<exists>x a r e. pass_calls (scripted (demo_script\<lparr>a_cr := Inr demo_growing\<rparr>)) demo_req () =
     [CallGetCR demo_req (Inr demo_growing), CallGet ''fs-1'' (Inr demo_info), CallExpand ''fs-1'' 600 e,
      CallStatusUpdate x a, MetricReconcileTotal ''team'' (outcome_label r)]"
proof -
  define R where "R = scripted (demo_script\<lparr>a_cr := Inr demo_growing\<rparr>)"
  have "kGetCR (Client R) demo_req () = (Inr demo_growing, ())" and "active (Lib R) demo_growing"
    and "st_FsId (cr_Status demo_growing) \<noteq> []"
    and "Get (Huawei R) (st_FsId (cr_Status demo_growing)) () = (Inr demo_info, ())"
    and "IsAvailable (si_Status demo_info)" and "growing demo_growing demo_info"
    and "\<not> hasConditionTrue demo_growing ConditionExpanding"
    by (simp_all add: R_def demo_growing_def demo_defs active_def deleting_def protected_def growing_def
        timestamp_IsZero_def IsAvailable_def hasConditionTrue_def)
  moreover have "st_FsId (cr_Status demo_growing) = ''fs-1''" "sp_Size (cr_Spec demo_growing) = 600"
    "nn_Namespace demo_req = ''team''"
    by (simp_all add: demo_growing_def demo_defs demo_req_def)
  ultimately show ?thesis
    using growth_expands_once [of R demo_req "()" demo_growing "()" demo_info "()"]
    unfolding R_def [symmetric] by metis
qed

text \<open>
  C22. The Expanding condition blocks growth: while the CR carries Expanding True and the
  file system is available below the size of the spec, a pass issues no Huawei call
  except the \<open>Get\<close>, and the status it writes carries Expanding True again, on the same
  spec and file system. So the next pass is blocked in the same way as long as the API reports a
  size below \<open>spec.size\<close>: a second increase of \<open>spec.size\<close>, made before the
  first expansion completed, or an expansion that the backend gave up is not issued again.
\<close>

theorem expanding_mark_blocks_growth:
  assumes "kGetCR (Client R) req w = (Inr cr, w1)" and "active (Lib R) cr" and "st_FsId (cr_Status cr) \<noteq> []"
    and "Get (Huawei R) (st_FsId (cr_Status cr)) w1 = (Inr info, w2)" and "IsAvailable (si_Status info)"
    and "growing cr info" and "hasConditionTrue cr ConditionExpanding"
  shows "\<exists>x a r. pass_calls R req w = [CallGetCR req (Inr cr), CallGet (st_FsId (cr_Status cr)) (Inr info),
        CallStatusUpdate x a, MetricReconcileTotal (nn_Namespace req) (outcome_label r)]
    \<and> fst (pass R req w) = r \<and> r = after_patch (Lib R) (\<lparr>RequeueAfter = 30 * second\<rparr>, None) a
    \<and> hasConditionTrue x ConditionExpanding \<and> cr_Spec x = cr_Spec cr
    \<and> st_FsId (cr_Status x) = st_FsId (cr_Status cr)"
proof -
  have "wp (reconcile_body R req) (\<lambda>r t. \<exists>x a. calls t = [CallGetCR req (Inr cr),
        CallGet (st_FsId (cr_Status cr)) (Inr info), CallStatusUpdate x a]
    \<and> r = after_patch (Lib R) (\<lparr>RequeueAfter = 30 * second\<rparr>, None) a
    \<and> hasConditionTrue x ConditionExpanding \<and> cr_Spec x = cr_Spec cr
    \<and> st_FsId (cr_Status x) = st_FsId (cr_Status cr)) (start w)"
    using assms by (auto simp: growth_branch_defs wp_rules split: sum.split option.split)
  then show ?thesis
    by (rule pass_body) (auto simp: pass_calls_def)
qed

text \<open>\<open>demo_growing\<close> with an expansion recorded.\<close>

definition demo_expanding :: SfsTurboInstance where
  "demo_expanding = with_condition demo_time ConditionExpanding ConditionTrue ReasonFsExpandPending [] demo_growing"

theorem expanding_mark_blocks_growth_witness:
  "sp_Size (cr_Spec demo_expanding) = 600 \<and> si_Size demo_info = 500 \<and>
   (\<exists>x a r. pass_calls (scripted (demo_script\<lparr>a_cr := Inr demo_expanding\<rparr>)) demo_req () =
     [CallGetCR demo_req (Inr demo_expanding), CallGet ''fs-1'' (Inr demo_info),
      CallStatusUpdate x a, MetricReconcileTotal ''team'' (outcome_label r)])"
proof -
  define R where "R = scripted (demo_script\<lparr>a_cr := Inr demo_expanding\<rparr>)"
  have "kGetCR (Client R) demo_req () = (Inr demo_expanding, ())" and "active (Lib R) demo_expanding"
    and "st_FsId (cr_Status demo_expanding) \<noteq> []"
    and "Get (Huawei R) (st_FsId (cr_Status demo_expanding)) () = (Inr demo_info, ())"
    and "IsAvailable (si_Status demo_info)" and "growing demo_expanding demo_info"
    and "hasConditionTrue demo_expanding ConditionExpanding"
    by (simp_all add: R_def demo_expanding_def demo_growing_def demo_defs active_def deleting_def protected_def
        growing_def timestamp_IsZero_def IsAvailable_def)
  moreover have "st_FsId (cr_Status demo_expanding) = ''fs-1''" "sp_Size (cr_Spec demo_expanding) = 600"
    "nn_Namespace demo_req = ''team''" "si_Size demo_info = 500"
    by (simp_all add: demo_expanding_def demo_growing_def demo_defs demo_req_def)
  ultimately show ?thesis
    using expanding_mark_blocks_growth [of R demo_req "()" demo_expanding "()" demo_info "()"]
    unfolding R_def [symmetric] by metis
qed

section \<open>When the operator stops\<close>

text \<open>
  The pass found the file system of the CR available, at least as large as the spec asks
  and in the security group the spec pins, or broken.
\<close>

definition settled :: "SfsTurboInstance \<Rightarrow> call list \<Rightarrow> bool" where
  "settled cr cs \<longleftrightarrow> (\<exists>info. CallGet (st_FsId (cr_Status cr)) (Inr info) \<in> set cs \<and>
     (if IsAvailable (si_Status info)
      then \<not> growing cr info
        \<and> sp_SecurityGroupId (cr_Spec cr) \<in> {[], si_SecurityGroupId info}
      else IsErrored (si_Status info)))"

definition stops_settled :: "SfsTurboInstance \<Rightarrow> outcome \<Rightarrow> 'w pass \<Rightarrow> bool" where
  "stops_settled cr r s \<longleftrightarrow> (if r = (no_requeue, None) then settled cr (calls s) else True)"

lemma settled_more: "settled cr cs \<Longrightarrow> settled cr (cs @ ds)"
  by (auto simp: settled_def)

lemma wp_goes_on:
  "wp (report_failure R t st rs e) (stops_settled cr) s"
  "0 < d \<Longrightarrow> wp (patch_then R (State_Monad.return (\<lparr>RequeueAfter = d\<rparr>, None))) (stops_settled cr) s"
  by (auto simp: report_failure_def wp_rules stops_settled_def after_patch_def no_requeue_def split: sum.split)

lemma wp_poll_resize_settled:
  assumes "spec_of s = cr_Spec cr"
  shows "wp (poll_resize R info) (\<lambda>r t. case r of
      Some r' \<Rightarrow> stops_settled cr r' t | None \<Rightarrow> \<not> growing cr info \<and> spec_of t = cr_Spec cr \<and> calls t = calls s) s"
proof -
  have "wp (poll_grow R info) (stops_settled cr) t" for t
    by (auto simp: poll_grow_def wp_bind wp_gets wp_if wp_invoke_eq wp_case_option wp_setCondition
        split: option.split intro!: wp_goes_on)
      (simp_all add: requeueProvisioning_def second_def)
  then show ?thesis using assms
    by (auto simp: poll_resize_def wp_rules growing_def)
qed

lemma wp_poll_sg_drift_settled: "wp (poll_sg_drift R info) (stops_settled cr) s"
proof -
  have fail: "wp (report_failure R t st rs e) (\<lambda>r. stops_settled cr r) s" for t st rs e s
    by (rule wp_goes_on)
  show ?thesis
    by (auto simp: poll_sg_drift_def wp_bind wp_return wp_gets wp_if wp_invoke_eq wp_case_option wp_modify
        wp_setCondition split: option.split intro!: wp_goes_on fail)
      (simp_all add: requeueProvisioning_def second_def)
qed

lemma wp_poll_drift_settled:
  assumes "spec_of s = cr_Spec cr" and "\<not> growing cr info" and "IsAvailable (si_Status info)"
    and "CallGet (st_FsId (cr_Status cr)) (Inr info) \<in> set (calls s)"
  shows "wp (poll_drift R info) (stops_settled cr) s"
proof -
  have any: "emits (\<lambda>_. True) (poll_sg_settled R info)" "emits (\<lambda>_. True) (poll_tags R info)"
    "emits (\<lambda>_. True) (poll_finish R)" "emits (\<lambda>_. True) (poll_immutable R info)"
    by (rule emits_mono [OF quiet_poll_parts(3)] emits_mono [OF quiet_poll_parts(4)]
        emits_mono [OF quiet_poll_parts(5)] emits_mono [OF quiet_poll_parts(2)], simp)+
  have imm: "wp (poll_immutable R info) (\<lambda>_ t. spec_of t = cr_Spec cr \<and> calls t = calls s) s"
    using assms(1) by (auto simp: poll_immutable_def wp_rules Let_def)
  have tail: "wp (do { poll_sg_settled R info; poll_tags R info; poll_finish R }) (stops_settled cr) t"
    if "sp_SecurityGroupId (cr_Spec cr) \<in> {[], si_SecurityGroupId info}" "calls t = calls s" for t
  proof (rule wp_emits [OF emits_bind [OF any(1)]])
    show "emits (\<lambda>_. True) (do { poll_tags R info; poll_finish R })" by (intro emits_bind any)
    have ok: "settled cr (calls s)" using assms that by (auto simp: settled_def)
    show "stops_settled cr r u" if "calls u = calls t @ cs" for r u cs
      using settled_more [OF ok, of cs] that \<open>calls t = calls s\<close> by (simp add: stops_settled_def)
  qed
  show ?thesis
    unfolding poll_drift_def wp_bind [of "poll_immutable R info"]
    by (rule wp_mono [OF imm]) (auto simp: wp_bind [of "gets _"] wp_gets wp_if intro!: wp_poll_sg_drift_settled tail)
qed

text \<open>
  C2. The operator stops asking to be called again only when it is done: if a pass over
  an active CR ends without an error and without a requeue, then it saw the file
  system of that CR either in the error state, or available with no growth and no
  change of the security group outstanding. In every other case (creation, building, growth,
  security-group change, a file system that vanished) it asks for another pass or returns an
  error, which makes controller-runtime retry.
\<close>

theorem stops_only_when_settled:
  fixes R :: "'w Reconciler"
  assumes "kGetCR (Client R) req w = (Inr cr, w1)" and "active (Lib R) cr"
    and "fst (pass R req w) = (no_requeue, None)"
  shows "st_FsId (cr_Status cr) \<noteq> [] \<and> settled cr (pass_calls R req w)"
proof -
  have avail: "wp (poll_available R info) (stops_settled cr) s"
    if "spec_of s = cr_Spec cr" "CallGet (st_FsId (cr_Status cr)) (Inr info) \<in> set (calls s)" "IsAvailable (si_Status info)"
    for s :: "'w pass" and info
  proof -
    have rec: "wp (poll_record R info) (\<lambda>_ t. spec_of t = cr_Spec cr \<and> calls t = calls s) s"
      using that(1) by (auto simp: poll_record_def wp_rules)
    have drift: "wp (case a of None \<Rightarrow> poll_drift R info | Some r \<Rightarrow> State_Monad.return r) (stops_settled cr) u"
      if "case a of Some r' \<Rightarrow> stops_settled cr r' u | None \<Rightarrow> \<not> growing cr info \<and> spec_of u = cr_Spec cr \<and> calls u = calls t"
        "calls t = calls s" for a and t u :: "'w pass"
      using that \<open>CallGet _ _ \<in> _\<close> \<open>IsAvailable _\<close>
      by (cases a) (auto simp: wp_return intro: wp_poll_drift_settled)
    show ?thesis
      unfolding poll_available_def wp_bind
      by (rule wp_mono [OF rec], elim conjE, rule wp_mono [OF wp_poll_resize_settled]) (auto intro: drift)
  qed
  have tracked: "wp (reconcilePoll R) (stops_settled cr) s"
    if "spec_of s = cr_Spec cr" "st_FsId (status_of s) = st_FsId (cr_Status cr)" for s :: "'w pass"
    using that
    by (auto simp: reconcilePoll_def wp_bind wp_gets wp_if wp_invoke_eq wp_case_sum split: sum.split
        intro!: wp_goes_on avail)
      (auto simp: poll_missing_def poll_errored_def wp_rules stops_settled_def no_requeue_def settled_def
        requeueProvisioning_def second_def split: sum.split)
  have untracked: "wp (reconcileCreate R) (\<lambda>r _. r \<noteq> (no_requeue, None)) s" for s
    by (auto simp: reconcileCreate_def report_failure_def wp_rules after_patch_def no_requeue_def
        requeueProvisioning_def second_def split: sum.split)
  have "wp (reconcile_body R req) (\<lambda>r t. if st_FsId (cr_Status cr) = [] then r \<noteq> (no_requeue, None)
      else stops_settled cr r t) (start w)"
    using assms(1,2)
    by (auto simp: reconcile_body_def wp_rules active_def deleting_def protected_def intro!: tracked untracked)
  then obtain r t where
    "if st_FsId (cr_Status cr) = [] then r \<noteq> (no_requeue, None) else stops_settled cr r t"
    "pass R req w = (r, t\<lparr>calls := calls t @ [MetricReconcileTotal (nn_Namespace req) (outcome_label r)]\<rparr>)"
    by (rule pass_body)
  with assms(3) show ?thesis
    by (auto simp: pass_calls_def stops_settled_def intro!: settled_more split: if_splits)
qed

theorem stops_only_when_settled_witness:
  "settled demo_tracked (pass_calls (scripted (demo_script\<lparr>a_cr := Inr demo_tracked\<rparr>)) demo_req ())"
proof -
  define R where "R = scripted (demo_script\<lparr>a_cr := Inr demo_tracked\<rparr>)"
  have "kGetCR (Client R) demo_req () = (Inr demo_tracked, ())" and "active (Lib R) demo_tracked"
    by (simp_all add: R_def demo_defs active_def deleting_def protected_def timestamp_IsZero_def)
  moreover have "fst (pass R demo_req ()) = (no_requeue, None)"
    by (simp add: R_def pass_defs run_defs demo_defs IsAvailable_def hasConditionTrue_def
        with_condition_def go_consts immutableDrift_def IsSgChangeInFlight_def)
  ultimately show ?thesis
    using stops_only_when_settled [of R demo_req "()" demo_tracked "()"] unfolding R_def [symmetric] by blast
qed

end
