(* ===== verification/Runs.thy ===== *)
theory Runs
  imports Polling
begin

text \<open>
  Many passes over one CR: how the recorded file-system id moves, as an abstract step
  relation that every pass implements, and what follows for any sequence of passes.
\<close>

section \<open>What a log says about the id\<close>

text \<open>The ids of accepted creations, the not-found answers, and the failed status writes.\<close>

fun accepted :: "call list \<Rightarrow> string list" where
  "accepted [] = []"
| "accepted (CallCreate inp (Inr f) # cs) = f # accepted cs"
| "accepted (c # cs) = accepted cs"

fun not_found_answers :: "call list \<Rightarrow> nat" where
  "not_found_answers [] = 0"
| "not_found_answers (CallGet i (Inl e) # cs) = (if is_ErrFsNotFound e then 1 else 0) + not_found_answers cs"
| "not_found_answers (c # cs) = not_found_answers cs"

fun failed_writes :: "call list \<Rightarrow> nat" where
  "failed_writes [] = 0"
| "failed_writes (CallStatusUpdate x (Inl e) # cs) = Suc (failed_writes cs)"
| "failed_writes (c # cs) = failed_writes cs"

text \<open>The id that is stored after the calls, when it was \<open>i\<close> before: the last status write that succeeded counts.\<close>

fun stored_id :: "string \<Rightarrow> call list \<Rightarrow> string" where
  "stored_id i [] = i"
| "stored_id i (CallStatusUpdate x (Inr y) # cs) = stored_id (st_FsId (cr_Status x)) cs"
| "stored_id i (c # cs) = stored_id i cs"

lemma accepted_append [simp]: "accepted (cs @ ds) = accepted cs @ accepted ds"
  by (induction cs rule: accepted.induct) auto

lemma not_found_answers_append [simp]:
  "not_found_answers (cs @ ds) = not_found_answers cs + not_found_answers ds"
  by (induction cs rule: not_found_answers.induct) auto

lemma failed_writes_append [simp]: "failed_writes (cs @ ds) = failed_writes cs + failed_writes ds"
  by (induction cs rule: failed_writes.induct) auto

lemma accepted_Nil: "(\<And>inp f. CallCreate inp (Inr f) \<notin> set cs) \<Longrightarrow> accepted cs = []"
  by (induction cs rule: accepted.induct) auto

lemma not_found_answers_pos:
  "CallGet i (Inl e) \<in> set cs \<Longrightarrow> is_ErrFsNotFound e \<Longrightarrow> 0 < not_found_answers cs"
  by (induction cs rule: not_found_answers.induct) auto

lemma stored_id_same:
  "(\<And>x. x \<in> set (status_writes cs) \<Longrightarrow> st_FsId (cr_Status x) = i) \<Longrightarrow> stored_id i cs = i"
  by (induction i cs rule: stored_id.induct) auto

lemma stored_id_cases:
  obtains "stored_id i cs = i"
  | x where "x \<in> set (status_writes cs)" "stored_id i cs = st_FsId (cr_Status x)"
proof -
  have "stored_id i cs = i \<or> (\<exists>x \<in> set (status_writes cs). stored_id i cs = st_FsId (cr_Status x))"
    by (induction i cs rule: stored_id.induct) auto
  then show ?thesis using that by blast
qed

section \<open>The abstract step\<close>

text \<open>
  How the id moves in one pass: it stays and nothing was created; a creation was accepted
  and its id recorded, or accepted and lost to a failed write; or the file system was not
  found and the id forgotten.
\<close>

inductive id_step :: "call list \<Rightarrow> string \<Rightarrow> string \<Rightarrow> bool" where
  id_kept: "accepted cs = [] \<Longrightarrow> id_step cs i i"
| id_recorded: "accepted cs = [f] \<Longrightarrow> id_step cs [] f"
| id_lost: "accepted cs = [f] \<Longrightarrow> 0 < failed_writes cs \<Longrightarrow> id_step cs [] []"
| id_forgotten: "accepted cs = [] \<Longrightarrow> 0 < not_found_answers cs \<Longrightarrow> id_step cs i []"

inductive_cases id_step_tracked: "id_step cs (c # i) j"

text \<open>Status writes of a pass that does not create and does not get a not-found answer keep the id.\<close>

definition id_stays :: "SfsTurboInstance \<Rightarrow> 'w pass \<Rightarrow> bool" where
  "id_stays cr s \<longleftrightarrow>
     (\<forall>x \<in> set (status_writes (calls s)). st_FsId (cr_Status x) = st_FsId (cr_Status cr)
        \<or> 0 < not_found_answers (calls s) \<and> st_FsId (cr_Status x) = [])"

lemma wp_report_failure_stays:
  assumes "status_writes (calls s) = []" and "st_FsId (status_of s) = st_FsId (cr_Status cr)"
  shows "wp (report_failure R t st rs e) (\<lambda>_. id_stays cr) s"
  using assms by (auto simp: report_failure_def wp_rules id_stays_def split: sum.split)

lemma wp_patch_then_stays:
  assumes "status_writes (calls s) = []" and "st_FsId (status_of s) = st_FsId (cr_Status cr)" and "writes_none k"
  shows "wp (patch_then R k) (\<lambda>_. id_stays cr) s"
proof -
  have "wp k (\<lambda>_. id_stays cr) t" if "status_writes (calls t) = [sfsti s]" for t
    by (rule wp_emits [OF assms(3)]) (use that assms(2) in \<open>auto simp: id_stays_def dest!: status_writes_none\<close>)
  then show ?thesis using assms(1,2)
    by (auto simp: patch_then_def wp_rules id_stays_def split: sum.split)
qed

lemma writes_none_removeFinalizer: "writes_none (removeFinalizer R)"
  unfolding removeFinalizer_def by (intro emits_rules; simp)

lemma writes_none_cascade: "writes_none (cascadeDeletePVPVC R)"
  unfolding volume_defs Let_def by (intro emits_rules; simp)

lemma wp_no_write_stays:
  assumes "status_writes (calls s) = []" and "writes_none m"
  shows "wp m (\<lambda>_. id_stays cr) s"
  by (rule wp_emits [OF assms(2)]) (use assms(1) in \<open>auto simp: id_stays_def dest!: status_writes_none\<close>)

lemma wp_reconcileDelete_stays:
  assumes "status_writes (calls s) = []" and "st_FsId (status_of s) = st_FsId (cr_Status cr)"
  shows "wp (reconcileDelete R) (\<lambda>_. id_stays cr) s"
proof -
  have share: "wp (delete_share R) (\<lambda>_. id_stays cr) t"
    if "status_writes (calls t) = []" "st_FsId (status_of t) = st_FsId (cr_Status cr)" for t
    using that
    by (auto simp: delete_share_def wp_bind wp_gets wp_invoke_eq wp_case_option wp_setCondition split: option.split
        intro!: wp_report_failure_stays wp_patch_then_stays emits_return)
  have cascade: "wp (cascadeDeletePVPVC R) (\<lambda>_. wp (delete_share R) (\<lambda>_. id_stays cr)) t"
    if t: "status_writes (calls t) = []" "st_FsId (status_of t) = st_FsId (cr_Status cr)" for t
  proof (rule wp_cascade, rule share)
    fix r w cs
    assume "cascade_outcome (Lib R) (sfsti t) r cs"
    then have "status_writes cs = []"
      by cases (auto simp: pvc_delete_step_def pv_delete_step_def split: sum.split)
    then show "status_writes (calls (t\<lparr>world := w, calls := calls t @ cs\<rparr>)) = []" using t by simp
  qed (use t in simp)
  have live: "wp (delete_live R) (\<lambda>_. id_stays cr) t"
    if "status_writes (calls t) = []" "st_FsId (status_of t) = st_FsId (cr_Status cr)" for t
    using that
    by (auto simp: delete_live_def wp_bind wp_gets wp_if wp_return intro!: cascade share)
      (simp_all add: id_stays_def)
  show ?thesis using assms
    by (auto simp: reconcileDelete_def wp_bind wp_gets wp_if wp_return wp_invoke_eq wp_case_sum wp_setCondition
        split: sum.split intro!: wp_no_write_stays [OF _ writes_none_removeFinalizer] writes_none_removeFinalizer wp_report_failure_stays
          wp_patch_then_stays live)
      (simp_all add: id_stays_def)
qed

lemma wp_reconcilePoll_stays:
  assumes "status_writes (calls s) = []" and "sfsti s = cr" and "wf_map (sp_Tags (cr_Spec cr))"
  shows "wp (reconcilePoll R) (\<lambda>_. id_stays cr) s"
proof -
  have avail: "wp (poll_available R info) (\<lambda>_. id_stays cr) t" if "status_writes (calls t) = []" "sfsti t = cr" for t info
    by (rule wp_mono [OF wp_poll_available_written [OF that(2,1) assms(3)]])
      (auto simp: written_def id_stays_def recorded_def)
  have err: "wp (report_failure R t st rs e) (\<lambda>_. id_stays (sfsti s)) u"
    if "status_writes (calls u) = []" "st_FsId (status_of u) = st_FsId (status_of s)" for t st rs e u
    using that by (intro wp_report_failure_stays) auto
  show ?thesis using assms
    by (auto simp: reconcilePoll_def wp_bind wp_gets wp_if wp_invoke_eq wp_case_sum wp_return split: sum.split
        intro!: err avail [folded assms(2)])
      (auto simp: poll_missing_def poll_errored_def wp_rules id_stays_def split: sum.split)
qed

lemma wp_reconcile_body_stays:
  assumes "calls s = []" and "kGetCR (Client R) req (world s) = (Inr cr, w)" and "wf_map (sp_Tags (cr_Spec cr))"
    and "active (Lib R) cr \<Longrightarrow> st_FsId (cr_Status cr) \<noteq> []"
  shows "wp (reconcile_body R req) (\<lambda>_. id_stays cr) s"
  using assms
  by (auto simp: reconcile_body_def wp_bind wp_gets wp_if wp_invoke_eq wp_case_sum wp_return wp_modify
      wp_setCondition wp_patchStatus active_def deleting_def protected_def id_stays_def split: sum.split
      intro!: wp_reconcilePoll_stays wp_reconcileDelete_stays)

section \<open>Every pass is a step\<close>

lemma accepted_creations_only_untracked:
  assumes "log_ok L cr cs" and "\<not> (active L cr \<and> st_FsId (cr_Status cr) = [])"
  shows "accepted cs = []"
proof (rule accepted_Nil)
  fix inp f
  show "CallCreate inp (Inr f) \<notin> set cs"
    using assms by (auto simp: log_ok_def in_set_conv_nth dest: spec)
qed

lemma pass_unread:
  assumes "kGetCR (Client R) req w = (Inl e, w')"
  shows "pass_calls R req w = [CallGetCR req (Inl e), MetricReconcileTotal (nn_Namespace req) (outcome_label (fst (pass R req w)))]"
proof -
  have "wp (reconcile_body R req) (\<lambda>r t. calls t = [CallGetCR req (Inl e)]) (start w)"
    using assms by (auto simp: reconcile_body_def wp_rules)
  then show ?thesis by (rule pass_body) (auto simp: pass_calls_def)
qed

lemma pass_log_ok:
  assumes "kGetCR (Client R) req w = (Inr cr, w')" and "wf_map (sp_Tags (cr_Spec cr))"
  obtains cs where "log_ok (Lib R) cr cs"
    "pass_calls R req w = cs @ [MetricReconcileTotal (nn_Namespace req) (outcome_label (fst (pass R req w)))]"
proof -
  have "wp (reconcile_body R req) (safe (Lib R) cr) (start w)"
    by (rule wp_reconcile_body_safe) (use assms in simp_all)
  then obtain r t where "safe (Lib R) cr r t" "pass R req w =
      (r, t\<lparr>calls := calls t @ [MetricReconcileTotal (nn_Namespace req) (outcome_label r)]\<rparr>)"
    by (rule pass_body)
  then show ?thesis by (intro that [of "calls t"]) (simp_all add: pass_calls_def safe_def)
qed

lemma untracked_pass:
  assumes "kGetCR (Client R) req w = (Inr cr, w1)" and "active (Lib R) cr" and "st_FsId (cr_Status cr) = []"
  shows "id_step (pass_calls R req w) [] (stored_id [] (pass_calls R req w))"
proof (cases "Create (Huawei R) (create_input (cr_Spec cr)) w1")
  case (Pair a w2)
  show ?thesis
  proof (cases a)
    case (Inl e)
    have "wp (reconcile_body R req) (\<lambda>r t. \<exists>x a. calls t = [CallGetCR req (Inr cr),
        CallCreate (create_input (cr_Spec cr)) (Inl e), CallStatusUpdate x a] \<and> st_FsId (cr_Status x) = []) (start w)"
      using assms Pair Inl
      by (auto simp: reconcile_body_def reconcileCreate_def report_failure_def wp_rules active_def deleting_def
          protected_def split: sum.split)
    then obtain x a l where "pass_calls R req w = [CallGetCR req (Inr cr),
        CallCreate (create_input (cr_Spec cr)) (Inl e), CallStatusUpdate x a, MetricReconcileTotal (nn_Namespace req) l]"
      "st_FsId (cr_Status x) = []"
      by (rule pass_body) (auto simp: pass_calls_def)
    then show ?thesis by (cases a) (auto intro: id_kept)
  next
    case (Inr f)
    from creation_pass [OF assms, of f w2] Pair Inr obtain x a l where
      "pass_calls R req w = [CallGetCR req (Inr cr), CallCreate (create_input (cr_Spec cr)) (Inr f),
         CallStatusUpdate x a, MetricReconcileTotal (nn_Namespace req) l]" "st_FsId (cr_Status x) = f"
      by auto
    then show ?thesis by (cases a) (auto intro: id_recorded id_lost)
  qed
qed

lemma pass_is_id_step:
  assumes "kGetCR (Client R) req w = (Inr cr, w1)" and "wf_map (sp_Tags (cr_Spec cr))"
  shows "id_step (pass_calls R req w) (st_FsId (cr_Status cr)) (stored_id (st_FsId (cr_Status cr)) (pass_calls R req w))"
proof (cases "active (Lib R) cr \<and> st_FsId (cr_Status cr) = []")
  case True
  then show ?thesis using untracked_pass [OF assms(1)] by simp
next
  case False
  obtain cs where ok: "log_ok (Lib R) cr cs" and log: "pass_calls R req w =
      cs @ [MetricReconcileTotal (nn_Namespace req) (outcome_label (fst (pass R req w)))]"
    by (rule pass_log_ok [OF assms])
  have none: "accepted (pass_calls R req w) = []"
    using accepted_creations_only_untracked [OF ok False] by (simp add: log)
  have "wp (reconcile_body R req) (\<lambda>_. id_stays cr) (start w)"
    by (rule wp_reconcile_body_stays) (use assms False in simp_all)
  then have writes: "\<forall>x \<in> set (status_writes (pass_calls R req w)). st_FsId (cr_Status x) = st_FsId (cr_Status cr)
      \<or> 0 < not_found_answers (pass_calls R req w) \<and> st_FsId (cr_Status x) = []"
    by (rule pass_body) (auto simp: id_stays_def pass_calls_def)
  show ?thesis
  proof (cases rule: stored_id_cases [of "st_FsId (cr_Status cr)" "pass_calls R req w"])
    case 1
    with none show ?thesis by (auto intro: id_kept)
  next
    case (2 x)
    from bspec [OF writes 2(1)] show ?thesis
    proof
      assume "st_FsId (cr_Status x) = st_FsId (cr_Status cr)"
      with 2(2) none show ?thesis by (simp add: id_kept)
    next
      assume "0 < not_found_answers (pass_calls R req w) \<and> st_FsId (cr_Status x) = []"
      with 2(2) none show ?thesis by (simp add: id_forgotten)
    qed
  qed
qed

text \<open>
  C10. Refinement: every pass over a CR moves the stored id by one step of the abstract
  machine \<open>id_step\<close>: it keeps the id and creates nothing, or records the id of the one
  file system it created, or creates one and loses its id because the status write
  failed, or forgets the id because the file system was not found. In particular a pass
  over a CR with a recorded id creates nothing, and ends with that id or with none.
\<close>

theorem every_pass_is_id_step:
  assumes "kGetCR (Client R) req w = (Inr cr, w1)" and "wf_map (sp_Tags (cr_Spec cr))"
  shows "id_step (pass_calls R req w) (st_FsId (cr_Status cr)) (stored_id (st_FsId (cr_Status cr)) (pass_calls R req w))
    \<and> (st_FsId (cr_Status cr) = []
       \<or> accepted (pass_calls R req w) = []
         \<and> stored_id (st_FsId (cr_Status cr)) (pass_calls R req w) \<in> {st_FsId (cr_Status cr), []})"
  using pass_is_id_step [OF assms] by (cases "st_FsId (cr_Status cr)") (auto elim: id_step_tracked)

text \<open>Witness: the recorded file system is gone upstream.\<close>

definition demo_vanished :: "unit Reconciler" where
  "demo_vanished = scripted (demo_script\<lparr>a_cr := Inr demo_tracked, a_info := Inl ErrFsNotFound\<rparr>)"

theorem every_pass_is_id_step_witness:
  "id_step (pass_calls demo_vanished demo_req ()) ''fs-1'' []"
proof -
  have "kGetCR (Client demo_vanished) demo_req () = (Inr demo_tracked, ())"
    and "wf_map (sp_Tags (cr_Spec demo_tracked))" and "st_FsId (cr_Status demo_tracked) = ''fs-1''"
    by (simp_all add: demo_vanished_def demo_defs wf_map_def)
  moreover have "stored_id ''fs-1'' (pass_calls demo_vanished demo_req ()) = []"
    by (simp add: demo_vanished_def pass_defs run_defs demo_defs go_consts)
  ultimately show ?thesis
    using every_pass_is_id_step [of demo_vanished demo_req "()" demo_tracked "()"] by simp
qed

section \<open>Any sequence of passes\<close>

text \<open>
  Passes over one CR, one after the other, each from any state of the outside world: a pass
  that read the CR saw the id that the earlier ones stored. The log is that of all passes.
\<close>

inductive history :: "'w Reconciler \<Rightarrow> NamespacedName \<Rightarrow> string \<Rightarrow> string \<Rightarrow> call list \<Rightarrow> bool"
  for R req i where
  begin_history: "history R req i i []"
| next_pass: "history R req i j cs \<Longrightarrow> kGetCR (Client R) req w = (Inr cr, w')
    \<Longrightarrow> wf_map (sp_Tags (cr_Spec cr)) \<Longrightarrow> st_FsId (cr_Status cr) = j
    \<Longrightarrow> history R req i (stored_id j (pass_calls R req w)) (cs @ pass_calls R req w)"
| unread_pass: "history R req i j cs \<Longrightarrow> kGetCR (Client R) req w = (Inl e, w')
    \<Longrightarrow> history R req i j (cs @ pass_calls R req w)"

text \<open>How many file systems the calls created (an accepted creation with an id).\<close>

definition created :: "call list \<Rightarrow> nat" where
  "created cs = length (filter (\<lambda>f. f \<noteq> []) (accepted cs))"

text \<open>A recorded id is one file system that the operator knows of.\<close>

abbreviation known :: "string \<Rightarrow> nat" where
  "known i \<equiv> if i = [] then 0 else 1"

lemma created_append [simp]: "created (cs @ ds) = created cs + created ds"
  by (simp add: created_def)

lemma id_step_balance:
  "id_step cs i j \<Longrightarrow> known i + created cs \<le> known j + not_found_answers cs + failed_writes cs"
  by (cases rule: id_step.cases) (auto simp: created_def)

lemma history_balance:
  "history R req i j cs \<Longrightarrow> known i + created cs \<le> known j + not_found_answers cs + failed_writes cs"
proof (induction rule: history.induct)
  case begin_history
  then show ?case by (simp add: created_def)
next
  case (next_pass j cs w cr w')
  from id_step_balance [OF pass_is_id_step [OF next_pass.hyps(2,3)]] next_pass show ?case by simp
next
  case (unread_pass j cs w e w')
  from pass_unread [OF unread_pass.hyps(2)] unread_pass.IH show ?case by (simp add: created_def)
qed

text \<open>
  C9. File systems do not leak: over any sequence of passes over one CR, each seeing the
  status the earlier ones stored, the operator creates at most one file system more than
  there were not-found answers and failed status writes. So with neither it creates at
  most one, and none when an id was recorded before.
\<close>

theorem creations_are_bounded:
  assumes "history R req i j cs"
  shows "created cs + known i \<le> 1 + not_found_answers cs + failed_writes cs"
  using history_balance [OF assms] by (simp split: if_splits)

text \<open>
  Witness: two passes against a store that keeps the object; the first creates the file
  system and records it, the second reads the object with that id and finds the file
  system available.
\<close>

definition demo_store :: "SfsTurboInstance Reconciler" where
  "demo_store = \<lparr>
     Client = \<lparr>
       kGetCR = (\<lambda>_ w. (Inr w, w)),
       kUpdateCR = (\<lambda>cr w. (Inr cr, cr)),
       kStatusUpdate = (\<lambda>cr w. (Inr cr, w\<lparr>cr_Status := cr_Status cr\<rparr>)),
       kGetPV = (\<lambda>_ w. (Inl not_found_error, w)),
       kCreatePV = (\<lambda>_ w. (None, w)),
       kUpdatePV = (\<lambda>_ w. (None, w)),
       kDeletePV = (\<lambda>_ w. (None, w)),
       kGetPVC = (\<lambda>_ w. (Inl not_found_error, w)),
       kCreatePVC = (\<lambda>_ w. (None, w)),
       kDeletePVC = (\<lambda>_ w. (None, w))\<rparr>,
     Huawei = \<lparr>
       Create = (\<lambda>_ w. (Inr ''fs-1'', w)),
       Get = (\<lambda>_ w. (Inr demo_info, w)),
       Delete = (\<lambda>_ w. (None, w)),
       FindByName = (\<lambda>_ w. (Inl ErrFsNotFound, w)),
       Expand = (\<lambda>_ _ w. (None, w)),
       ListTags = (\<lambda>_ w. (Inr [], w)),
       AddTag = (\<lambda>_ _ _ w. (None, w)),
       DeleteTag = (\<lambda>_ _ w. (None, w)),
       ChangeSecurityGroup = (\<lambda>_ _ w. (None, w))\<rparr>,
     Lib = demo_library,
     Now = (\<lambda>w. (demo_time, w))\<rparr>"

theorem creations_are_bounded_witness:
  "\<exists>cs. history demo_store demo_req [] ''fs-1'' cs \<and> created cs = 1
     \<and> created cs + known [] \<le> 1 + not_found_answers cs + failed_writes cs"
proof -
  define cs where "cs = pass_calls demo_store demo_req demo_cr"
  define ds where "ds = pass_calls demo_store demo_req demo_tracked"
  have read: "kGetCR (Client demo_store) demo_req v = (Inr v, v)" for v
    by (simp add: demo_store_def)
  have ids: "st_FsId (cr_Status demo_cr) = []" "st_FsId (cr_Status demo_tracked) = ''fs-1''"
    and wf: "wf_map (sp_Tags (cr_Spec demo_cr))" "wf_map (sp_Tags (cr_Spec demo_tracked))"
    by (simp_all add: demo_tracked_def demo_cr_def demo_spec_def demo_status_def wf_map_def)
  have first: "stored_id [] cs = ''fs-1''" "created cs = 1"
    by (simp_all add: cs_def demo_store_def pass_defs run_defs demo_defs go_consts created_def)
  have second: "stored_id ''fs-1'' ds = ''fs-1''" "created ds = 0"
    by (simp_all add: ds_def demo_store_def pass_defs run_defs demo_defs go_consts created_def IsAvailable_def
        hasConditionTrue_def with_condition_def immutableDrift_def IsSgChangeInFlight_def)
  have "history demo_store demo_req [] ''fs-1'' (([] @ cs) @ ds)"
    using next_pass [OF next_pass [OF begin_history read wf(1) ids(1)] read wf(2)] first second ids
    by (simp add: cs_def ds_def)
  then have "history demo_store demo_req [] ''fs-1'' (cs @ ds)" by simp
  from creations_are_bounded [OF this] this first second show ?thesis by auto
qed

end
