(* ===== verification/Metrics.thy ===== *)
theory Metrics
  imports Runs
begin

text \<open>
  The Prometheus metrics (internal/metrics/metrics.go): their descriptions as data, the
  registration at package initialisation with the conditions under which the library panics, and the
  counter of reconcile outcomes as a reading of the log of a pass.
\<close>

section \<open>The metrics\<close>

text \<open>Histogram buckets are in thousandths of a second; a counter and a gauge have none.\<close>

record Metric =
  mt_Name :: string
  mt_Help :: string
  mt_Buckets :: "nat list"
  mt_Labels :: "string list"

definition ReconcileTotal :: Metric where
  "ReconcileTotal = \<lparr>mt_Name = ''huawei_sfs_operator_reconcile_total'',
     mt_Help = ''SfsTurboInstance reconcile attempts, labelled by outcome.'',
     mt_Buckets = [], mt_Labels = [''namespace'', ''result'']\<rparr>"

definition HuaweiAPISeconds :: Metric where
  "HuaweiAPISeconds = \<lparr>mt_Name = ''huawei_sfs_operator_huawei_api_seconds'',
     mt_Help = ''Wall-clock duration of HuaweiCloud SFS Turbo API calls.'',
     mt_Buckets = [50, 100, 250, 500, 1000, 2500, 5000, 10000, 30000],
     mt_Labels = [''op'', ''result'']\<rparr>"

definition FsLifecyclePhase :: Metric where
  "FsLifecyclePhase = \<lparr>mt_Name = ''huawei_sfs_operator_fs_phase'',
     mt_Help = ''Current condition phase for each SfsTurboInstance (1 = in this phase, 0 = not).'',
     mt_Buckets = [], mt_Labels = [''namespace'', ''name'', ''phase'']\<rparr>"

text \<open>The arguments of \<open>MustRegister\<close> in \<open>init\<close>.\<close>

definition registered_metrics :: "Metric list" where
  "registered_metrics = [ReconcileTotal, HuaweiAPISeconds, FsLifecyclePhase]"

text \<open>
  What the library documents: a metric's name and label names match \<open>[a-zA-Z_][a-zA-Z0-9_]*\<close>, its
  label names are distinct and do not start with two underscores, a histogram has no label \<open>le\<close> and its
  buckets increase, and no name is registered twice. Otherwise the process panics at start.
\<close>

definition letter :: "char \<Rightarrow> bool" where
  "letter c \<longleftrightarrow> 65 \<le> (of_char c :: nat) \<and> (of_char c :: nat) \<le> 90
     \<or> 97 \<le> (of_char c :: nat) \<and> (of_char c :: nat) \<le> 122 \<or> c = CHR ''_''"

definition metric_word :: "string \<Rightarrow> bool" where
  "metric_word s \<longleftrightarrow> (case s of [] \<Rightarrow> False | c # t \<Rightarrow> letter c \<and> (\<forall>d \<in> set t. letter d \<or> is_digit d))"

definition valid_metric :: "Metric \<Rightarrow> bool" where
  "valid_metric m \<longleftrightarrow> metric_word (mt_Name m) \<and> distinct (mt_Labels m)
     \<and> (\<forall>l \<in> set (mt_Labels m). metric_word l \<and> take 2 l \<noteq> ''__'')
     \<and> (mt_Buckets m \<noteq> [] \<longrightarrow> ''le'' \<notin> set (mt_Labels m)) \<and> sorted_wrt (<) (mt_Buckets m)"

lemma metrics_register:
  "(\<forall>m \<in> set registered_metrics. valid_metric m) \<and> distinct (map mt_Name registered_metrics)"
  by (simp add: registered_metrics_def ReconcileTotal_def HuaweiAPISeconds_def FsLifecyclePhase_def valid_metric_def
      metric_word_def letter_def is_digit_def)

section \<open>The counter of outcomes\<close>

text \<open>
  \<open>ReconcileTotal.WithLabelValues(ns, label).Inc()\<close> for each such event of a log: the counter's
  value for the given label values.
\<close>

definition reconcile_total :: "call list \<Rightarrow> string list \<Rightarrow> nat" where
  "reconcile_total cs values = length (filter (\<lambda>c. case c of
     MetricReconcileTotal ns label \<Rightarrow> [ns, label] = values | _ \<Rightarrow> False) cs)"

lemma reconcile_total_append [simp]:
  "reconcile_total (cs @ ds) values = reconcile_total cs values + reconcile_total ds values"
  by (simp add: reconcile_total_def)

text \<open>The calls before the outcome is known do not touch the counter.\<close>

lemma log_ok_silent: "log_ok L cr cs \<Longrightarrow> reconcile_total cs values = 0"
  by (induction cs rule: rev_induct) (auto simp: reconcile_total_def split: call.split)

text \<open>Every pass counts once, under its namespace and its outcome, with as many values as the vector has labels.\<close>

lemma pass_counts_once:
  assumes "kGetCR (Client R) req w = (Inr cr, w1) \<and> wf_map (sp_Tags (cr_Spec cr)) \<or> kGetCR (Client R) req w = (Inl e, w1)"
  shows "reconcile_total (pass_calls R req w) values =
      (if values = [nn_Namespace req, outcome_label (fst (pass R req w))] then 1 else 0)"
    and "length [nn_Namespace req, outcome_label (fst (pass R req w))] = length (mt_Labels ReconcileTotal)"
proof -
  obtain cs where silent: "reconcile_total cs values = 0" and log: "pass_calls R req w =
      cs @ [MetricReconcileTotal (nn_Namespace req) (outcome_label (fst (pass R req w)))]"
  proof (cases "kGetCR (Client R) req w = (Inl e, w1)")
    case True
    from pass_unread [OF True] show ?thesis
      by (intro that [of "[CallGetCR req (Inl e)]"]) (simp_all add: reconcile_total_def)
  next
    case False
    with assms have "kGetCR (Client R) req w = (Inr cr, w1)" "wf_map (sp_Tags (cr_Spec cr))" by auto
    then show ?thesis by (rule pass_log_ok) (rule that [OF log_ok_silent])
  qed
  from silent show "reconcile_total (pass_calls R req w) values =
      (if values = [nn_Namespace req, outcome_label (fst (pass R req w))] then 1 else 0)"
    by (auto simp: log reconcile_total_def)
qed (simp add: ReconcileTotal_def)

end
