(* ===== verification/Flags.thy ===== *)
theory Flags
  imports Golang
begin

text \<open>
  The command line of the operator (cmd/main.go): the variables its flags set, with their
  defaults, and \<open>flag.Parse\<close> of Go's standard library on them. The flags that libraries
  register on the same flag set (zap's, \<open>--kubeconfig\<close>) are a parameter.
\<close>

section \<open>The variables\<close>

record Options =
  metricsAddr :: string
  metricsCertPath :: string
  metricsCertName :: string
  metricsCertKey :: string
  webhookCertPath :: string
  webhookCertName :: string
  webhookCertKey :: string
  enableLeaderElection :: bool
  probeAddr :: string
  secureMetrics :: bool
  enableHTTP2 :: bool

definition default_options :: Options where
  "default_options = \<lparr>
     metricsAddr = ''0'', metricsCertPath = [], metricsCertName = ''tls.crt'', metricsCertKey = ''tls.key'',
     webhookCertPath = [], webhookCertName = ''tls.crt'', webhookCertKey = ''tls.key'',
     enableLeaderElection = False, probeAddr = '':8081'', secureMetrics = True, enableHTTP2 = False\<rparr>"

text \<open>The flags that main registers: \<open>flag.StringVar\<close> and \<open>flag.BoolVar\<close>, by name, with the variable each sets.\<close>

definition string_vars :: "(string \<times> (string \<Rightarrow> Options \<Rightarrow> Options)) list" where
  "string_vars =
     [(''metrics-bind-address'', \<lambda>v opts. opts\<lparr>metricsAddr := v\<rparr>),
      (''health-probe-bind-address'', \<lambda>v opts. opts\<lparr>probeAddr := v\<rparr>),
      (''webhook-cert-path'', \<lambda>v opts. opts\<lparr>webhookCertPath := v\<rparr>),
      (''webhook-cert-name'', \<lambda>v opts. opts\<lparr>webhookCertName := v\<rparr>),
      (''webhook-cert-key'', \<lambda>v opts. opts\<lparr>webhookCertKey := v\<rparr>),
      (''metrics-cert-path'', \<lambda>v opts. opts\<lparr>metricsCertPath := v\<rparr>),
      (''metrics-cert-name'', \<lambda>v opts. opts\<lparr>metricsCertName := v\<rparr>),
      (''metrics-cert-key'', \<lambda>v opts. opts\<lparr>metricsCertKey := v\<rparr>)]"

definition bool_vars :: "(string \<times> (bool \<Rightarrow> Options \<Rightarrow> Options)) list" where
  "bool_vars =
     [(''leader-elect'', \<lambda>v opts. opts\<lparr>enableLeaderElection := v\<rparr>),
      (''metrics-secure'', \<lambda>v opts. opts\<lparr>secureMetrics := v\<rparr>),
      (''enable-http2'', \<lambda>v opts. opts\<lparr>enableHTTP2 := v\<rparr>)]"

section \<open>flag.Parse\<close>

text \<open>\<open>strconv.ParseBool\<close>\<close>

definition ParseBool :: "string \<Rightarrow> bool option" where
  "ParseBool s =
     (if s \<in> {''1'', ''t'', ''T'', ''true'', ''TRUE'', ''True''} then Some True
      else if s \<in> {''0'', ''f'', ''F'', ''false'', ''FALSE'', ''False''} then Some False
      else None)"

text \<open>
  The flags of the libraries: whether a name is one, and whether it needs no value; and \<open>Set\<close>
  on their settings \<open>'z\<close>, \<open>None\<close> for an error.
\<close>

record 'z LibraryFlags =
  lf_Lookup :: "string \<Rightarrow> bool option"
  lf_Set :: "string \<Rightarrow> string \<Rightarrow> 'z \<Rightarrow> 'z option"

text \<open>Whether \<open>formal[name]\<close> exists and whether its value is a \<open>boolFlag\<close>.\<close>

definition formal :: "'z LibraryFlags \<Rightarrow> string \<Rightarrow> bool option" where
  "formal L name =
     (if name \<in> fst ` set string_vars then Some False
      else if name \<in> fst ` set bool_vars then Some True
      else lf_Lookup L name)"

definition set_flag :: "'z LibraryFlags \<Rightarrow> string \<Rightarrow> string \<Rightarrow> Options \<times> 'z \<Rightarrow> (Options \<times> 'z) option" where
  "set_flag L name v oz = (case oz of (opts, z) \<Rightarrow>
     (case map_of string_vars name of
        Some f \<Rightarrow> Some (f v opts, z)
      | None \<Rightarrow> (case map_of bool_vars name of
            Some f \<Rightarrow> map_option (\<lambda>b. (f b opts, z)) (ParseBool v)
          | None \<Rightarrow> map_option (Pair opts) (lf_Set L name v z))))"

text \<open>What one argument is to \<open>parseOne\<close>: no flag, the terminator, a syntax error, or a name and perhaps a value.\<close>

datatype argument = NoFlag | Terminator | BadSyntax | Flag string "string option"

text \<open>The first \<open>=\<close> after the first character of the name separates the value.\<close>

fun split_value :: "string \<Rightarrow> string \<times> string option" where
  "split_value [] = ([], None)"
| "split_value (c # s) = (if c = CHR ''='' then ([], Some s)
     else case split_value s of (n, v) \<Rightarrow> (c # n, v))"

definition flag_of :: "string \<Rightarrow> argument" where
  "flag_of name = (case name of
     [] \<Rightarrow> BadSyntax
   | c # s \<Rightarrow> if c = CHR ''-'' \<or> c = CHR ''='' then BadSyntax
       else (case split_value s of (n, v) \<Rightarrow> Flag (c # n) v))"

definition read_argument :: "string \<Rightarrow> argument" where
  "read_argument s = (case s of
     a # b # t \<Rightarrow>
       if a \<noteq> CHR ''-'' then NoFlag
       else if b = CHR ''-'' then (if t = [] then Terminator else flag_of t)
       else flag_of (b # t)
   | _ \<Rightarrow> NoFlag)"

text \<open>
  \<open>parseOne\<close> on the remaining arguments: no more flags, an error with the status that the
  process exits with (\<open>CommandLine\<close> has \<open>ExitOnError\<close>: 2, or 0 after the help text), or a flag that was
  set, with the arguments left.
\<close>

datatype 'z parsed = NoMore | Failed int | Seen "string list" "Options \<times> 'z"

definition assigned :: "'z LibraryFlags \<Rightarrow> string \<Rightarrow> string \<Rightarrow> string list \<Rightarrow> Options \<times> 'z \<Rightarrow> 'z parsed" where
  "assigned L name v rest oz = (case set_flag L name v oz of None \<Rightarrow> Failed 2 | Some oz' \<Rightarrow> Seen rest oz')"

definition parseOne :: "'z LibraryFlags \<Rightarrow> string list \<Rightarrow> Options \<times> 'z \<Rightarrow> 'z parsed" where
  "parseOne L args oz = (case args of
     [] \<Rightarrow> NoMore
   | s # rest \<Rightarrow> (case read_argument s of
         NoFlag \<Rightarrow> NoMore
       | Terminator \<Rightarrow> NoMore
       | BadSyntax \<Rightarrow> Failed 2
       | Flag name value \<Rightarrow> (case formal L name of
             None \<Rightarrow> Failed (if name = ''help'' \<or> name = ''h'' then 0 else 2)
           | Some isBool \<Rightarrow> (case value of
                 Some v \<Rightarrow> assigned L name v rest oz
               | None \<Rightarrow>
                   if isBool then assigned L name ''true'' rest oz
                   else (case rest of [] \<Rightarrow> Failed 2 | v # rest' \<Rightarrow> assigned L name v rest' oz)))))"

lemma assigned_Seen:
  "assigned L name v rest oz = Seen rest' oz' \<longleftrightarrow> rest' = rest \<and> set_flag L name v oz = Some oz'"
  by (auto simp: assigned_def split: option.split)

text \<open>A flag that was seen: the argument it was, the value it was given, what is left.\<close>

lemma parseOne_Seen:
  assumes "parseOne L args oz = Seen rest' oz'"
  obtains s rest name x v where "args = s # rest" "read_argument s = Flag name x"
    "set_flag L name v oz = Some oz'" "set rest' \<subseteq> set rest" "length rest' \<le> length rest"
  using assms
  by (auto simp: parseOne_def assigned_Seen split: list.splits argument.splits option.splits if_splits)

text \<open>The loop of \<open>Parse\<close>; every round uses up an argument. What follows the flags is not used by main.\<close>

function parse_flags :: "'z LibraryFlags \<Rightarrow> string list \<Rightarrow> Options \<times> 'z \<Rightarrow> int + Options \<times> 'z" where
  "parse_flags L args oz = (case parseOne L args oz of
       NoMore \<Rightarrow> Inr oz
     | Failed code \<Rightarrow> Inl code
     | Seen rest oz' \<Rightarrow> parse_flags L rest oz')"
  by pat_completeness auto

termination
  by (relation "measure (\<lambda>(L, args, oz). length args)") (auto elim!: parseOne_Seen)

declare parse_flags.simps [simp del]

section \<open>Reading back what was written\<close>

text \<open>A flag written as \<open>--name=value\<close> is read as that name and value.\<close>

definition long_flag :: "string \<Rightarrow> string \<Rightarrow> string" where
  "long_flag name v = ''--'' @ name @ ''='' @ v"

definition flag_name :: "string \<Rightarrow> bool" where
  "flag_name n \<longleftrightarrow> n \<noteq> [] \<and> hd n \<noteq> CHR ''-'' \<and> CHR ''='' \<notin> set n"

lemma split_value_eq: "CHR ''='' \<notin> set n \<Longrightarrow> split_value (n @ CHR ''='' # v) = (n, Some v)"
  by (induction n) auto

lemma read_long_flag: "flag_name n \<Longrightarrow> read_argument (long_flag n v) = Flag n (Some v)"
  by (cases n) (auto simp: flag_name_def read_argument_def long_flag_def flag_of_def split_value_eq)

text \<open>The command line that spells every variable out.\<close>

definition bool_text :: "bool \<Rightarrow> string" where
  "bool_text b = (if b then ''true'' else ''false'')"

definition options_args :: "Options \<Rightarrow> string list" where
  "options_args opts =
     [long_flag ''metrics-bind-address'' (metricsAddr opts),
      long_flag ''health-probe-bind-address'' (probeAddr opts),
      long_flag ''leader-elect'' (bool_text (enableLeaderElection opts)),
      long_flag ''metrics-secure'' (bool_text (secureMetrics opts)),
      long_flag ''webhook-cert-path'' (webhookCertPath opts),
      long_flag ''webhook-cert-name'' (webhookCertName opts),
      long_flag ''webhook-cert-key'' (webhookCertKey opts),
      long_flag ''metrics-cert-path'' (metricsCertPath opts),
      long_flag ''metrics-cert-name'' (metricsCertName opts),
      long_flag ''metrics-cert-key'' (metricsCertKey opts),
      long_flag ''enable-http2'' (bool_text (enableHTTP2 opts))]"

lemma ParseBool_text: "ParseBool (bool_text b) = Some b"
  by (simp add: ParseBool_def bool_text_def)

lemma parse_string_flag:
  assumes "map_of string_vars n = Some f" and "flag_name n"
  shows "parse_flags L (long_flag n v # rest) (opts, z) = parse_flags L rest (f v opts, z)"
proof -
  have "n \<in> fst ` set string_vars" using assms(1) by (force dest: map_of_SomeD)
  then show ?thesis
    using assms by (simp add: parse_flags.simps [of L "_ # _"] parseOne_def assigned_def read_long_flag formal_def set_flag_def)
qed

lemma parse_bool_flag:
  assumes "map_of bool_vars n = Some f" and "map_of string_vars n = None" and "flag_name n"
  shows "parse_flags L (long_flag n (bool_text b) # rest) (opts, z) = parse_flags L rest (f b opts, z)"
proof -
  have "n \<in> fst ` set bool_vars" using assms(1) by (force dest: map_of_SomeD)
  moreover have "n \<notin> fst ` set string_vars" using assms(2) by (simp add: map_of_eq_None_iff)
  ultimately show ?thesis
    using assms
    by (simp add: parse_flags.simps [of L "_ # _"] parseOne_def assigned_def read_long_flag formal_def set_flag_def ParseBool_text)
qed

text \<open>A variable that no argument names keeps its value: \<open>sel\<close> reads it, \<open>n\<close> is the name of its flag.\<close>

definition set_only_by :: "string \<Rightarrow> (Options \<Rightarrow> 'a) \<Rightarrow> bool" where
  "set_only_by n sel \<longleftrightarrow>
     (\<forall>(m, f) \<in> set string_vars. m \<noteq> n \<longrightarrow> (\<forall>v opts. sel (f v opts) = sel opts))
   \<and> (\<forall>(m, f) \<in> set bool_vars. m \<noteq> n \<longrightarrow> (\<forall>v opts. sel (f v opts) = sel opts))"

lemma set_flag_keeps:
  assumes "set_flag L m v oz = Some oz'" and "set_only_by n sel" and "m \<noteq> n"
  shows "sel (fst oz') = sel (fst oz)"
  using assms
  by (auto simp: set_flag_def set_only_by_def dest!: map_of_SomeD split: prod.splits option.splits)

lemma parse_keeps_unnamed:
  assumes "set_only_by n sel"
  shows "parse_flags L args oz = Inr oz' \<Longrightarrow> (\<forall>a \<in> set args. \<forall>v. read_argument a \<noteq> Flag n v)
    \<Longrightarrow> sel (fst oz') = sel (fst oz)"
proof (induction L args oz rule: parse_flags.induct)
  case (1 L args oz)
  show ?case
  proof (cases "parseOne L args oz")
    case (Seen rest oz1)
    then obtain s rest0 m x v where args: "args = s # rest0" "read_argument s = Flag m x"
      and set: "set_flag L m v oz = Some oz1" and sub: "set rest \<subseteq> set rest0"
      by (rule parseOne_Seen)
    have "m \<noteq> n" using 1(3) args by auto
    have "sel (fst oz') = sel (fst oz1)"
    proof (rule 1(1) [OF Seen])
      show "parse_flags L rest oz1 = Inr oz'" using 1(2) Seen by (simp add: parse_flags.simps [of L args])
      show "\<forall>a \<in> set rest. \<forall>v. read_argument a \<noteq> Flag n v" using 1(3) args sub by auto
    qed
    with set_flag_keeps [OF set assms \<open>m \<noteq> n\<close>] show ?thesis by simp
  qed (use 1(2) in \<open>simp_all add: parse_flags.simps [of L args]\<close>)
qed

text \<open>
  The arguments of config/manager/manager.yaml, and of the Helm chart with metrics on port 8443.
\<close>

definition manager_args :: "string list" where
  "manager_args = [''--leader-elect'', ''--health-probe-bind-address=:8081'']"

definition chart_args :: "string list" where
  "chart_args = [''--health-probe-bind-address=:8081'', ''--metrics-bind-address=:8443'', ''--leader-elect=false'']"

text \<open>
  The arguments that spell out all the variables are parsed to exactly those values,
  whatever the defaults and whatever flags the libraries add.
\<close>

lemma options_round_trip:
  "parse_flags L (options_args opts) (opts0, z) = Inr (opts, z)"
  by (simp add: options_args_def parse_string_flag parse_bool_flag string_vars_def bool_vars_def flag_name_def
      parse_flags.simps [of L "[]"] parseOne_def)

end
