(* ===== verification/Json.thy ===== *)
theory Json
  imports Golang
begin

text \<open>
  What internal/huawei/podagency.go uses of Go's \<open>encoding/json\<close>: the syntax of a JSON text, strings with their
  escapes and UTF-8, the limit on nesting, and how \<open>Unmarshal\<close> finds the field of a struct for a key.
  A text is the list of its bytes. The reader takes fuel; how much is enough is proved below.
\<close>

section \<open>UTF-8\<close>

abbreviation byte :: "char \<Rightarrow> nat" where
  "byte c \<equiv> of_char c"

abbreviation continuation :: "char \<Rightarrow> bool" where
  "continuation c \<equiv> 0x80 \<le> byte c \<and> byte c \<le> 0xBF"

text \<open>\<open>utf8.DecodeRune\<close>: the length of the rune at the head of the text, 0 where the bytes are no valid encoding.\<close>

definition rune_len :: "string \<Rightarrow> nat" where
  "rune_len s = (case s of
     [] \<Rightarrow> 0
   | a # t \<Rightarrow>
       if byte a < 0x80 then 1
       else (case t of
           [] \<Rightarrow> 0
         | b # u \<Rightarrow>
             if 0xC2 \<le> byte a \<and> byte a \<le> 0xDF then (if continuation b then 2 else 0)
             else (case u of
                 [] \<Rightarrow> 0
               | c # v \<Rightarrow>
                   if 0xE0 \<le> byte a \<and> byte a \<le> 0xEF then
                     (if continuation b \<and> continuation c \<and> (byte a = 0xE0 \<longrightarrow> 0xA0 \<le> byte b)
                        \<and> (byte a = 0xED \<longrightarrow> byte b \<le> 0x9F) then 3 else 0)
                   else (case v of
                       [] \<Rightarrow> 0
                     | d # w \<Rightarrow>
                         if 0xF0 \<le> byte a \<and> byte a \<le> 0xF4 \<and> continuation b \<and> continuation c \<and> continuation d
                           \<and> (byte a = 0xF0 \<longrightarrow> 0x90 \<le> byte b) \<and> (byte a = 0xF4 \<longrightarrow> byte b \<le> 0x8F) then 4 else 0))))"

text \<open>\<open>utf8.EncodeRune\<close>, on the runes that an escape can give; \<open>replacement\<close> is U+FFFD.\<close>

definition encode_rune :: "nat \<Rightarrow> string" where
  "encode_rune r =
     (if r < 0x80 then [char_of r]
      else if r < 0x800 then [char_of (0xC0 + r div 64), char_of (0x80 + r mod 64)]
      else if r < 0x10000 then
        [char_of (0xE0 + r div 4096), char_of (0x80 + r div 64 mod 64), char_of (0x80 + r mod 64)]
      else [char_of (0xF0 + r div 262144), char_of (0x80 + r div 4096 mod 64),
        char_of (0x80 + r div 64 mod 64), char_of (0x80 + r mod 64)])"

definition replacement :: string where
  "replacement = encode_rune 0xFFFD"

section \<open>Strings\<close>

definition hex_val :: "char \<Rightarrow> nat option" where
  "hex_val c =
     (if is_digit c then Some (digit_val c)
      else if 97 \<le> byte c \<and> byte c \<le> 102 then Some (byte c - 87)
      else if 65 \<le> byte c \<and> byte c \<le> 70 then Some (byte c - 55)
      else None)"

text \<open>Four hexadecimal digits; and \<open>getu4\<close>: a whole escape \<open>\uXXXX\<close> at the head of the text.\<close>

definition hex4 :: "string \<Rightarrow> nat option" where
  "hex4 s = (case map hex_val (take 4 s) of
     [Some a, Some b, Some c, Some d] \<Rightarrow> Some (((a * 16 + b) * 16 + c) * 16 + d)
   | _ \<Rightarrow> None)"

definition getu4 :: "string \<Rightarrow> nat option" where
  "getu4 s = (if take 2 s = [CHR 0x5C, CHR ''u''] then hex4 (drop 2 s) else None)"

definition simple_escape :: "char \<Rightarrow> char option" where
  "simple_escape c = map_of
     [(CHR 0x22, CHR 0x22), (CHR 0x5C, CHR 0x5C), (CHR ''/'', CHR ''/''), (CHR ''b'', CHR 0x08),
      (CHR ''f'', CHR 0x0C), (CHR ''n'', CHR 0x0A), (CHR ''r'', CHR 0x0D), (CHR ''t'', CHR 0x09)] c"

text \<open>
  What stands at the head of a string's contents: its end, bytes of the value, or an error. Two escapes
  that are a surrogate pair are one rune; a surrogate alone and a byte that is no UTF-8 become U+FFFD.
\<close>

datatype piece = EndQuote string | Bytes string string | BadPiece

definition escaped_rune :: "nat \<Rightarrow> string \<Rightarrow> piece" where
  "escaped_rune r t =
     (if 0xD800 \<le> r \<and> r < 0xE000 then
        (case getu4 t of
           Some r1 \<Rightarrow>
             if r < 0xDC00 \<and> 0xDC00 \<le> r1 \<and> r1 < 0xE000
             then Bytes (encode_rune (0x10000 + (r - 0xD800) * 1024 + (r1 - 0xDC00))) (drop 6 t)
             else Bytes replacement t
         | None \<Rightarrow> Bytes replacement t)
      else Bytes (encode_rune r) t)"

definition next_piece :: "string \<Rightarrow> piece" where
  "next_piece s = (case s of
     [] \<Rightarrow> BadPiece
   | c # t \<Rightarrow>
       if c = CHR 0x22 then EndQuote t
       else if c = CHR 0x5C then (case t of
           [] \<Rightarrow> BadPiece
         | e # u \<Rightarrow>
             if e = CHR ''u'' then (case hex4 u of None \<Rightarrow> BadPiece | Some r \<Rightarrow> escaped_rune r (drop 4 u))
             else (case simple_escape e of None \<Rightarrow> BadPiece | Some d \<Rightarrow> Bytes [d] u))
       else if byte c < 0x20 then BadPiece
       else if rune_len s = 0 then Bytes replacement t
       else Bytes (take (rune_len s) s) (drop (rune_len s) s))"

lemma next_piece_shrinks:
  "next_piece s = Bytes b t \<Longrightarrow> length t < length s" "next_piece s = EndQuote t \<Longrightarrow> length t < length s"
  by (auto simp: next_piece_def escaped_rune_def split: list.splits if_splits option.splits)

text \<open>The contents of a string after its opening quote, decoded, and the text after the closing one.\<close>

function read_string :: "string \<Rightarrow> (string \<times> string) option" where
  "read_string s = (case next_piece s of
     BadPiece \<Rightarrow> None
   | EndQuote t \<Rightarrow> Some ([], t)
   | Bytes b t \<Rightarrow> map_option (\<lambda>(v, u). (b @ v, u)) (read_string t))"
  by pat_completeness auto

termination
  by (relation "measure length") (auto dest: next_piece_shrinks)

declare read_string.simps [simp del]

lemma read_string_shrinks: "read_string s = Some (v, u) \<Longrightarrow> length u < length s"
proof (induction s arbitrary: v u rule: read_string.induct)
  case (1 s)
  then show ?case
    by (fastforce simp: read_string.simps [of s] split: piece.splits dest: next_piece_shrinks)
qed

section \<open>Values\<close>

text \<open>A number is kept as its text: no field of the payload takes one.\<close>

datatype jvalue = VNull | VBool bool | VNumber string | VString string
  | VArray "jvalue list" | VObject "(string \<times> jvalue) list"

definition skip_ws :: "string \<Rightarrow> string" where
  "skip_ws s = dropWhile (\<lambda>c. c \<in> {CHR '' '', CHR 0x09, CHR 0x0A, CHR 0x0D}) s"

text \<open>\<open>-\<close>, digits without a leading zero, a fraction, an exponent: the length of the number, \<open>None\<close> if it is none.\<close>

definition digits_at :: "string \<Rightarrow> nat" where
  "digits_at s = length (takeWhile is_digit s)"

definition fraction_at :: "string \<Rightarrow> nat option" where
  "fraction_at s = (case s of
     c # t \<Rightarrow> if c = CHR ''.'' then (if digits_at t = 0 then None else Some (Suc (digits_at t))) else Some 0
   | [] \<Rightarrow> Some 0)"

definition exponent_at :: "string \<Rightarrow> nat option" where
  "exponent_at s = (case s of
     c # t \<Rightarrow>
       if c = CHR ''e'' \<or> c = CHR ''E'' then
         (let k = (if t \<noteq> [] \<and> hd t \<in> {CHR ''+'', CHR ''-''} then 1 else 0); n = digits_at (drop k t)
          in if n = 0 then None else Some (1 + k + n))
       else Some 0
   | [] \<Rightarrow> Some 0)"

definition number_len :: "string \<Rightarrow> nat option" where
  "number_len s =
     (let k = (if s \<noteq> [] \<and> hd s = CHR ''-'' then 1 else 0); t = drop k s;
          n = (if t \<noteq> [] \<and> hd t = CHR ''0'' then 1 else digits_at t)
      in if n = 0 then None
         else Option.bind (fraction_at (drop n t)) (\<lambda>f.
              Option.bind (exponent_at (drop (n + f) t)) (\<lambda>e. Some (k + n + f + e))))"

text \<open>A value that is no string, array or object.\<close>

definition read_atom :: "string \<Rightarrow> (jvalue \<times> string) option" where
  "read_atom s =
     (if take 4 s = ''null'' then Some (VNull, drop 4 s)
      else if take 4 s = ''true'' then Some (VBool True, drop 4 s)
      else if take 5 s = ''false'' then Some (VBool False, drop 5 s)
      else map_option (\<lambda>n. (VNumber (take n s), drop n s)) (number_len s))"

lemma skip_ws_shrinks: "length (skip_ws s) \<le> length s"
  by (simp add: skip_ws_def length_dropWhile_le)

lemma number_len_pos: "number_len s = Some n \<Longrightarrow> 0 < n \<and> s \<noteq> []"
  by (cases s) (auto simp: number_len_def digits_at_def Let_def split: bind_splits if_splits)

lemma read_atom_shrinks: "read_atom s = Some (v, u) \<Longrightarrow> length u < length s"
  by (cases s) (auto simp: read_atom_def dest!: number_len_pos split: if_splits)

section \<open>The reader\<close>

text \<open>A value and the text after it, a syntax error, or too little fuel.\<close>

datatype 'a reading = Got 'a string | Malformed | NoFuel

fun then_read :: "'a reading \<Rightarrow> ('a \<Rightarrow> string \<Rightarrow> 'b reading) \<Rightarrow> 'b reading" where
  "then_read (Got v u) k = k v u"
| "then_read Malformed k = Malformed"
| "then_read NoFuel k = NoFuel"

text \<open>
  The three positions of the reader: at a value, at the first or next element of an array, at the first or
  next member of an object, each over the readers it needs. \<open>depth\<close> is how many more arrays and
  objects may be opened.
\<close>

definition at_value ::
  "(string \<Rightarrow> (string \<times> jvalue) list reading) \<Rightarrow> (string \<Rightarrow> jvalue list reading) \<Rightarrow> nat \<Rightarrow> string \<Rightarrow> jvalue reading" where
  "at_value members elements depth s = (case skip_ws s of
     [] \<Rightarrow> Malformed
   | c # t \<Rightarrow>
       if c = CHR ''{'' then
         (if depth = 0 then Malformed
          else if take 1 (skip_ws t) = ''}'' then Got (VObject []) (drop 1 (skip_ws t))
          else then_read (members t) (\<lambda>ms. Got (VObject ms)))
       else if c = CHR ''['' then
         (if depth = 0 then Malformed
          else if take 1 (skip_ws t) = '']'' then Got (VArray []) (drop 1 (skip_ws t))
          else then_read (elements t) (\<lambda>vs. Got (VArray vs)))
       else if c = CHR 0x22 then (case read_string t of Some (v, u) \<Rightarrow> Got (VString v) u | None \<Rightarrow> Malformed)
       else (case read_atom (c # t) of Some (v, u) \<Rightarrow> Got v u | None \<Rightarrow> Malformed))"

definition at_element :: "(string \<Rightarrow> jvalue reading) \<Rightarrow> (string \<Rightarrow> jvalue list reading) \<Rightarrow> string \<Rightarrow> jvalue list reading" where
  "at_element item elements s = then_read (item s) (\<lambda>v t. case skip_ws t of
     [] \<Rightarrow> Malformed
   | c # u \<Rightarrow>
       if c = CHR '','' then then_read (elements u) (\<lambda>vs. Got (v # vs))
       else if c = CHR '']'' then Got [v] u
       else Malformed)"

text \<open>The key and its colon; then the value and what follows it.\<close>

definition read_key :: "string \<Rightarrow> (string \<times> string) option" where
  "read_key s = (case skip_ws s of
     [] \<Rightarrow> None
   | q # t \<Rightarrow>
       if q = CHR 0x22 then Option.bind (read_string t) (\<lambda>(key, u).
         if take 1 (skip_ws u) = '':'' then Some (key, drop 1 (skip_ws u)) else None)
       else None)"

definition at_member ::
  "(string \<Rightarrow> jvalue reading) \<Rightarrow> (string \<Rightarrow> (string \<times> jvalue) list reading) \<Rightarrow> string \<Rightarrow> (string \<times> jvalue) list reading" where
  "at_member item members s = (case read_key s of
     None \<Rightarrow> Malformed
   | Some (key, r) \<Rightarrow> then_read (item r) (\<lambda>v t. case skip_ws t of
         [] \<Rightarrow> Malformed
       | c # u \<Rightarrow>
           if c = CHR '','' then then_read (members u) (\<lambda>ms. Got ((key, v) # ms))
           else if c = CHR ''}'' then Got [(key, v)] u
           else Malformed))"

fun read_value :: "nat \<Rightarrow> nat \<Rightarrow> string \<Rightarrow> jvalue reading"
  and read_elements :: "nat \<Rightarrow> nat \<Rightarrow> string \<Rightarrow> jvalue list reading"
  and read_members :: "nat \<Rightarrow> nat \<Rightarrow> string \<Rightarrow> (string \<times> jvalue) list reading" where
  "read_value 0 depth s = NoFuel"
| "read_value (Suc fuel) depth s = at_value (read_members fuel (depth - 1)) (read_elements fuel (depth - 1)) depth s"
| "read_elements 0 depth s = NoFuel"
| "read_elements (Suc fuel) depth s = at_element (read_value fuel depth) (read_elements fuel depth) s"
| "read_members 0 depth s = NoFuel"
| "read_members (Suc fuel) depth s = at_member (read_value fuel depth) (read_members fuel depth) s"

text \<open>\<open>maxNestingDepth\<close>; and the fuel that is enough for a text.\<close>

definition maxNestingDepth :: nat where "maxNestingDepth = 10000"

definition fuel_for :: "string \<Rightarrow> nat" where
  "fuel_for s = Suc (2 * length s)"

definition read_json :: "string \<Rightarrow> jvalue option" where
  "read_json s = (case read_value (fuel_for s) maxNestingDepth s of
     Got v u \<Rightarrow> if skip_ws u = [] then Some v else None
   | _ \<Rightarrow> None)"

section \<open>The reader needs no more fuel than that\<close>

lemma then_read_Got: "then_read r k = Got v u \<longleftrightarrow> (\<exists>w t. r = Got w t \<and> k w t = Got v u)"
  by (cases r) auto

lemma then_read_NoFuel: "then_read r k = NoFuel \<longleftrightarrow> r = NoFuel \<or> (\<exists>w t. r = Got w t \<and> k w t = NoFuel)"
  by (cases r) auto

lemma skip_ws_Cons: "skip_ws s = c # t \<Longrightarrow> length t < length s"
  using skip_ws_shrinks [of s] by simp

lemma after_ws: "skip_ws s = c # t \<Longrightarrow> length (drop 1 (skip_ws s)) < length s"
  using skip_ws_shrinks [of s] by simp

lemma take1_Cons: "take 1 xs = [c] \<Longrightarrow> \<exists>t. xs = c # t"
  by (cases xs) auto

lemma close_at_once: "take 1 (skip_ws t) = [c] \<Longrightarrow> length (drop 1 (skip_ws t)) < length t"
  by (cases "skip_ws t") (use skip_ws_Cons [of t] in auto)

lemma read_key_shrinks:
  assumes "read_key s = Some (k, r)"
  shows "length r < length s"
proof -
  obtain t u where "skip_ws s = CHR 0x22 # t" "read_string t = Some (k, u)" "take 1 (skip_ws u) = '':''"
    "r = drop 1 (skip_ws u)"
    using assms by (auto simp: read_key_def split: list.splits bind_splits if_splits)
  then show ?thesis
    using skip_ws_Cons [of s] read_string_shrinks [of t] close_at_once [of u] by fastforce
qed

text \<open>A reader that consumes: what is left is shorter.\<close>

definition consumes :: "(string \<Rightarrow> 'a reading) \<Rightarrow> bool" where
  "consumes p \<longleftrightarrow> (\<forall>s v u. p s = Got v u \<longrightarrow> length u < length s)"

lemma consumesD: "consumes p \<Longrightarrow> p s = Got v u \<Longrightarrow> length u < length s"
  by (simp add: consumes_def)

lemma at_value_consumes:
  assumes "consumes members" and "consumes elements"
  shows "consumes (at_value members elements depth)"
proof (unfold consumes_def, intro allI impI)
  fix s v u
  assume got: "at_value members elements depth s = Got v u"
  then obtain c t where s: "skip_ws s = c # t" by (cases "skip_ws s") (auto simp: at_value_def)
  consider "take 1 (skip_ws t) \<in> {''}'', '']''}" "u = drop 1 (skip_ws t)"
    | ms where "members t = Got ms u" | vs where "elements t = Got vs u"
    | w where "read_string t = Some (w, u)" | "read_atom (c # t) = Some (v, u)"
    using got unfolding at_value_def s
    by (simp add: then_read_Got split: if_splits option.splits prod.splits) blast+
  then have "length u < length (c # t)"
  proof cases
    case 1
    then show ?thesis using close_at_once [of t] by fastforce
  next
    case 2
    then show ?thesis using consumesD [OF assms(1)] by fastforce
  next
    case 3
    then show ?thesis using consumesD [OF assms(2)] by fastforce
  next
    case 4
    then show ?thesis using read_string_shrinks by fastforce
  next
    case 5
    then show ?thesis using read_atom_shrinks by fastforce
  qed
  then show "length u < length s" using skip_ws_Cons [OF s] by simp
qed

text \<open>What follows an element or a member: a comma and more, or the end.\<close>

lemma rest_shrinks:
  assumes "(case skip_ws t of [] \<Rightarrow> Malformed | c # u \<Rightarrow>
      if c = CHR '','' then then_read (further u) f else if c = close then Got z u else Malformed) = Got v w"
    and "\<And>x y. f x y = Got (g x) y" and "consumes further"
  shows "length w < length t"
proof -
  obtain c u where t: "skip_ws t = c # u" using assms(1) by (cases "skip_ws t") auto
  have "length w \<le> length u"
    using assms(1) consumesD [OF assms(3)] unfolding t
    by (auto simp: then_read_Got assms(2) split: if_splits intro: less_imp_le)
  then show ?thesis using skip_ws_Cons [OF t] by simp
qed

lemma at_element_consumes:
  assumes "consumes item" and "consumes elements"
  shows "consumes (at_element item elements)"
proof (unfold consumes_def, intro allI impI)
  fix s vs u
  assume "at_element item elements s = Got vs u"
  then obtain v t where item: "item s = Got v t" and rest: "(case skip_ws t of [] \<Rightarrow> Malformed | c # u \<Rightarrow>
      if c = CHR '','' then then_read (elements u) (\<lambda>vs. Got (v # vs)) else if c = CHR '']'' then Got [v] u else Malformed) = Got vs u"
    by (auto simp: at_element_def then_read_Got)
  show "length u < length s"
    using rest_shrinks [OF rest _ assms(2)] consumesD [OF assms(1) item] by fastforce
qed

lemma at_member_consumes:
  assumes "consumes item" and "consumes members"
  shows "consumes (at_member item members)"
proof (unfold consumes_def, intro allI impI)
  fix s ms u
  assume "at_member item members s = Got ms u"
  then obtain k r v t where key: "read_key s = Some (k, r)" and item: "item r = Got v t"
    and rest: "(case skip_ws t of [] \<Rightarrow> Malformed | c # u \<Rightarrow>
      if c = CHR '','' then then_read (members u) (\<lambda>ms. Got ((k, v) # ms)) else if c = CHR ''}'' then Got [(k, v)] u else Malformed) = Got ms u"
    by (auto simp: at_member_def then_read_Got split: option.splits)
  show "length u < length s"
    using rest_shrinks [OF rest _ assms(2)] consumesD [OF assms(1) item] read_key_shrinks [OF key] by fastforce
qed

lemma readers_consume:
  "consumes (read_value fuel depth) \<and> consumes (read_elements fuel depth) \<and> consumes (read_members fuel depth)"
proof (induction fuel arbitrary: depth)
  case 0
  then show ?case by (simp add: consumes_def)
next
  case (Suc fuel)
  have "read_value (Suc fuel) depth = at_value (read_members fuel (depth - 1)) (read_elements fuel (depth - 1)) depth"
    "read_elements (Suc fuel) depth = at_element (read_value fuel depth) (read_elements fuel depth)"
    "read_members (Suc fuel) depth = at_member (read_value fuel depth) (read_members fuel depth)"
    by (simp_all add: fun_eq_iff)
  then show ?case using Suc by (simp add: at_value_consumes at_element_consumes at_member_consumes)
qed

text \<open>Two readers that agree, and have the fuel they need, on every shorter text.\<close>

definition agree_below :: "nat \<Rightarrow> (string \<Rightarrow> 'a reading) \<Rightarrow> (string \<Rightarrow> 'a reading) \<Rightarrow> bool" where
  "agree_below n p q \<longleftrightarrow> (\<forall>t. length t < n \<longrightarrow> q t = p t \<and> p t \<noteq> NoFuel)"

lemma agree_belowD: "agree_below n p q \<Longrightarrow> length t < n \<Longrightarrow> q t = p t \<and> p t \<noteq> NoFuel"
  by (simp add: agree_below_def)

lemma then_read_agree:
  "q = p \<Longrightarrow> p \<noteq> NoFuel \<Longrightarrow> (\<And>v u. p = Got v u \<Longrightarrow> k' v u = k v u \<and> k v u \<noteq> NoFuel)
    \<Longrightarrow> then_read q k' = then_read p k \<and> then_read p k \<noteq> NoFuel"
  by (cases p) auto

lemma at_value_agree:
  assumes "agree_below (length s) members members'" and "agree_below (length s) elements elements'"
  shows "at_value members' elements' depth s = at_value members elements depth s \<and> at_value members elements depth s \<noteq> NoFuel"
proof (cases "skip_ws s")
  case (Cons c t)
  then have t: "length t < length s" by (rule skip_ws_Cons)
  note M = agree_belowD [OF assms(1) t] and E = agree_belowD [OF assms(2) t]
  have "then_read (members t) (\<lambda>ms. Got (VObject ms)) \<noteq> NoFuel" "then_read (elements t) (\<lambda>vs. Got (VArray vs)) \<noteq> NoFuel"
    using M E by (simp_all add: then_read_NoFuel)
  then show ?thesis using M E by (simp add: at_value_def Cons split: option.split prod.split)
qed (simp add: at_value_def)

lemma rest_agree:
  assumes "agree_below (length t) p q" and "\<And>x y. f x y \<noteq> NoFuel"
  shows "(case skip_ws t of [] \<Rightarrow> Malformed | c # u \<Rightarrow> if c = CHR '','' then then_read (q u) f else if c = close then Got z u else Malformed)
       = (case skip_ws t of [] \<Rightarrow> Malformed | c # u \<Rightarrow> if c = CHR '','' then then_read (p u) f else if c = close then Got z u else Malformed)
    \<and> (case skip_ws t of [] \<Rightarrow> Malformed | c # u \<Rightarrow> if c = CHR '','' then then_read (p u) f else if c = close then Got z u else Malformed) \<noteq> NoFuel"
proof (cases "skip_ws t")
  case (Cons c u)
  from agree_belowD [OF assms(1) skip_ws_Cons [OF Cons]] have "then_read (q u) f = then_read (p u) f" "then_read (p u) f \<noteq> NoFuel"
    using assms(2) by (simp_all add: then_read_NoFuel)
  with Cons show ?thesis by simp
qed simp

lemma agree_below_mono: "agree_below n p q \<Longrightarrow> m \<le> n \<Longrightarrow> agree_below m p q"
  by (simp add: agree_below_def)

lemma at_element_agree:
  assumes "item' s = item s" and "item s \<noteq> NoFuel" and "consumes item" and "agree_below (length s) elements elements'"
  shows "at_element item' elements' s = at_element item elements s \<and> at_element item elements s \<noteq> NoFuel"
  unfolding at_element_def
proof (rule then_read_agree [OF assms(1,2)])
  fix v t
  assume "item s = Got v t"
  then have "length t \<le> length s" using consumesD [OF assms(3)] by fastforce
  from agree_below_mono [OF assms(4) this]
  show "(case skip_ws t of [] \<Rightarrow> Malformed | c # u \<Rightarrow>
        if c = CHR '','' then then_read (elements' u) (\<lambda>vs. Got (v # vs)) else if c = CHR '']'' then Got [v] u else Malformed) =
      (case skip_ws t of [] \<Rightarrow> Malformed | c # u \<Rightarrow>
        if c = CHR '','' then then_read (elements u) (\<lambda>vs. Got (v # vs)) else if c = CHR '']'' then Got [v] u else Malformed)
    \<and> (case skip_ws t of [] \<Rightarrow> Malformed | c # u \<Rightarrow>
        if c = CHR '','' then then_read (elements u) (\<lambda>vs. Got (v # vs)) else if c = CHR '']'' then Got [v] u else Malformed) \<noteq> NoFuel"
    by (rule rest_agree) simp
qed

lemma at_member_agree:
  assumes "agree_below (length s) item item'" and "consumes item" and "agree_below (length s) members members'"
  shows "at_member item' members' s = at_member item members s \<and> at_member item members s \<noteq> NoFuel"
proof (cases "read_key s")
  case (Some kr)
  obtain k r where kr: "kr = (k, r)" by (cases kr)
  have r: "length r < length s" using read_key_shrinks [of s k r] Some by (simp add: kr)
  from agree_belowD [OF assms(1) r] have same: "item' r = item r" "item r \<noteq> NoFuel" by auto
  show ?thesis
    unfolding at_member_def Some kr option.case prod.case
  proof (rule then_read_agree [OF same])
    fix v t
    assume "item r = Got v t"
    then have "length t \<le> length s" using consumesD [OF assms(2)] r by fastforce
    from agree_below_mono [OF assms(3) this]
    show "(case skip_ws t of [] \<Rightarrow> Malformed | c # u \<Rightarrow>
          if c = CHR '','' then then_read (members' u) (\<lambda>ms. Got ((k, v) # ms)) else if c = CHR ''}'' then Got [(k, v)] u else Malformed) =
        (case skip_ws t of [] \<Rightarrow> Malformed | c # u \<Rightarrow>
          if c = CHR '','' then then_read (members u) (\<lambda>ms. Got ((k, v) # ms)) else if c = CHR ''}'' then Got [(k, v)] u else Malformed)
      \<and> (case skip_ws t of [] \<Rightarrow> Malformed | c # u \<Rightarrow>
          if c = CHR '','' then then_read (members u) (\<lambda>ms. Got ((k, v) # ms)) else if c = CHR ''}'' then Got [(k, v)] u else Malformed) \<noteq> NoFuel"
      by (rule rest_agree) simp
  qed
qed (simp add: at_member_def)

lemma enough_fuel:
  "(2 * length s < fuel \<longrightarrow> (\<forall>n. read_value (fuel + n) depth s = read_value fuel depth s) \<and> read_value fuel depth s \<noteq> NoFuel)
   \<and> (2 * length s + 1 < fuel \<longrightarrow>
        (\<forall>n. read_elements (fuel + n) depth s = read_elements fuel depth s) \<and> read_elements fuel depth s \<noteq> NoFuel
      \<and> (\<forall>n. read_members (fuel + n) depth s = read_members fuel depth s) \<and> read_members fuel depth s \<noteq> NoFuel)"
proof (induction fuel arbitrary: depth s)
  case 0
  then show ?case by simp
next
  case (Suc fuel)
  have below: "agree_below m (read_elements fuel d) (read_elements (fuel + n) d)"
    "agree_below m (read_members fuel d) (read_members (fuel + n) d)" if "2 * m \<le> fuel" for d n m
    using Suc.IH [of _ d] that unfolding agree_below_def by auto
  have val: "read_value (fuel + n) d t = read_value fuel d t \<and> read_value fuel d t \<noteq> NoFuel" if "2 * length t < fuel" for d n t
    using Suc.IH [of t d] that by blast
  note consume = readers_consume [of fuel, THEN conjunct1]
  show ?case
  proof (intro conjI impI allI)
    assume f: "2 * length s < Suc fuel"
    then have m: "2 * length s \<le> fuel" by simp
    show "read_value (Suc fuel + n) depth s = read_value (Suc fuel) depth s" for n
      using at_value_agree [OF below(2) [OF m] below(1) [OF m], of _ _ _ _ depth] by simp
    show "read_value (Suc fuel) depth s \<noteq> NoFuel"
      using at_value_agree [OF below(2) [OF m] below(1) [OF m], of _ _ _ _ depth] by simp
  next
    assume f: "2 * length s + 1 < Suc fuel"
    then have m: "2 * length s \<le> fuel" and l: "2 * length s < fuel" by simp_all
    have vals: "agree_below (length s) (read_value fuel depth) (read_value (fuel + n) depth)" for n
      using val l by (auto simp: agree_below_def)
    show "read_elements (Suc fuel + n) depth s = read_elements (Suc fuel) depth s"
      "read_members (Suc fuel + n) depth s = read_members (Suc fuel) depth s" for n
      using at_element_agree [OF _ _ consume below(1) [OF m], of _ depth n] val [OF l, where n = n]
        at_member_agree [OF vals consume below(2) [OF m], of n] by simp_all
    show "read_elements (Suc fuel) depth s \<noteq> NoFuel" "read_members (Suc fuel) depth s \<noteq> NoFuel"
      using at_element_agree [OF _ _ consume below(1) [OF m], of "read_value (fuel + 0) depth" depth 0] val [OF l, where n = 0]
        at_member_agree [OF vals consume below(2) [OF m], of 0] by simp_all
  qed
qed

text \<open>
  Reading a JSON text terminates: with the fuel \<open>read_json\<close> gives it, twice the length
  and one, the reader never runs out, and any more fuel makes no difference.
\<close>

lemma reading_terminates:
  "read_value (fuel_for s + n) depth s = read_value (fuel_for s) depth s \<and> read_value (fuel_for s) depth s \<noteq> NoFuel"
  using enough_fuel [of s "fuel_for s" depth] by (simp add: fuel_for_def)

section \<open>Fields of a struct\<close>

text \<open>
  The field for a key: the one of exactly that name, otherwise one whose name is the same up to case folding.
  Of the runes outside ASCII two fold to an ASCII letter (U+017F to S, U+212A to K); the names are ASCII, so no other
  rune can occur in a key that matches. \<open>names\<close> are the fields' names, distinct up to case.
\<close>

definition upper_char :: "char \<Rightarrow> char" where
  "upper_char c = (if 97 \<le> byte c \<and> byte c \<le> 122 then char_of (byte c - 32) else c)"

fun fold_name :: "string \<Rightarrow> string" where
  "fold_name [] = []"
| "fold_name (a # s) =
     (case s of
        b # c # t \<Rightarrow>
          (if (byte a, byte b) = (0xC5, 0xBF) then CHR ''S'' # fold_name (c # t)
           else if (byte a, byte b, byte c) = (0xE2, 0x84, 0xAA) then CHR ''K'' # fold_name t
           else upper_char a # fold_name s)
      | [b] \<Rightarrow> if (byte a, byte b) = (0xC5, 0xBF) then [CHR ''S''] else upper_char a # fold_name s
      | [] \<Rightarrow> [upper_char a])"

definition find_field :: "string list \<Rightarrow> string \<Rightarrow> string option" where
  "find_field names key =
     (if key \<in> set names then Some key
      else find (\<lambda>n. fold_name n = fold_name key) names)"

section \<open>Writing a text\<close>

text \<open>Characters that stand for themselves in a string; a string of such is read back.\<close>

definition plain :: "string \<Rightarrow> bool" where
  "plain s \<longleftrightarrow> (\<forall>c \<in> set s. 0x20 \<le> byte c \<and> byte c < 0x7F \<and> c \<noteq> CHR 0x22 \<and> c \<noteq> CHR 0x5C)"

definition quoted :: "string \<Rightarrow> string" where
  "quoted s = CHR 0x22 # s @ [CHR 0x22]"

lemma read_plain: "plain v \<Longrightarrow> read_string (v @ CHR 0x22 # rest) = Some (v, rest)"
proof (induction v)
  case Nil
  then show ?case by (simp add: read_string.simps [of "_ # _"] next_piece_def)
next
  case (Cons c v)
  then have "next_piece (c # v @ CHR 0x22 # rest) = Bytes [c] (v @ CHR 0x22 # rest)"
    by (auto simp: next_piece_def plain_def rune_len_def)
  with Cons show ?case by (simp add: read_string.simps [of "c # _"] plain_def)
qed

lemma skip_ws_quoted: "skip_ws (quoted v @ rest) = CHR 0x22 # v @ CHR 0x22 # rest"
  by (simp add: quoted_def skip_ws_def)

lemma read_quoted_value: "plain v \<Longrightarrow> read_value (Suc fuel) depth (quoted v @ rest) = Got (VString v) rest"
  by (simp add: at_value_def skip_ws_quoted read_plain)

lemma read_quoted_key: "plain k \<Longrightarrow> read_key (quoted k @ CHR '':'' # rest) = Some (k, rest)"
  unfolding read_key_def skip_ws_quoted by (simp add: read_plain skip_ws_def)

text \<open>Members without white space between them, each a key and the text of its value.\<close>

fun members_text :: "(string \<times> string) list \<Rightarrow> string" where
  "members_text [] = []"
| "members_text [(k, t)] = quoted k @ '':'' @ t"
| "members_text ((k, t) # ms) = quoted k @ '':'' @ t @ '','' @ members_text ms"

definition object_text :: "(string \<times> string) list \<Rightarrow> string" where
  "object_text ms = ''{'' @ members_text ms @ ''}''"

text \<open>A text that is read as a value, with any fuel from \<open>n\<close> on and whatever follows.\<close>

definition stands_for :: "nat \<Rightarrow> nat \<Rightarrow> string \<Rightarrow> jvalue \<Rightarrow> bool" where
  "stands_for n depth t v \<longleftrightarrow> (\<forall>fuel rest. n \<le> fuel \<longrightarrow> read_value fuel depth (t @ rest) = Got v rest)"

lemma quoted_stands: "plain v \<Longrightarrow> stands_for 1 depth (quoted v) (VString v)"
  unfolding stands_for_def by (metis One_nat_def Suc_le_D read_quoted_value)

lemma members_read:
  assumes "ms \<noteq> []" and "\<forall>(k, t, v) \<in> set ms. plain k \<and> stands_for n depth t v"
    and "n + length ms \<le> fuel"
  shows "read_members fuel depth (members_text (map (\<lambda>(k, t, v). (k, t)) ms) @ ''}'' @ rest)
       = Got (map (\<lambda>(k, t, v). (k, v)) ms) rest"
  using assms
proof (induction ms arbitrary: fuel)
  case (Cons m ms)
  obtain k t v where m: "m = (k, t, v)" by (cases m)
  obtain f where fuel: "fuel = Suc f" "n + length ms \<le> f" using Cons.prems(3) by (cases fuel) auto
  have k: "plain k" and t: "\<And>r. read_value f depth (t @ r) = Got v r"
    using Cons.prems(2) fuel(2) by (auto simp: m stands_for_def)
  show ?case
  proof (cases ms)
    case Nil
    then show ?thesis using k t by (simp add: m fuel at_member_def read_quoted_key skip_ws_def)
  next
    case (Cons m' ms')
    then have spelled: "members_text (map (\<lambda>(k, t, v). (k, t)) (m # ms)) =
        quoted k @ '':'' @ t @ '','' @ members_text (map (\<lambda>(k, t, v). (k, t)) ms)"
      by (cases m') (simp add: m)
    have "read_members f depth (members_text (map (\<lambda>(k, t, v). (k, t)) ms) @ ''}'' @ rest)
        = Got (map (\<lambda>(k, t, v). (k, v)) ms) rest"
      by (rule Cons.IH) (use Cons Cons.prems fuel in auto)
    then show ?thesis unfolding spelled using k t by (simp add: m fuel at_member_def read_quoted_key skip_ws_def)
  qed
qed simp

lemma object_stands:
  assumes "ms \<noteq> []" and "\<forall>(k, t, v) \<in> set ms. plain k \<and> stands_for n depth t v"
  shows "stands_for (Suc (n + length ms)) (Suc depth) (object_text (map (\<lambda>(k, t, v). (k, t)) ms))
    (VObject (map (\<lambda>(k, t, v). (k, v)) ms))"
  unfolding stands_for_def
proof (intro allI impI)
  fix fuel rest
  assume f: "Suc (n + length ms) \<le> fuel"
  then obtain f where fuel: "fuel = Suc f" "n + length ms \<le> f" by (cases fuel) auto
  let ?t = "members_text (map (\<lambda>(k, t, v). (k, t)) ms) @ ''}'' @ rest"
  obtain m ms' where ms: "ms = m # ms'" using assms(1) by (cases ms) auto
  have "\<exists>u. ?t = CHR 0x22 # u"
    by (cases m; cases ms') (auto simp: ms quoted_def)
  then have "take 1 (skip_ws ?t) \<noteq> ''}''" by (auto simp: skip_ws_def)
  then show "read_value fuel (Suc depth) (object_text (map (\<lambda>(k, t, v). (k, t)) ms) @ rest)
      = Got (VObject (map (\<lambda>(k, t, v). (k, v)) ms)) rest"
    using members_read [OF assms fuel(2)] by (simp add: fuel at_value_def object_text_def skip_ws_def)
qed

end
