(* ===== verification/Timestamps.thy ===== *)
theory Timestamps
  imports Golang
begin

text \<open>
  What internal/huawei/podagency.go uses of Go's \<open>time.Parse\<close>: layouts made of the elements that its two
  layouts have, the general parser that goes through the layout and the value together, and the time
  that a date means. (For \<open>time.RFC3339\<close> Go first tries a faster parser, which gives the same results.)
\<close>

section \<open>Layouts\<close>

datatype chunk = Lit char | stdLongYear | stdZeroMonth | stdZeroDay | stdHour | stdZeroMinute | stdZeroSecond
  | stdFracSecond0 nat | stdISO8601ColonTZ

text \<open>
  The element at the head of a layout, with its length. Elements that do not occur in the two layouts are
  left out.
\<close>

definition comma_or_period :: "char \<Rightarrow> bool" where
  "comma_or_period c \<longleftrightarrow> c = CHR ''.'' \<or> c = CHR '',''"

definition chunk_at :: "char \<Rightarrow> string \<Rightarrow> chunk \<times> nat" where
  "chunk_at c t =
     (let zeros = length (takeWhile (\<lambda>x. x = CHR ''0'') t) in
      if take 4 (c # t) = ''2006'' then (stdLongYear, 4)
      else if take 2 (c # t) = ''01'' then (stdZeroMonth, 2)
      else if take 2 (c # t) = ''02'' then (stdZeroDay, 2)
      else if take 2 (c # t) = ''15'' then (stdHour, 2)
      else if take 2 (c # t) = ''04'' then (stdZeroMinute, 2)
      else if take 2 (c # t) = ''05'' then (stdZeroSecond, 2)
      else if take 6 (c # t) = ''Z07:00'' then (stdISO8601ColonTZ, 6)
      else if comma_or_period c \<and> 0 < zeros \<and> (drop zeros t = [] \<or> \<not> is_digit (hd (drop zeros t)))
        then (stdFracSecond0 zeros, Suc zeros)
      else (Lit c, 1))"

lemma chunk_at_pos: "0 < snd (chunk_at c t)"
  by (simp add: chunk_at_def Let_def)

function chunks :: "string \<Rightarrow> chunk list" where
  "chunks [] = []"
| "chunks (c # t) = fst (chunk_at c t) # chunks (drop (snd (chunk_at c t)) (c # t))"
  by pat_completeness auto

termination
  by (relation "measure length") (auto simp: chunk_at_pos)

definition RFC3339 :: string where "RFC3339 = ''2006-01-02T15:04:05Z07:00''"
definition lenientLayout :: string where "lenientLayout = ''2006-01-02T15:04:05.000Z''"

text \<open>What the layouts have in common, up to the seconds.\<close>

definition date_chunks :: "chunk list" where
  "date_chunks = [stdLongYear, Lit CHR ''-'', stdZeroMonth, Lit CHR ''-'', stdZeroDay, Lit CHR ''T'', stdHour,
     Lit CHR '':'', stdZeroMinute, Lit CHR '':'']"

lemma chunks_RFC3339: "chunks RFC3339 = date_chunks @ [stdZeroSecond, stdISO8601ColonTZ]"
  by (simp add: RFC3339_def date_chunks_def chunk_at_def comma_or_period_def)

lemma chunks_lenient: "chunks lenientLayout = date_chunks @ [stdZeroSecond, stdFracSecond0 3, Lit CHR ''Z'']"
  by (simp add: lenientLayout_def date_chunks_def chunk_at_def comma_or_period_def is_digit_def)

section \<open>The value\<close>

record tm =
  tm_year :: nat
  tm_month :: nat
  tm_day :: nat
  tm_hour :: nat
  tm_min :: nat
  tm_sec :: nat
  tm_nsec :: nat
  tm_offset :: int

definition zero_tm :: tm where
  "zero_tm = \<lparr>tm_year = 0, tm_month = 1, tm_day = 1, tm_hour = 0, tm_min = 0, tm_sec = 0, tm_nsec = 0, tm_offset = 0\<rparr>"

text \<open>\<open>getnum\<close>: two digits, or one where the element allows it.\<close>

definition getnum :: "bool \<Rightarrow> string \<Rightarrow> (nat \<times> string) option" where
  "getnum fixed s = (case s of
     [] \<Rightarrow> None
   | a # t \<Rightarrow>
       if \<not> is_digit a then None
       else (case t of
           b # u \<Rightarrow> if is_digit b then Some (10 * digit_val a + digit_val b, u)
             else if fixed then None else Some (digit_val a, t)
         | [] \<Rightarrow> if fixed then None else Some (digit_val a, t)))"

text \<open>\<open>atoi\<close>: a sign or none, then digits only; the flag is the sign. No digits are 0.\<close>

definition atoi :: "string \<Rightarrow> (bool \<times> nat) option" where
  "atoi s = (let neg = (s \<noteq> [] \<and> hd s = CHR ''-'');
       t = (if s \<noteq> [] \<and> (hd s = CHR ''-'' \<or> hd s = CHR ''+'') then tl s else s)
     in if \<forall>c \<in> set t. is_digit c then Some (neg, digits_val t) else None)"

text \<open>
  \<open>parseNanoseconds(value, nbytes)\<close> of a value that has that many bytes: the separator and what follows it, as a
  decimal fraction of a second. A negative number is out of range.
\<close>

definition parseNanoseconds :: "string \<Rightarrow> nat \<Rightarrow> nat option" where
  "parseNanoseconds s nbytes = (case s of
     [] \<Rightarrow> None
   | c # t \<Rightarrow>
       if \<not> comma_or_period c then None
       else (let n = min 10 nbytes in case atoi (take (n - 1) t) of
           None \<Rightarrow> None
         | Some (neg, v) \<Rightarrow> if neg \<and> 0 < v then None else Some (v * 10 ^ (10 - n))))"

text \<open>The next element of the layout that is not literal.\<close>

fun next_std :: "chunk list \<Rightarrow> chunk option" where
  "next_std [] = None"
| "next_std (Lit c # cs) = next_std cs"
| "next_std (c # cs) = Some c"

definition is_frac :: "chunk option \<Rightarrow> bool" where
  "is_frac c \<longleftrightarrow> (case c of Some (stdFracSecond0 n) \<Rightarrow> True | _ \<Rightarrow> False)"

text \<open>After the seconds: a fraction that the layout does not mention is read, however many digits it has.\<close>

definition extra_fraction :: "chunk list \<Rightarrow> tm \<times> string \<Rightarrow> (tm \<times> string) option" where
  "extra_fraction layout ts = (case snd ts of
     c # d # u \<Rightarrow>
       if comma_or_period c \<and> is_digit d \<and> \<not> is_frac (next_std layout) then
         (let n = Suc (length (takeWhile is_digit (d # u))) in
          map_option (\<lambda>ns. ((fst ts)\<lparr>tm_nsec := ns\<rparr>, drop n (c # d # u))) (parseNanoseconds (c # d # u) n))
       else Some ts
   | _ \<Rightarrow> Some ts)"

text \<open>A zone: \<open>Z\<close>, or a sign with hours and minutes.\<close>

definition parse_zone :: "string \<Rightarrow> (int \<times> string) option" where
  "parse_zone s = (if take 1 s = ''Z'' then Some (0, drop 1 s)
     else if length s < 6 \<or> s ! 3 \<noteq> CHR '':'' then None
     else (case (getnum True (take 2 (drop 1 s)), getnum True (take 2 (drop 4 s))) of
         (Some (hr, _), Some (mm, _)) \<Rightarrow>
           if 24 < hr \<or> 60 < mm then None
           else if hd s = CHR ''+'' then Some (int ((hr * 60 + mm) * 60), drop 6 s)
           else if hd s = CHR ''-'' then Some (- int ((hr * 60 + mm) * 60), drop 6 s)
           else None
       | _ \<Rightarrow> None))"

text \<open>A number for a field, in its range.\<close>

definition field :: "(nat \<times> string) option \<Rightarrow> (nat \<Rightarrow> bool) \<Rightarrow> (nat \<Rightarrow> tm) \<Rightarrow> (tm \<times> string) option" where
  "field r ok f = (case r of Some (n, u) \<Rightarrow> if ok n then Some (f n, u) else None | None \<Rightarrow> None)"

text \<open>One element: \<open>layout\<close> is what follows it.\<close>

fun parse_chunk :: "chunk \<Rightarrow> chunk list \<Rightarrow> tm \<times> string \<Rightarrow> (tm \<times> string) option" where
  "parse_chunk (Lit c) layout (t, s) = (if take 1 s = [c] then Some (t, drop 1 s) else None)"
| "parse_chunk stdLongYear layout (t, s) =
     (if length s < 4 \<or> \<not> (\<forall>c \<in> set (take 4 s). is_digit c) then None
      else Some (t\<lparr>tm_year := digits_val (take 4 s)\<rparr>, drop 4 s))"
| "parse_chunk stdZeroMonth layout (t, s) = field (getnum True s) (\<lambda>n. 0 < n \<and> n \<le> 12) (\<lambda>n. t\<lparr>tm_month := n\<rparr>)"
| "parse_chunk stdZeroDay layout (t, s) = field (getnum True s) (\<lambda>_. True) (\<lambda>n. t\<lparr>tm_day := n\<rparr>)"
| "parse_chunk stdHour layout (t, s) = field (getnum False s) (\<lambda>n. n < 24) (\<lambda>n. t\<lparr>tm_hour := n\<rparr>)"
| "parse_chunk stdZeroMinute layout (t, s) = field (getnum True s) (\<lambda>n. n < 60) (\<lambda>n. t\<lparr>tm_min := n\<rparr>)"
| "parse_chunk stdZeroSecond layout (t, s) =
     Option.bind (field (getnum True s) (\<lambda>n. n < 60) (\<lambda>n. t\<lparr>tm_sec := n\<rparr>)) (extra_fraction layout)"
| "parse_chunk (stdFracSecond0 n) layout (t, s) =
     (if length s < Suc n then None
      else map_option (\<lambda>ns. (t\<lparr>tm_nsec := ns\<rparr>, drop (Suc n) s)) (parseNanoseconds s (Suc n)))"
| "parse_chunk stdISO8601ColonTZ layout (t, s) = map_option (\<lambda>(off, u). (t\<lparr>tm_offset := off\<rparr>, u)) (parse_zone s)"

text \<open>The loop over the layout; at its end nothing of the value may be left.\<close>

fun parse_chunks :: "chunk list \<Rightarrow> tm \<times> string \<Rightarrow> tm option" where
  "parse_chunks [] ts = (if snd ts = [] then Some (fst ts) else None)"
| "parse_chunks (c # layout) ts = Option.bind (parse_chunk c layout ts) (parse_chunks layout)"

section \<open>Dates\<close>

definition is_leap :: "nat \<Rightarrow> bool" where
  "is_leap y \<longleftrightarrow> y mod 4 = 0 \<and> (y mod 100 \<noteq> 0 \<or> y mod 400 = 0)"

definition daysIn :: "nat \<Rightarrow> nat \<Rightarrow> nat" where
  "daysIn m y = (if m = 2 then (if is_leap y then 29 else 28) else if m \<in> {4, 6, 9, 11} then 30 else 31)"

text \<open>Days from 1 January of year 0 to that of year \<open>y\<close>, and of the year before a month.\<close>

definition days_before_year :: "nat \<Rightarrow> nat" where
  "days_before_year y = 365 * y + (y + 3) div 4 - (y + 99) div 100 + (y + 399) div 400"

definition days_before_month :: "nat \<Rightarrow> nat \<Rightarrow> nat" where
  "days_before_month m y = sum_list (map (\<lambda>k. daysIn k y) [1..<m])"

text \<open>1 January 1970 is day 719528.\<close>

definition unix_day :: "nat \<Rightarrow> nat \<Rightarrow> nat \<Rightarrow> int" where
  "unix_day y m d = int (days_before_year y + days_before_month m y + d) - 1 - 719528"

text \<open>\<open>time.Date\<close> in the zone read; the result has no monotonic reading.\<close>

definition time_of :: "tm \<Rightarrow> gtime" where
  "time_of t = \<lparr>wall = (((unix_day (tm_year t) (tm_month t) (tm_day t) * 24 + int (tm_hour t)) * 60 + int (tm_min t)) * 60
      + int (tm_sec t) - tm_offset t) * second + int (tm_nsec t), mono = None\<rparr>"

definition time_Parse :: "string \<Rightarrow> string \<Rightarrow> gtime option" where
  "time_Parse layout s = Option.bind (parse_chunks (chunks layout) (zero_tm, s)) (\<lambda>t.
     if 1 \<le> tm_day t \<and> tm_day t \<le> daysIn (tm_month t) (tm_year t) then Some (time_of t) else None)"

section \<open>The calendar\<close>

lemma year_step: "days_before_year (Suc y) = days_before_year y + (if is_leap y then 366 else 365)"
proof -
  have div: "Suc n div k = n div k + (if Suc n mod k = 0 then 1 else 0)" if "0 < k" for n k :: nat
    using that by (simp add: div_Suc)
  have four: "(Suc y + 3) div 4 = (y + 3) div 4 + (if y mod 4 = 0 then 1 else 0)"
    using div [of 4 "y + 3"] by (simp add: mod_simps)
  have hundred: "(Suc y + 99) div 100 = (y + 99) div 100 + (if y mod 100 = 0 then 1 else 0)"
    using div [of 100 "y + 99"] by (simp add: mod_simps)
  have fourhundred: "(Suc y + 399) div 400 = (y + 399) div 400 + (if y mod 400 = 0 then 1 else 0)"
    using div [of 400 "y + 399"] by (simp add: mod_simps)
  define a b c where "a = (y + 3) div 4" and "b = (y + 99) div 100" and "c = (y + 399) div 400"
  have "b \<le> 365 * y + a" unfolding a_def b_def by linarith
  moreover have "y mod 100 = 0 \<Longrightarrow> y mod 4 = 0" "y mod 400 = 0 \<Longrightarrow> y mod 100 = 0"
    using mod_mod_cancel [of 4 100 y] mod_mod_cancel [of 100 400 y] by auto
  ultimately show ?thesis
    unfolding days_before_year_def four hundred fourhundred is_leap_def a_def [symmetric] b_def [symmetric] c_def [symmetric]
    by auto
qed

lemma month_step: "1 \<le> m \<Longrightarrow> days_before_month (Suc m) y = days_before_month m y + daysIn m y"
  by (simp add: days_before_month_def)

text \<open>The day after a day, by the length of the months, has the next number.\<close>

definition next_day :: "nat \<times> nat \<times> nat \<Rightarrow> nat \<times> nat \<times> nat" where
  "next_day = (\<lambda>(y, m, d). if d < daysIn m y then (y, m, Suc d) else if m < 12 then (y, Suc m, 1) else (Suc y, 1, 1))"

lemma year_length: "days_before_month 12 y + 31 = (if is_leap y then 366 else 365)"
  by (simp add: days_before_month_def upt_rec daysIn_def)

lemma unix_day_next:
  assumes "1 \<le> m" and "m \<le> 12" and "1 \<le> d" and "d \<le> daysIn m y"
  shows "(case next_day (y, m, d) of (y', m', d') \<Rightarrow> unix_day y' m' d') = unix_day y m d + 1"
proof -
  consider "d < daysIn m y" | "d = daysIn m y" "m < 12" | "d = daysIn m y" "m = 12" using assms by linarith
  then show ?thesis
  proof cases
    case 3
    then have "d = 31" by (simp add: daysIn_def)
    moreover have "days_before_month (Suc 0) (Suc y) = 0" by (simp add: days_before_month_def)
    ultimately show ?thesis
      using 3 year_length [of y] by (auto simp: next_day_def unix_day_def year_step)
  qed (use assms in \<open>auto simp: next_day_def unix_day_def month_step\<close>)
qed

lemma unix_epoch: "unix_day 1970 1 1 = 0"
  by (simp add: unix_day_def days_before_year_def days_before_month_def)

section \<open>The two layouts\<close>

text \<open>The elements before the seconds do not look at the rest of the layout.\<close>

fun feed :: "chunk list \<Rightarrow> tm \<times> string \<Rightarrow> (tm \<times> string) option" where
  "feed [] ts = Some ts"
| "feed (c # cs) ts = Option.bind (parse_chunk c [] ts) (feed cs)"

lemma parse_chunk_local: "c \<noteq> stdZeroSecond \<Longrightarrow> parse_chunk c layout ts = parse_chunk c [] ts"
  by (cases ts; cases c) simp_all

lemma parse_chunks_feed:
  "stdZeroSecond \<notin> set cs \<Longrightarrow> parse_chunks (cs @ ds) ts = Option.bind (feed cs ts) (parse_chunks ds)"
proof (induction cs arbitrary: ts)
  case (Cons c cs)
  then have "parse_chunk c (cs @ ds) ts = parse_chunk c [] ts" by (intro parse_chunk_local) auto
  with Cons show ?case by (cases "parse_chunk c [] ts") auto
qed simp

lemma dropped: "\<exists>a. s = a @ drop n s"
  by (metis append_take_drop_id)

lemma feed_suffix: "feed cs (t, s) = Some (t', s') \<Longrightarrow> stdZeroSecond \<notin> set cs \<Longrightarrow> \<exists>a. s = a @ s'"
proof (induction cs arbitrary: t s)
  case (Cons c cs)
  then obtain t1 s1 where c: "parse_chunk c [] (t, s) = Some (t1, s1)" and cs: "feed cs (t1, s1) = Some (t', s')"
    by (auto split: bind_splits)
  have two: "getnum fixed s = Some (n, u) \<Longrightarrow> \<exists>a. s = a @ u" for fixed n u
    by (auto simp: getnum_def split: list.splits if_splits)
  have "\<exists>a. s = a @ s1"
  proof (cases c)
    case stdISO8601ColonTZ
    then have "s1 = drop 1 s \<or> s1 = drop 6 s" using c by (auto simp: parse_zone_def split: if_splits option.splits)
    then show ?thesis using dropped by metis
  qed (use c Cons.prems(2) two in \<open>auto simp: field_def split: if_splits option.splits intro: dropped\<close>)
  with Cons.IH [OF cs] Cons.prems(2) show ?case by auto
qed simp

text \<open>
  A value that only the second layout takes: the three characters of its fraction begin with a sign.
\<close>

definition signed_fraction :: "string \<Rightarrow> bool" where
  "signed_fraction s \<longleftrightarrow> (\<exists>a p x d e. s = a @ [p, x, d, e, CHR ''Z''] \<and> comma_or_period p \<and> x \<in> {CHR ''+'', CHR ''-''})"

lemma digit_no_sign: "is_digit c \<Longrightarrow> c \<noteq> CHR ''-'' \<and> c \<noteq> CHR ''+''"
  by (auto simp: is_digit_def)

lemma getnum_suffix: "getnum fixed s = Some (n, u) \<Longrightarrow> \<exists>b. s = b @ u"
  by (auto simp: getnum_def split: list.splits if_splits)

lemma lenient_tail:
  assumes "parse_chunks [stdZeroSecond, stdFracSecond0 3, Lit CHR ''Z''] (t, s) = Some r" and "tm_offset t = 0"
  shows "parse_chunks [stdZeroSecond, stdISO8601ColonTZ] (t, s) = Some r \<or> signed_fraction s"
proof -
  obtain n u where n: "getnum True s = Some (n, u)" "n < 60"
    and rest: "parse_chunks [stdFracSecond0 3, Lit CHR ''Z''] (t\<lparr>tm_sec := n\<rparr>, u) = Some r"
    using assms(1) by (auto simp: field_def extra_fraction_def is_frac_def split: option.splits if_splits bind_splits list.splits)
  obtain ns where frac: "parseNanoseconds u 4 = Some ns" and len: "4 \<le> length u" and z: "drop 4 u = ''Z''"
    and r: "r = t\<lparr>tm_sec := n, tm_nsec := ns\<rparr>"
    using rest by (cases "drop 4 u") (auto split: bind_splits if_splits simp: Suc_le_eq)
  obtain p x d e where u: "u = [p, x, d, e, CHR ''Z'']"
    using len z by (auto simp: numeral_eq_Suc Suc_le_length_iff)
  have p: "comma_or_period p" and atoi: "atoi [x, d, e] \<noteq> None"
    using frac by (auto simp: u parseNanoseconds_def split: if_splits option.splits)
  show ?thesis
  proof (cases "is_digit x")
    case True
    then have de: "is_digit d" "is_digit e"
      using atoi digit_no_sign [OF True] by (auto simp: atoi_def split: if_splits)
    have "extra_fraction [stdISO8601ColonTZ] (t\<lparr>tm_sec := n\<rparr>, u) = Some (t\<lparr>tm_sec := n, tm_nsec := ns\<rparr>, ''Z'')"
    proof -
      have "Suc (length (takeWhile is_digit [x, d, e, CHR ''Z''])) = 4" using True de by (simp add: is_digit_def)
      then show ?thesis using p True frac unfolding extra_fraction_def u by (simp only: snd_conv list.case) (simp add: is_frac_def)
    qed
    then have "parse_chunks [stdZeroSecond, stdISO8601ColonTZ] (t, s) = Some (t\<lparr>tm_sec := n, tm_nsec := ns, tm_offset := 0\<rparr>)"
      using n by (simp add: field_def parse_zone_def)
    then show ?thesis using assms(2) by (simp add: r)
  next
    case False
    then have "x \<in> {CHR ''+'', CHR ''-''}" using atoi by (auto simp: atoi_def split: if_splits)
    then show ?thesis using p getnum_suffix [OF n(1)] unfolding u signed_fraction_def by blast
  qed
qed

lemma date_chunks_offset: "feed cs (t, s) = Some (t', s') \<Longrightarrow> stdZeroSecond \<notin> set cs \<Longrightarrow> stdISO8601ColonTZ \<notin> set cs
    \<Longrightarrow> tm_offset t' = tm_offset t"
proof (induction cs arbitrary: t s)
  case (Cons c cs)
  then obtain t1 s1 where c: "parse_chunk c [] (t, s) = Some (t1, s1)" and cs: "feed cs (t1, s1) = Some (t', s')"
    by (auto split: bind_splits)
  have "tm_offset t1 = tm_offset t"
    using c Cons.prems(2,3) by (cases c) (auto simp: field_def split: if_splits option.splits)
  with Cons.IH [OF cs] Cons.prems(2,3) show ?case by simp
qed simp

text \<open>So the second layout never helps with a value whose fraction is digits.\<close>

lemma lenient_is_RFC3339:
  assumes "time_Parse lenientLayout s = Some x"
  shows "time_Parse RFC3339 s = Some x \<or> signed_fraction s"
proof -
  have plain: "stdZeroSecond \<notin> set date_chunks" "stdISO8601ColonTZ \<notin> set date_chunks"
    by (simp_all add: date_chunks_def)
  obtain t u r where feed: "feed date_chunks (zero_tm, s) = Some (t, u)"
    and tail: "parse_chunks [stdZeroSecond, stdFracSecond0 3, Lit CHR ''Z''] (t, u) = Some r"
    and valid: "(if 1 \<le> tm_day r \<and> tm_day r \<le> daysIn (tm_month r) (tm_year r) then Some (time_of r) else None) = Some x"
    using assms by (auto simp: time_Parse_def chunks_lenient parse_chunks_feed [OF plain(1)] simp del: parse_chunks.simps split: bind_splits)
  have "tm_offset t = 0"
    using date_chunks_offset [OF feed plain] by (simp add: zero_tm_def)
  from lenient_tail [OF tail this] show ?thesis
  proof
    assume "parse_chunks [stdZeroSecond, stdISO8601ColonTZ] (t, u) = Some r"
    with feed valid show ?thesis
      by (simp add: time_Parse_def chunks_RFC3339 parse_chunks_feed [OF plain(1)] del: parse_chunks.simps)
  next
    assume "signed_fraction u"
    moreover obtain a where "s = a @ u" using feed_suffix [OF feed plain(1)] by blast
    ultimately have "signed_fraction s" unfolding signed_fraction_def by (metis append.assoc)
    then show ?thesis by simp
  qed
qed

section \<open>Writing a time\<close>

text \<open>A time in UTC with three digits of a fraction, as the metadata service writes it.\<close>

definition pad2 :: "nat \<Rightarrow> string" where
  "pad2 n = [digit (n div 10), digit (n mod 10)]"

definition pad3 :: "nat \<Rightarrow> string" where
  "pad3 n = [digit (n div 100), digit (n div 10 mod 10), digit (n mod 10)]"

definition pad4 :: "nat \<Rightarrow> string" where
  "pad4 n = [digit (n div 1000), digit (n div 100 mod 10), digit (n div 10 mod 10), digit (n mod 10)]"

definition stamp :: "nat \<Rightarrow> nat \<Rightarrow> nat \<Rightarrow> nat \<Rightarrow> nat \<Rightarrow> nat \<Rightarrow> nat \<Rightarrow> string" where
  "stamp y m d h mi s ms = pad4 y @ ''-'' @ pad2 m @ ''-'' @ pad2 d @ ''T'' @ pad2 h @ '':'' @ pad2 mi @ '':'' @ pad2 s
     @ ''.'' @ pad3 ms @ ''Z''"

lemma getnum_pad2: "n < 100 \<Longrightarrow> getnum fixed (pad2 n @ u) = Some (n, u)"
  by (simp add: getnum_def pad2_def is_digit_digit digit_val_digit less_mult_imp_div_less)

lemma digits_val_digits:
  assumes "\<forall>n \<in> set ns. n < 10"
  shows "digits_val (map digit ns) = foldl (\<lambda>a n. 10 * a + n) 0 ns \<and> (\<forall>c \<in> set (map digit ns). is_digit c)"
proof -
  have "foldl (\<lambda>a c. 10 * a + digit_val c) k (map digit ns) = foldl (\<lambda>a n. 10 * a + n) k ns" for k
    using assms by (induction ns arbitrary: k) (simp_all add: digit_val_digit)
  then show ?thesis using assms by (simp add: digits_val_def is_digit_digit)
qed

lemma split_ten:
  fixes n :: nat
  shows "10 * (n div 10) + n mod 10 = n" and "10 * (n div 100) + n div 10 mod 10 = n div 10"
    and "10 * (n div 1000) + n div 100 mod 10 = n div 100"
  using mult_div_mod_eq [of 10 n] mult_div_mod_eq [of 10 "n div 10"] mult_div_mod_eq [of 10 "n div 100"]
  by (simp_all add: div_mult2_eq [symmetric])

lemma pad4_digits:
  assumes "n < 10000"
  shows "digits_val (pad4 n) = n" and "\<forall>c \<in> set (pad4 n). is_digit c"
proof -
  have pad: "pad4 n = map digit [n div 1000, n div 100 mod 10, n div 10 mod 10, n mod 10]" by (simp add: pad4_def)
  have small: "\<forall>k \<in> set [n div 1000, n div 100 mod 10, n div 10 mod 10, n mod 10]. k < 10" using assms by auto
  have "foldl (\<lambda>a n. 10 * a + n) 0 [n div 1000, n div 100 mod 10, n div 10 mod 10, n mod 10] = n"
    using split_ten by (simp add: div_mult2_eq [symmetric])
  then show "digits_val (pad4 n) = n" "\<forall>c \<in> set (pad4 n). is_digit c"
    using digits_val_digits [OF small] unfolding pad by auto
qed

lemma pad3_digits:
  assumes "n < 1000"
  shows "digits_val (pad3 n) = n" and "\<forall>c \<in> set (pad3 n). is_digit c"
proof -
  have pad: "pad3 n = map digit [n div 100, n div 10 mod 10, n mod 10]" by (simp add: pad3_def)
  have small: "\<forall>k \<in> set [n div 100, n div 10 mod 10, n mod 10]. k < 10" using assms by auto
  have "foldl (\<lambda>a n. 10 * a + n) 0 [n div 100, n div 10 mod 10, n mod 10] = n"
    using split_ten by (simp add: div_mult2_eq [symmetric])
  then show "digits_val (pad3 n) = n" "\<forall>c \<in> set (pad3 n). is_digit c"
    using digits_val_digits [OF small] unfolding pad by auto
qed

lemma atoi_digits: "s \<noteq> [] \<Longrightarrow> \<forall>c \<in> set s. is_digit c \<Longrightarrow> atoi s = Some (False, digits_val s)"
  by (cases s) (auto simp: atoi_def dest: digit_no_sign)

lemma parse_milliseconds:
  assumes "ms < 1000"
  shows "extra_fraction [stdISO8601ColonTZ] (t, ''.'' @ pad3 ms @ ''Z'') = Some (t\<lparr>tm_nsec := ms * 10 ^ 6\<rparr>, ''Z'')"
proof -
  obtain a b c where abc: "pad3 ms = [a, b, c]" by (simp add: pad3_def)
  then have dig: "is_digit a" "is_digit b" "is_digit c" using pad3_digits(2) [OF assms] by auto
  then have four: "Suc (length (takeWhile is_digit [a, b, c, CHR ''Z''])) = 4" by (simp add: is_digit_def)
  have "atoi [a, b, c] = Some (False, ms)"
    using atoi_digits [of "[a, b, c]"] dig pad3_digits(1) [OF assms] by (simp add: abc)
  then have "parseNanoseconds [CHR ''.'', a, b, c, CHR ''Z''] 4 = Some (ms * 10 ^ 6)"
    by (simp add: parseNanoseconds_def comma_or_period_def)
  then show ?thesis
    using dig four unfolding extra_fraction_def abc
    by (simp only: snd_conv fst_conv append_Cons append_Nil list.case) (simp add: comma_or_period_def is_frac_def)
qed

text \<open>A valid time is read back as that time.\<close>

definition valid_stamp :: "nat \<Rightarrow> nat \<Rightarrow> nat \<Rightarrow> nat \<Rightarrow> nat \<Rightarrow> nat \<Rightarrow> nat \<Rightarrow> bool" where
  "valid_stamp y m d h mi s ms \<longleftrightarrow> y < 10000 \<and> 1 \<le> m \<and> m \<le> 12 \<and> 1 \<le> d \<and> d \<le> daysIn m y
     \<and> h < 24 \<and> mi < 60 \<and> s < 60 \<and> ms < 1000"

definition stamp_time :: "nat \<Rightarrow> nat \<Rightarrow> nat \<Rightarrow> nat \<Rightarrow> nat \<Rightarrow> nat \<Rightarrow> nat \<Rightarrow> gtime" where
  "stamp_time y m d h mi s ms =
     \<lparr>wall = (((unix_day y m d * 24 + int h) * 60 + int mi) * 60 + int s) * second + int (ms * 10 ^ 6), mono = None\<rparr>"

lemma daysIn_le: "daysIn m y \<le> 31"
  by (simp add: daysIn_def)

lemma parse_stamp:
  assumes "valid_stamp y m d h mi s ms"
  shows "time_Parse RFC3339 (stamp y m d h mi s ms) = Some (stamp_time y m d h mi s ms)"
proof -
  have v: "y < 10000" "0 < m" "m \<le> 12" "1 \<le> d" "d \<le> daysIn m y" "h < 24" "mi < 60" "s < 60" "ms < 1000"
    using assms by (auto simp: valid_stamp_def)
  have small: "m < 100" "d < 100" "h < 100" "mi < 100" "s < 100" using v daysIn_le [of m y] by linarith+
  have year: "take 4 (pad4 y @ u) = pad4 y" "drop 4 (pad4 y @ u) = u" "4 \<le> length (pad4 y @ u)" for u
    by (simp_all add: pad4_def)
  let ?t = "zero_tm\<lparr>tm_year := y, tm_month := m, tm_day := d, tm_hour := h, tm_min := mi\<rparr>"
  have date: "feed date_chunks (zero_tm, stamp y m d h mi s ms) = Some (?t, pad2 s @ ''.'' @ pad3 ms @ ''Z'')"
    using v pad4_digits [OF v(1)] unfolding date_chunks_def stamp_def
    by (simp add: year field_def getnum_pad2 small not_less del: take_append drop_append)
  have "parse_chunks [stdZeroSecond, stdISO8601ColonTZ] (?t, pad2 s @ ''.'' @ pad3 ms @ ''Z'')
      = Some (?t\<lparr>tm_sec := s, tm_nsec := ms * 10 ^ 6, tm_offset := 0\<rparr>)"
    using v(8) parse_milliseconds [OF v(9)] by (simp add: field_def getnum_pad2 small parse_zone_def)
  moreover have "stdZeroSecond \<notin> set date_chunks" by (simp add: date_chunks_def)
  ultimately have "parse_chunks (chunks RFC3339) (zero_tm, stamp y m d h mi s ms)
      = Some (?t\<lparr>tm_sec := s, tm_nsec := ms * 10 ^ 6, tm_offset := 0\<rparr>)"
    using date by (simp add: chunks_RFC3339 parse_chunks_feed del: parse_chunks.simps)
  then show ?thesis
    using v by (simp add: time_Parse_def time_of_def stamp_time_def zero_tm_def)
qed

end
