(* ===== verification/Credentials.thy ===== *)
theory Credentials
  imports Json Timestamps
begin

text \<open>
  The operator's credentials: the configuration from the environment and the static
  credentials (internal/huawei/auth.go), and the provider of pod-bound agency credentials
  with its cache (internal/huawei/podagency.go). The metadata service and the SDK's
  credentials builder are parameters, and so are the texts of the errors of Go's parsers.
\<close>

section \<open>auth.go\<close>

record Config =
  cf_ProjectId :: string
  cf_Region :: string
  cf_AccessKey :: string
  cf_SecretKey :: string

definition PodAgencyMode :: "Config \<Rightarrow> bool" where
  "PodAgencyMode c \<longleftrightarrow> cf_AccessKey c = [] \<or> cf_SecretKey c = []"

definition LoadConfigFromEnv :: "(string \<Rightarrow> string) \<Rightarrow> err + Config" where
  "LoadConfigFromEnv Getenv =
     (let cfg = \<lparr>
        cf_ProjectId = Getenv ''HUAWEI_PROJECT_ID'',
        cf_Region = Getenv ''HUAWEI_REGION'',
        cf_AccessKey = Getenv ''HUAWEI_ACCESS_KEY'',
        cf_SecretKey = Getenv ''HUAWEI_SECRET_KEY''\<rparr>
      in if cf_ProjectId cfg = [] then Inl (OtherError ''HUAWEI_PROJECT_ID env var is required'')
         else if cf_Region cfg = [] then Inl (OtherError ''HUAWEI_REGION env var is required'')
         else Inr cfg)"

text \<open>
  The builder of basic.Credentials with the calls made on it: access key, secret key,
  project, and the security token where \<open>WithSecurityToken\<close> was called.
\<close>

type_synonym 'c builder = "string \<Rightarrow> string \<Rightarrow> string \<Rightarrow> string option \<Rightarrow> err + 'c"

definition staticCredentialsFor ::
  "'c builder \<Rightarrow> Config \<Rightarrow> string \<Rightarrow> string \<Rightarrow> string \<Rightarrow> err + 'c" where
  "staticCredentialsFor build cfg accessKey secretKey securityToken =
     (case build accessKey secretKey (cf_ProjectId cfg)
         (if securityToken \<noteq> [] then Some securityToken else None) of
        Inl e \<Rightarrow> Inl (Errorf ''build credentials: '' e [])
      | Inr creds \<Rightarrow> Inr creds)"

section \<open>podagency.go: credentials and their age\<close>

definition metadataURL :: string where
  "metadataURL = ''http://169.254.169.254/openstack/latest/securitykey''"
definition metadataTimeout :: int where "metadataTimeout = 5 * second"
definition maxCacheAge :: int where "maxCacheAge = 10 * minute"
definition minRefreshLatency :: int where "minRefreshLatency = 60 * second"

record metadataPayload =
  mp_Access :: string
  mp_Secret :: string
  mp_SecurityToken :: string
  mp_ExpiresAt :: string

record PodAgencyCreds =
  pc_AccessKey :: string
  pc_SecretKey :: string
  pc_SecurityToken :: string
  pc_FetchedAt :: gtime
  pc_ExpiresAt :: gtime

text \<open>\<open>refreshRatio\<close> is 0.5, so \<open>time.Duration(float64(ttl)*refreshRatio)\<close> is \<open>half64 ttl\<close>.\<close>

definition needsRefresh :: "PodAgencyCreds \<Rightarrow> gtime \<Rightarrow> bool" where
  "needsRefresh c n =
     (let age = time_Sub n (pc_FetchedAt c) in
      if maxCacheAge < age then True
      else let ttl = time_Sub (pc_ExpiresAt c) (pc_FetchedAt c);
               threshold = max (half64 ttl) minRefreshLatency
           in threshold \<le> age)"

definition IsExpired :: "PodAgencyCreds \<Rightarrow> gtime \<Rightarrow> bool" where
  "IsExpired c n \<longleftrightarrow> \<not> time_Before n (pc_ExpiresAt c)"

section \<open>podagency.go: the provider\<close>

record PodAgencyProvider =
  pp_Timeout :: int
  pp_url :: string
  pp_cache :: "PodAgencyCreds option"

definition NewPodAgencyProvider :: PodAgencyProvider where
  "NewPodAgencyProvider = \<lparr>pp_Timeout = metadataTimeout, pp_url = metadataURL, pp_cache = None\<rparr>"

text \<open>
  What the provider calls: \<open>http.NewRequest\<close>, the HTTP client's \<open>Do\<close> (the status code
  and what \<open>io.ReadAll\<close> makes of the body), \<open>Format\<close> with RFC 3339, \<open>%q\<close> and the clock; and the errors
  with which \<open>json.Unmarshal\<close> refuses a body and \<open>time.Parse\<close> a value under a layout.
\<close>

record 'w Metadata =
  NewRequest :: "string \<Rightarrow> err option"
  Do :: "int \<Rightarrow> string \<Rightarrow> 'w \<Rightarrow> (err + int \<times> (err + string)) \<times> 'w"
  JsonError :: "string \<Rightarrow> err"
  TimeError :: "string \<Rightarrow> string \<Rightarrow> err"
  Format :: "gtime \<Rightarrow> string"
  Quote :: "string \<Rightarrow> string"
  Clock :: "'w \<Rightarrow> gtime \<times> 'w"

text \<open>
  \<open>json.Unmarshal(body, &payload)\<close>: the members of the object \<open>credential\<close> by the tags of the struct. A null leaves
  a field as it is, a key that is no field is skipped; a value of another type is an error, which is
  returned when all has been decoded (the flag).
\<close>

definition zero_payload :: metadataPayload where
  "zero_payload = \<lparr>mp_Access = [], mp_Secret = [], mp_SecurityToken = [], mp_ExpiresAt = []\<rparr>"

definition payload_fields :: "string list" where
  "payload_fields = [''access'', ''secret'', ''securitytoken'', ''expires_at'']"

definition set_payload :: "string \<Rightarrow> string \<Rightarrow> metadataPayload \<Rightarrow> metadataPayload" where
  "set_payload f v p =
     (if f = ''access'' then p\<lparr>mp_Access := v\<rparr>
      else if f = ''secret'' then p\<lparr>mp_Secret := v\<rparr>
      else if f = ''securitytoken'' then p\<lparr>mp_SecurityToken := v\<rparr>
      else p\<lparr>mp_ExpiresAt := v\<rparr>)"

definition decode_field :: "string \<times> jvalue \<Rightarrow> metadataPayload \<times> bool \<Rightarrow> metadataPayload \<times> bool" where
  "decode_field kv pb = (case (kv, pb) of ((k, v), (p, bad)) \<Rightarrow>
     (case find_field payload_fields k of
        None \<Rightarrow> (p, bad)
      | Some f \<Rightarrow> (case v of VNull \<Rightarrow> (p, bad) | VString x \<Rightarrow> (set_payload f x p, bad) | _ \<Rightarrow> (p, True))))"

definition decode_member :: "string \<times> jvalue \<Rightarrow> metadataPayload \<times> bool \<Rightarrow> metadataPayload \<times> bool" where
  "decode_member kv pb = (case (kv, pb) of ((k, v), (p, bad)) \<Rightarrow>
     (case find_field [''credential''] k of
        None \<Rightarrow> (p, bad)
      | Some f \<Rightarrow> (case v of VNull \<Rightarrow> (p, bad) | VObject ms \<Rightarrow> fold decode_field ms (p, bad) | _ \<Rightarrow> (p, True))))"

definition Unmarshal :: "string \<Rightarrow> metadataPayload option" where
  "Unmarshal body = (case read_json body of
     None \<Rightarrow> None
   | Some v \<Rightarrow> (case v of
         VNull \<Rightarrow> Some zero_payload
       | VObject ms \<Rightarrow> (case fold decode_member ms (zero_payload, False) of (p, bad) \<Rightarrow> if bad then None else Some p)
       | _ \<Rightarrow> None))"

text \<open>The two attempts to parse \<open>expires_at\<close>.\<close>

definition parseExpiresAt :: "'w Metadata \<Rightarrow> string \<Rightarrow> err + gtime" where
  "parseExpiresAt M t = (case time_Parse RFC3339 t of
       Some x \<Rightarrow> Inr x
     | None \<Rightarrow> (case time_Parse lenientLayout t of
           Some x \<Rightarrow> Inr x
         | None \<Rightarrow> Inl (Errorf (''parse expires_at '' @ Quote M t @ '': '') (TimeError M lenientLayout t) [])))"

definition credsOf :: "'w Metadata \<Rightarrow> metadataPayload \<Rightarrow> 'w \<Rightarrow> (err + PodAgencyCreds) \<times> 'w" where
  "credsOf M cred w =
     (if mp_Access cred = [] \<or> mp_Secret cred = []
      then (Inl (OtherError ''metadata response missing access/secret''), w)
      else case parseExpiresAt M (mp_ExpiresAt cred) of
          Inl e \<Rightarrow> (Inl e, w)
        | Inr expiresAt \<Rightarrow> (case Clock M w of (n, w') \<Rightarrow>
            (Inr \<lparr>pc_AccessKey = mp_Access cred, pc_SecretKey = mp_Secret cred,
               pc_SecurityToken = mp_SecurityToken cred, pc_FetchedAt = time_UTC n,
               pc_ExpiresAt = expiresAt\<rparr>, w')))"

definition fetch :: "'w Metadata \<Rightarrow> PodAgencyProvider \<Rightarrow> 'w \<Rightarrow> (err + PodAgencyCreds) \<times> 'w" where
  "fetch M p w = (case NewRequest M (pp_url p) of
       Some e \<Rightarrow> (Inl (Errorf ''build metadata request: '' e []), w)
     | None \<Rightarrow> (case Do M (pp_Timeout p) (pp_url p) w of (r, w1) \<Rightarrow> (case r of
           Inl e \<Rightarrow> (Inl (Errorf ''metadata service unreachable: '' e []), w1)
         | Inr (code, body) \<Rightarrow> (case body of
             Inl e \<Rightarrow> (Inl (Errorf ''read metadata response: '' e []), w1)
           | Inr b \<Rightarrow>
               if code \<noteq> 200 then
                 (Inl (OtherError (''metadata service returned HTTP '' @ format_d code @ '': '' @ b)), w1)
               else (case Unmarshal b of
                 None \<Rightarrow> (Inl (Errorf ''parse metadata JSON: '' (JsonError M b) []), w1)
               | Some cred \<Rightarrow> credsOf M cred w1)))))"

text \<open>
  \<open>Get\<close>: the two results of the method, credentials and error, each nil or not, with
  the provider and the world after it.
\<close>

definition PodAgency_Get :: "'w Metadata \<Rightarrow> PodAgencyProvider \<Rightarrow> 'w \<Rightarrow>
    (PodAgencyCreds option \<times> err option) \<times> PodAgencyProvider \<times> 'w" where
  "PodAgency_Get M p w = (case Clock M w of (t, w1) \<Rightarrow>
     (let n = time_UTC t in
      if (case pp_cache p of Some c \<Rightarrow> \<not> needsRefresh c n | None \<Rightarrow> False)
      then ((pp_cache p, None), p, w1)
      else (case fetch M p w1 of
          (Inr fresh, w2) \<Rightarrow> ((Some fresh, None), p\<lparr>pp_cache := Some fresh\<rparr>, w2)
        | (Inl e, w2) \<Rightarrow>
            (case pp_cache p of
               Some c \<Rightarrow>
                 if \<not> IsExpired c n then
                   ((Some c, Some (Errorf (''metadata refresh failed; using cached creds expiring at ''
                       @ Format M (pc_ExpiresAt c) @ '': '') e [])), p, w2)
                 else ((None, Some e), p, w2)
             | None \<Rightarrow> ((None, Some e), p, w2)))))"

definition Reset :: "PodAgencyProvider \<Rightarrow> PodAgencyProvider" where
  "Reset p = p\<lparr>pp_cache := None\<rparr>"

section \<open>The documented answer\<close>

text \<open>The JSON document of the comment in podagency.go, without white space.\<close>

definition documented_body :: "string \<Rightarrow> string \<Rightarrow> string \<Rightarrow> string \<Rightarrow> string" where
  "documented_body ak sk tok expires = object_text [(''credential'', object_text
     [(''access'', quoted ak), (''secret'', quoted sk), (''securitytoken'', quoted tok), (''expires_at'', quoted expires)])]"

lemma read_documented:
  assumes "plain ak" and "plain sk" and "plain tok" and "plain expires"
  shows "read_json (documented_body ak sk tok expires) = Some (VObject [(''credential'', VObject
    [(''access'', VString ak), (''secret'', VString sk), (''securitytoken'', VString tok), (''expires_at'', VString expires)])])"
proof -
  let ?inner = "[(''access'', quoted ak, VString ak), (''secret'', quoted sk, VString sk),
      (''securitytoken'', quoted tok, VString tok), (''expires_at'', quoted expires, VString expires)]"
  let ?text = "object_text (map (\<lambda>(k, t, v). (k, t)) ?inner)" and ?credential = "VObject (map (\<lambda>(k, t, v). (k, v)) ?inner)"
  have names: "plain ''access''" "plain ''secret''" "plain ''securitytoken''" "plain ''expires_at''" "plain ''credential''"
    by (simp_all add: plain_def)
  have "stands_for (Suc (1 + length ?inner)) (Suc 9998) ?text ?credential"
    by (rule object_stands) (use assms names quoted_stands in auto)
  moreover have "Suc (1 + length ?inner) = 6" "Suc 9998 = (9999 :: nat)" by simp_all
  ultimately have inner: "stands_for 6 9999 ?text ?credential" by (simp only:)
  have "stands_for (Suc (6 + length [(''credential'', ?text, ?credential)])) (Suc 9999)
      (object_text (map (\<lambda>(k, t, v). (k, t)) [(''credential'', ?text, ?credential)]))
      (VObject (map (\<lambda>(k, t, v). (k, v)) [(''credential'', ?text, ?credential)]))"
    by (rule object_stands) (use inner names(5) in \<open>simp_all only: list.simps ball_simps set_simps prod.case simp_thms\<close>)
  then have outer: "stands_for 8 10000 (documented_body ak sk tok expires) (VObject [(''credential'', VObject
      [(''access'', VString ak), (''secret'', VString sk), (''securitytoken'', VString tok), (''expires_at'', VString expires)])])"
    by (simp add: documented_body_def)
  have "8 \<le> fuel_for (documented_body ak sk tok expires)"
    by (simp add: fuel_for_def documented_body_def object_text_def quoted_def)
  with outer have "read_value (fuel_for (documented_body ak sk tok expires)) 10000 (documented_body ak sk tok expires @ [])
      = Got (VObject [(''credential'', VObject
      [(''access'', VString ak), (''secret'', VString sk), (''securitytoken'', VString tok), (''expires_at'', VString expires)])]) []"
    unfolding stands_for_def by blast
  then show ?thesis by (simp add: read_json_def maxNestingDepth_def skip_ws_def)
qed

lemma Unmarshal_documented:
  assumes "plain ak" and "plain sk" and "plain tok" and "plain expires"
  shows "Unmarshal (documented_body ak sk tok expires) =
    Some \<lparr>mp_Access = ak, mp_Secret = sk, mp_SecurityToken = tok, mp_ExpiresAt = expires\<rparr>"
  by (simp add: Unmarshal_def read_documented [OF assms] decode_member_def decode_field_def find_field_def payload_fields_def
      set_payload_def zero_payload_def)

lemma plain_stamp: "valid_stamp y m d h mi s ms \<Longrightarrow> plain (stamp y m d h mi s ms)"
proof -
  assume v: "valid_stamp y m d h mi s ms"
  have digits: "plain xs" if "\<forall>c \<in> set xs. is_digit c" for xs
    using that by (auto simp: plain_def is_digit_def)
  have two: "plain (pad2 n)" if "n < 100" for n
    by (rule digits) (use that in \<open>simp add: pad2_def is_digit_digit less_mult_imp_div_less\<close>)
  have join: "plain (xs @ ys) \<longleftrightarrow> plain xs \<and> plain ys" for xs ys by (auto simp: plain_def)
  have signs: "plain ''-''" "plain ''T''" "plain '':''" "plain ''.''" "plain ''Z''" by (simp_all add: plain_def)
  show ?thesis
    using v daysIn_le [of m y] digits [OF pad4_digits(2), of y] digits [OF pad3_digits(2), of ms]
    unfolding stamp_def join valid_stamp_def by (auto simp only: signs intro!: two)
qed

lemma fetch_documented:
  assumes "plain ak" "plain sk" "plain tok" and "ak \<noteq> []" "sk \<noteq> []" and "valid_stamp y m d h mi s ms"
    and "NewRequest M (pp_url p) = None"
    and "Do M (pp_Timeout p) (pp_url p) w = (Inr (200, Inr (documented_body ak sk tok (stamp y m d h mi s ms))), w1)"
    and "Clock M w1 = (t, w2)"
  shows "fetch M p w = (Inr \<lparr>pc_AccessKey = ak, pc_SecretKey = sk, pc_SecurityToken = tok,
      pc_FetchedAt = time_UTC t, pc_ExpiresAt = stamp_time y m d h mi s ms\<rparr>, w2)"
  using assms Unmarshal_documented [OF assms(1-3) plain_stamp [OF assms(6)]] parse_stamp [OF assms(6)]
  by (simp add: fetch_def credsOf_def parseExpiresAt_def)

section \<open>Properties\<close>

text \<open>Times that went through \<open>UTC()\<close> or the parser have a wall reading only.\<close>

definition wall_only :: "gtime \<Rightarrow> bool" where
  "wall_only t \<longleftrightarrow> mono t = None"

lemma wall_Sub: "wall_only t \<Longrightarrow> time_Sub t u = saturate64 (wall t - wall u)"
  by (simp add: time_Sub_def wall_only_def)

lemma wall_Before: "wall_only t \<Longrightarrow> time_Before t u \<longleftrightarrow> wall t < wall u"
  by (simp add: time_Before_def wall_only_def)

lemma saturate64_mono: "x \<le> y \<Longrightarrow> saturate64 x \<le> saturate64 y"
  by (auto simp: saturate64_def)

text \<open>
  C30. Cached credentials that need no refresh are at most 10 minutes old; and if they were issued for at least
  60 s, they are not expired: the age is below half of the lifetime or below 60 s.
  (Times are compared on the wall clock; \<open>UTC()\<close> strips the monotonic reading.)
\<close>

theorem fresh_is_not_expired:
  assumes "\<not> needsRefresh c n" and "wall_only n" and "wall_only (pc_ExpiresAt c)"
    and "wall (pc_FetchedAt c) + 60 * second \<le> wall (pc_ExpiresAt c)"
  shows "\<not> IsExpired c n \<and> time_Sub n (pc_FetchedAt c) \<le> 10 * minute"
proof -
  let ?age = "wall n - wall (pc_FetchedAt c)" and ?ttl = "wall (pc_ExpiresAt c) - wall (pc_FetchedAt c)"
  from assms(1) have age: "saturate64 ?age \<le> 10 * minute"
    and below: "saturate64 ?age < max (half64 (saturate64 ?ttl)) (60 * second)"
    by (auto simp: needsRefresh_def Let_def wall_Sub assms(2,3) maxCacheAge_def minRefreshLatency_def split: if_splits)
  have ttl: "60 * second \<le> saturate64 ?ttl"
    using assms(4) by (auto simp: saturate64_def second_def)
  then have "half64 (saturate64 ?ttl) \<le> saturate64 ?ttl"
    by (intro half64_le) (simp add: second_def)
  with below ttl have "saturate64 ?age < saturate64 ?ttl" by linarith
  then have "?age < ?ttl" using saturate64_mono [of ?ttl ?age] by linarith
  then show ?thesis
    using age by (simp add: IsExpired_def wall_Before wall_Sub assms(2))
qed

text \<open>Credentials fetched at wall time 0 for the given lifetime, and a metadata service for them.\<close>

definition demo_creds :: "int \<Rightarrow> PodAgencyCreds" where
  "demo_creds lifetime = \<lparr>pc_AccessKey = ''AK'', pc_SecretKey = ''SK'', pc_SecurityToken = ''T'',
     pc_FetchedAt = \<lparr>wall = 0, mono = None\<rparr>, pc_ExpiresAt = \<lparr>wall = lifetime, mono = None\<rparr>\<rparr>"

definition demo_metadata :: "int \<Rightarrow> (err + int \<times> (err + string)) \<Rightarrow> 'w Metadata" where
  "demo_metadata t answer = \<lparr>
     NewRequest = (\<lambda>_. None), Do = (\<lambda>_ _ w. (answer, w)),
     JsonError = (\<lambda>_. OtherError ''invalid JSON''), TimeError = (\<lambda>_ _. OtherError ''invalid time''),
     Format = (\<lambda>_. ''then''), Quote = (\<lambda>s. s), Clock = (\<lambda>w. (\<lparr>wall = t, mono = Some 1\<rparr>, w))\<rparr>"

text \<open>What the service answers at 900 s: new credentials for an hour.\<close>

definition demo_body :: string where
  "demo_body = documented_body ''AK2'' ''SK2'' ''T2'' (stamp 1970 1 1 1 15 0 0)"

definition demo_provider :: "int \<Rightarrow> PodAgencyProvider" where
  "demo_provider lifetime = NewPodAgencyProvider\<lparr>pp_cache := Some (demo_creds lifetime)\<rparr>"

lemmas demo_creds_defs = demo_creds_def demo_metadata_def demo_provider_def NewPodAgencyProvider_def
  time_UTC_def second_def minute_def

lemma demo_fetch:
  "fetch (demo_metadata (900 * second) (Inr (200, Inr demo_body))) p () =
     (Inr \<lparr>pc_AccessKey = ''AK2'', pc_SecretKey = ''SK2'', pc_SecurityToken = ''T2'',
        pc_FetchedAt = \<lparr>wall = 900 * second, mono = None\<rparr>, pc_ExpiresAt = \<lparr>wall = 4500 * second, mono = None\<rparr>\<rparr>, ())"
proof -
  have "valid_stamp 1970 1 1 1 15 0 0" and "stamp_time 1970 1 1 1 15 0 0 = \<lparr>wall = 4500 * second, mono = None\<rparr>"
    using unix_epoch by (simp_all add: valid_stamp_def daysIn_def stamp_time_def)
  moreover have "plain ''AK2''" "plain ''SK2''" "plain ''T2''" by (simp_all add: plain_def)
  ultimately show ?thesis
    using fetch_documented [of "''AK2''" "''SK2''" "''T2''" 1970 1 1 1 15 0 0
        "demo_metadata (900 * second) (Inr (200, Inr demo_body))" p "()" "()" "\<lparr>wall = 900 * second, mono = Some 1\<rparr>" "()"]
    by (simp add: demo_metadata_def demo_body_def time_UTC_def)
qed

lemma demo_agency_get:
  "PodAgency_Get (demo_metadata (900 * second) (Inr (200, Inr demo_body))) (demo_provider (3600 * second)) () =
    (let c = \<lparr>pc_AccessKey = ''AK2'', pc_SecretKey = ''SK2'', pc_SecurityToken = ''T2'',
        pc_FetchedAt = \<lparr>wall = 900 * second, mono = None\<rparr>, pc_ExpiresAt = \<lparr>wall = 4500 * second, mono = None\<rparr>\<rparr>
     in ((Some c, None), (demo_provider (3600 * second))\<lparr>pp_cache := Some c\<rparr>, ()))"
proof -
  have clock: "Clock (demo_metadata (900 * second) (Inr (200, Inr demo_body))) () = (\<lparr>wall = 900 * second, mono = Some 1\<rparr>, ())"
    by (simp add: demo_metadata_def)
  have "needsRefresh (demo_creds (3600 * second)) \<lparr>wall = 900 * second, mono = None\<rparr>"
    by (simp add: needsRefresh_def demo_creds_def second_def minute_def time_Sub_def saturate64_def maxCacheAge_def)
  then show ?thesis
    by (simp add: PodAgency_Get_def clock time_UTC_def demo_fetch demo_provider_def Let_def)
qed

lemma half_hour: "half64 3600000000000 = 1800000000000"
  by (simp add: half64_exact)

theorem fresh_is_not_expired_witness:
  "\<not> IsExpired (demo_creds (3600 * second)) \<lparr>wall = 500 * second, mono = None\<rparr>"
proof -
  have "\<not> needsRefresh (demo_creds (3600 * second)) \<lparr>wall = 500 * second, mono = None\<rparr>"
    by (simp add: needsRefresh_def demo_creds_defs time_Sub_def saturate64_def maxCacheAge_def half_hour)
  then show ?thesis
    by (rule fresh_is_not_expired [THEN conjunct1]) (simp_all add: demo_creds_defs wall_only_def)
qed

text \<open>
  C31. During the first minute after a fetch the cache is served without asking the
  metadata service and without looking at the expiry: credentials that were issued for less than
  a minute are handed out, with no error, after they have expired.
\<close>

theorem first_minute_ignores_expiry:
  assumes "pp_cache p = Some c" and "Clock M w = (t, w1)" and "wall_only (pc_FetchedAt c)"
    and "wall (pc_FetchedAt c) \<le> wall t" and "wall t < wall (pc_FetchedAt c) + 60 * second"
  shows "PodAgency_Get M p w = ((Some c, None), p, w1)
    \<and> (IsExpired c (time_UTC t) \<longleftrightarrow> wall (pc_ExpiresAt c) \<le> wall t)"
proof -
  have u: "wall_only (time_UTC t)" "wall (time_UTC t) = wall t"
    by (simp_all add: wall_only_def time_UTC_def)
  have "saturate64 (wall t - wall (pc_FetchedAt c)) < 60 * second"
    using assms(5) by (auto simp: saturate64_def second_def)
  then have "\<not> needsRefresh c (time_UTC t)"
    by (auto simp: needsRefresh_def Let_def wall_Sub u maxCacheAge_def minRefreshLatency_def minute_def second_def)
  then show ?thesis
    using assms(1,2) u by (auto simp: PodAgency_Get_def Let_def IsExpired_def wall_Before)
qed

theorem first_minute_ignores_expiry_witness:
  "PodAgency_Get (demo_metadata (45 * second) (Inl (OtherError ''down''))) (demo_provider (30 * second)) ()
     = ((Some (demo_creds (30 * second)), None), demo_provider (30 * second), ())
   \<and> IsExpired (demo_creds (30 * second)) \<lparr>wall = 45 * second, mono = None\<rparr>"
proof -
  have "pp_cache (demo_provider (30 * second)) = Some (demo_creds (30 * second))"
    and "Clock (demo_metadata (45 * second) (Inl (OtherError ''down''))) () = (\<lparr>wall = 45 * second, mono = Some 1\<rparr>, ())"
    and "wall_only (pc_FetchedAt (demo_creds (30 * second)))"
    by (simp_all add: demo_creds_defs wall_only_def)
  from first_minute_ignores_expiry [OF this] show ?thesis
    by (simp add: demo_creds_defs)
qed

lemma fetch_complete:
  assumes "fetch M p w = (Inr c, w')"
  shows "\<exists>b cred w1. Do M (pp_Timeout p) (pp_url p) w = (Inr (200, Inr b), w1) \<and> Unmarshal b = Some cred
    \<and> mp_Access cred \<noteq> [] \<and> mp_Secret cred \<noteq> []
    \<and> (time_Parse RFC3339 (mp_ExpiresAt cred) = Some (pc_ExpiresAt c)
       \<or> time_Parse lenientLayout (mp_ExpiresAt cred) = Some (pc_ExpiresAt c))
    \<and> pc_AccessKey c = mp_Access cred \<and> pc_SecretKey c = mp_Secret cred
    \<and> pc_SecurityToken c = mp_SecurityToken cred \<and> wall_only (pc_FetchedAt c)
    \<and> pc_FetchedAt c = time_UTC (fst (Clock M w1))"
  using assms
  by (auto simp: fetch_def credsOf_def parseExpiresAt_def wall_only_def time_UTC_def
      split: prod.splits sum.splits option.splits if_splits)

definition complete_answer :: "'w Metadata \<Rightarrow> PodAgencyProvider \<Rightarrow> 'w \<Rightarrow> PodAgencyCreds \<Rightarrow> bool" where
  "complete_answer M p w c \<longleftrightarrow> (\<exists>b cred w1. Do M (pp_Timeout p) (pp_url p) w = (Inr (200, Inr b), w1)
     \<and> Unmarshal b = Some cred
     \<and> pc_AccessKey c = mp_Access cred \<and> mp_Access cred \<noteq> []
     \<and> pc_SecretKey c = mp_Secret cred \<and> mp_Secret cred \<noteq> []
     \<and> pc_SecurityToken c = mp_SecurityToken cred \<and> pc_FetchedAt c = time_UTC (fst (Clock M w1))
     \<and> (\<exists>layout \<in> {RFC3339, lenientLayout}. time_Parse layout (mp_ExpiresAt cred) = Some (pc_ExpiresAt c)))"

text \<open>
  C28. What \<open>Get\<close> promises. Without an error it returns credentials and leaves them in the
  cache: the cached ones where they need no refresh, or ones made from a complete
  answer of the metadata service (HTTP 200, JSON that decodes, access and secret key present, an expiry
  that parses) and stamped with the time after it. With an error it leaves the cache alone, and returns the cached
  credentials if there are any that have not expired, and none otherwise.
\<close>

theorem get_contract:
  assumes "PodAgency_Get M p w = ((creds, e), p', w')" and "Clock M w = (t, w1)"
  shows "if e = None
    then (\<exists>c. creds = Some c \<and> pp_cache p' = Some c
      \<and> (p' = p \<and> \<not> needsRefresh c (time_UTC t) \<or> complete_answer M p w1 c))
    else p' = p \<and> creds = (case pp_cache p of
        None \<Rightarrow> None | Some c \<Rightarrow> if IsExpired c (time_UTC t) then None else Some c)"
proof -
  have ans: "complete_answer M p w1 c" if "fetch M p w1 = (Inr c, w2)" for c w2
    using fetch_complete [OF that] unfolding complete_answer_def by blast
  show ?thesis
    using assms ans
    by (cases "pp_cache p"; auto simp: PodAgency_Get_def Let_def split: prod.splits sum.splits if_splits; metis)
qed

theorem get_contract_witness:
  "pp_cache (fst (snd (PodAgency_Get (demo_metadata (900 * second) (Inr (200, Inr demo_body))) (demo_provider (3600 * second)) ())))
     \<noteq> pp_cache (demo_provider (3600 * second))
   \<and> (\<exists>c. complete_answer (demo_metadata (900 * second) (Inr (200, Inr demo_body))) (demo_provider (3600 * second)) () c
        \<and> pc_AccessKey c = ''AK2'')"
proof -
  let ?M = "demo_metadata (900 * second) (Inr (200, Inr demo_body))" and ?p = "demo_provider (3600 * second)"
  let ?c = "\<lparr>pc_AccessKey = ''AK2'', pc_SecretKey = ''SK2'', pc_SecurityToken = ''T2'',
      pc_FetchedAt = \<lparr>wall = 900 * second, mono = None\<rparr>, pc_ExpiresAt = \<lparr>wall = 4500 * second, mono = None\<rparr>\<rparr>"
  have run: "PodAgency_Get ?M ?p () = ((Some ?c, None), ?p\<lparr>pp_cache := Some ?c\<rparr>, ())"
    by (simp add: demo_agency_get Let_def)
  have clock: "Clock ?M () = (\<lparr>wall = 900 * second, mono = Some 1\<rparr>, ())" by (simp add: demo_metadata_def)
  have new: "?p\<lparr>pp_cache := Some ?c\<rparr> \<noteq> ?p" by (simp add: demo_creds_defs)
  from get_contract [OF run clock] new run show ?thesis
    by (auto simp: demo_provider_def demo_creds_def)
qed

text \<open>
  C29. A round trip through the metadata service: whatever (printable) keys and token and whatever
  valid UTC time with milliseconds it writes into its documented JSON document, \<open>fetch\<close> reads exactly
  those: JSON, the fields of the payload, the date, and the calendar down to the nanoseconds since
  the epoch.
\<close>

theorem documented_answer_is_read:
  assumes "plain ak" "plain sk" "plain tok" and "ak \<noteq> []" "sk \<noteq> []" and "valid_stamp y m d h mi s ms"
    and "NewRequest M (pp_url p) = None"
    and "Do M (pp_Timeout p) (pp_url p) w = (Inr (200, Inr (documented_body ak sk tok (stamp y m d h mi s ms))), w1)"
    and "Clock M w1 = (t, w2)"
  shows "fetch M p w = (Inr \<lparr>pc_AccessKey = ak, pc_SecretKey = sk, pc_SecurityToken = tok,
      pc_FetchedAt = time_UTC t, pc_ExpiresAt = stamp_time y m d h mi s ms\<rparr>, w2)"
  by (rule fetch_documented) (rule assms)+

text \<open>The time of the comment: 10 May 2026, 18:42 UTC, is 1778438520 s after the epoch.\<close>

theorem documented_answer_is_read_witness:
  "fst (fetch (demo_metadata 0 (Inr (200, Inr (documented_body ''AK'' ''SK'' ''token'' (stamp 2026 5 10 18 42 0 0)))))
      NewPodAgencyProvider ()) = Inr \<lparr>pc_AccessKey = ''AK'', pc_SecretKey = ''SK'', pc_SecurityToken = ''token'',
      pc_FetchedAt = \<lparr>wall = 0, mono = None\<rparr>, pc_ExpiresAt = \<lparr>wall = 1778438520 * second, mono = None\<rparr>\<rparr>
   \<and> stamp 2026 5 10 18 42 0 0 = ''2026-05-10T18:42:00.000Z''"
proof -
  let ?M = "demo_metadata 0 (Inr (200, Inr (documented_body ''AK'' ''SK'' ''token'' (stamp 2026 5 10 18 42 0 0))))"
  have valid: "valid_stamp 2026 5 10 18 42 0 0" by (simp add: valid_stamp_def daysIn_def)
  have time: "stamp_time 2026 5 10 18 42 0 0 = \<lparr>wall = 1778438520 * second, mono = None\<rparr>"
    by (simp add: stamp_time_def unix_day_def days_before_year_def days_before_month_def upt_rec daysIn_def is_leap_def)
  have "fetch ?M NewPodAgencyProvider () = (Inr \<lparr>pc_AccessKey = ''AK'', pc_SecretKey = ''SK'', pc_SecurityToken = ''token'',
      pc_FetchedAt = time_UTC \<lparr>wall = 0, mono = Some 1\<rparr>, pc_ExpiresAt = stamp_time 2026 5 10 18 42 0 0\<rparr>, ())"
    by (rule documented_answer_is_read [OF _ _ _ _ _ valid]) (simp_all add: plain_def demo_metadata_def)
  moreover have "stamp 2026 5 10 18 42 0 0 = ''2026-05-10T18:42:00.000Z''"
    by (simp add: stamp_def pad2_def pad3_def pad4_def digit_def char_of_def bit_0)
  ultimately show ?thesis by (simp add: time time_UTC_def)
qed

text \<open>
  C32. The second layout of \<open>fetch\<close> is never needed: RFC 3339 already takes a fraction of a second, so for every value of
  \<open>expires_at\<close> the two attempts give what the first alone gives, except for values that are no
  time at all, with a sign inside the fraction (such as \<open>.+12Z\<close>), which only the second attempt takes.
\<close>

theorem second_layout_is_never_needed:
  assumes "\<not> signed_fraction t"
  shows "parseExpiresAt M t = (case time_Parse RFC3339 t of
     Some x \<Rightarrow> Inr x
   | None \<Rightarrow> Inl (Errorf (''parse expires_at '' @ Quote M t @ '': '') (TimeError M lenientLayout t) []))"
  using lenient_is_RFC3339 [of t] assms by (auto simp: parseExpiresAt_def split: option.splits)

theorem second_layout_is_never_needed_witness:
  "parseExpiresAt (demo_metadata 0 (Inl (OtherError []))) ''tomorrow'' =
     Inl (Errorf (''parse expires_at tomorrow: '') (OtherError ''invalid time'') [])
   \<and> parseExpiresAt (demo_metadata 0 (Inl (OtherError []))) ''1970-01-01T00:00:00.+12Z'' = Inr \<lparr>wall = 12000000, mono = None\<rparr>
   \<and> time_Parse RFC3339 ''1970-01-01T00:00:00.+12Z'' = None"
proof -
  have "\<not> signed_fraction ''tomorrow''"
  proof
    assume "signed_fraction ''tomorrow''"
    then obtain a p x d e where "''tomorrow'' = a @ [p, x, d, e, CHR ''Z'']" by (auto simp: signed_fraction_def)
    then have "last ''tomorrow'' = last (a @ [p, x, d, e, CHR ''Z''])" by (rule arg_cong)
    then show False by simp
  qed
  moreover have "time_Parse RFC3339 ''tomorrow'' = None"
    by (simp add: time_Parse_def chunks_RFC3339 date_chunks_def is_digit_def)
  moreover have parse: "time_Parse RFC3339 ''1970-01-01T00:00:00.+12Z'' = None"
    "time_Parse lenientLayout ''1970-01-01T00:00:00.+12Z'' = Some \<lparr>wall = 12000000, mono = None\<rparr>"
    by (simp_all add: time_Parse_def chunks_RFC3339 chunks_lenient date_chunks_def zero_tm_def field_def getnum_def
        is_digit_def digit_val_def digits_val_def extra_fraction_def is_frac_def comma_or_period_def parse_zone_def
        parseNanoseconds_def atoi_def daysIn_def time_of_def unix_epoch [simplified] Let_def)
  ultimately show ?thesis
    using second_layout_is_never_needed [of "''tomorrow''" "demo_metadata 0 (Inl (OtherError []))"]
    by (simp add: parseExpiresAt_def demo_metadata_def)
qed

end
