(* ===== verification/Client.thy ===== *)
theory Client
  imports Credentials Huawei_Api
begin

text \<open>
  The API client (internal/huawei/client.go): its construction, the SDK handle it keeps,
  and the methods of \<open>Interface\<close>. The Huawei SDK is a parameter: its region table, its
  builders and its calls, with the fields of the requests and responses the code uses.
  Pointers of the SDK's structures are options.
\<close>

section \<open>The SDK\<close>

record Metadata_block =
  md_CryptKeyId :: "string option"
  md_AutoCreateSecurityGroupRules :: "string option"

record Share =
  sh_Name :: string
  sh_Size :: int32
  sh_ShareProto :: string
  sh_ShareType :: string
  sh_AvailabilityZone :: string
  sh_VpcId :: string
  sh_SubnetId :: string
  sh_SecurityGroupId :: string
  sh_Metadata :: "Metadata_block option"
  sh_Tags :: "(string \<times> string) list option"

text \<open>An entry of the \<open>ListShares\<close> response, and the \<open>ShowShare\<close> response.\<close>

record ShareListing =
  ls_Id :: "string option"
  ls_Name :: "string option"
  ls_Status :: "string option"
  ls_ExportLocation :: "string option"
  ls_AvailabilityZone :: "string option"

record ShowShareResponse =
  rs_Id :: "string option"
  rs_Status :: "string option"
  rs_SubStatus :: "string option"
  rs_ExportLocation :: "string option"
  rs_AvailabilityZone :: "string option"
  rs_ShareType :: "string option"
  rs_CryptKeyId :: "string option"
  rs_SubnetId :: "string option"
  rs_VpcId :: "string option"
  rs_SecurityGroupId :: "string option"
  rs_Size :: "string option"

text \<open>
  \<open>'r\<close> is a region, \<open>'c\<close> a credential and \<open>'h\<close> a built SDK client. \<open>None\<close> in a
  response is a nil response, or a response without the part the code reads.
\<close>

record ('w, 'r, 'c, 'h) SDK =
  sdk_SafeValueOf :: "string \<Rightarrow> err + 'r"
  sdk_BuildCredentials :: "'c builder"
  sdk_Build :: "'r \<Rightarrow> 'c \<Rightarrow> err + 'h"
  sdk_CreateShare :: "'h \<Rightarrow> Share \<Rightarrow> 'w \<Rightarrow> (err + string option) \<times> 'w"
  sdk_ListShares :: "'h \<Rightarrow> 'w \<Rightarrow> (err + ShareListing list option) \<times> 'w"
  sdk_ShowShare :: "'h \<Rightarrow> string \<Rightarrow> 'w \<Rightarrow> (err + ShowShareResponse option) \<times> 'w"
  sdk_ExpandShare :: "'h \<Rightarrow> string \<Rightarrow> int32 \<Rightarrow> 'w \<Rightarrow> err option \<times> 'w"
  sdk_DeleteShare :: "'h \<Rightarrow> string \<Rightarrow> 'w \<Rightarrow> err option \<times> 'w"
  sdk_ShowSharedTags :: "'h \<Rightarrow> string \<Rightarrow> 'w \<Rightarrow> (err + (string \<times> string) list option) \<times> 'w"
  sdk_CreateSharedTag :: "'h \<Rightarrow> string \<Rightarrow> string \<Rightarrow> string \<Rightarrow> 'w \<Rightarrow> err option \<times> 'w"
  sdk_DeleteSharedTag :: "'h \<Rightarrow> string \<Rightarrow> string \<Rightarrow> 'w \<Rightarrow> err option \<times> 'w"
  sdk_ChangeSecurityGroup :: "'h \<Rightarrow> string \<Rightarrow> string \<Rightarrow> 'w \<Rightarrow> err option \<times> 'w"

section \<open>The client and its state\<close>

record ('r, 'h) Client =
  cl_cfg :: Config
  cl_region :: 'r
  cl_podAgency :: "PodAgencyProvider option"
  cl_sdk :: "'h option"

text \<open>What a method works on: the client behind the receiver and the world outside.\<close>

record ('w, 'r, 'h) site =
  outside :: 'w
  client :: "('r, 'h) Client"

type_synonym ('w, 'r, 'h, 'a) client_op = "(('w, 'r, 'h) site, 'a) state"

definition ask :: "('w \<Rightarrow> 'a \<times> 'w) \<Rightarrow> ('w, 'r, 'h, 'a) client_op" where
  "ask op = State (\<lambda>s. case op (outside s) of (r, w) \<Rightarrow> (r, s\<lparr>outside := w\<rparr>))"

lemma run_ask [simp]: "run_state (ask op) s = (case op (outside s) of (r, w) \<Rightarrow> (r, s\<lparr>outside := w\<rparr>))"
  by (simp add: ask_def)

definition build_sdk :: "('w, 'r, 'c, 'h) SDK \<Rightarrow> string \<Rightarrow> 'r \<Rightarrow> err + 'c \<Rightarrow> err + 'h" where
  "build_sdk S wrap region creds = (case creds of
       Inl e \<Rightarrow> Inl (if wrap = [] then e else Errorf wrap e [])
     | Inr c \<Rightarrow> (case sdk_Build S region c of
           Inl e \<Rightarrow> Inl (Errorf ''build SFS Turbo SDK client: '' e [])
         | Inr h \<Rightarrow> Inr h))"

definition NewClient :: "('w, 'r, 'c, 'h) SDK \<Rightarrow> (string \<Rightarrow> string) \<Rightarrow> Config \<Rightarrow> err + ('r, 'h) Client" where
  "NewClient S quote cfg = (case sdk_SafeValueOf S (cf_Region cfg) of
       Inl e \<Rightarrow> Inl (Errorf (''unknown SFS Turbo region '' @ quote (cf_Region cfg) @ '' (try ap-southeast-1): '') e [])
     | Inr region \<Rightarrow>
         if PodAgencyMode cfg then
           Inr \<lparr>cl_cfg = cfg, cl_region = region, cl_podAgency = Some NewPodAgencyProvider, cl_sdk = None\<rparr>
         else (case build_sdk S [] region
             (staticCredentialsFor (sdk_BuildCredentials S) cfg (cf_AccessKey cfg) (cf_SecretKey cfg) []) of
             Inl e \<Rightarrow> Inl e
           | Inr h \<Rightarrow> Inr \<lparr>cl_cfg = cfg, cl_region = region, cl_podAgency = None, cl_sdk = Some h\<rparr>))"

text \<open>\<open>Region\<close>, for the log.\<close>

definition Client_Region :: "('r, 'h) Client \<Rightarrow> string" where
  "Client_Region c = cf_Region (cl_cfg c)"

definition credsAK :: "PodAgencyCreds option \<Rightarrow> string" where
  "credsAK c = (case c of None \<Rightarrow> [] | Some x \<Rightarrow> pc_AccessKey x)"

text \<open>
  The condition to rebuild: \<open>c.sdk == nil || c.podAgency.cache == nil ||
  c.podAgency.cache.AccessKey != credsAK(creds)\<close>, after \<open>podAgency.Get\<close>.
\<close>

definition must_rebuild :: "'h option \<Rightarrow> PodAgencyProvider \<Rightarrow> PodAgencyCreds option \<Rightarrow> bool" where
  "must_rebuild sdk p creds \<longleftrightarrow> sdk = None
     \<or> (case pp_cache p of None \<Rightarrow> True | Some c \<Rightarrow> pc_AccessKey c \<noteq> credsAK creds)"

definition nil_pointer :: err where
  "nil_pointer = OtherError ''runtime error: invalid memory address or nil pointer dereference''"

text \<open>
  \<open>ensureSDK\<close>. In static mode with a nil handle the code would return nil and the caller's
  method call would panic; \<open>nil_pointer\<close> stands for that.
\<close>

definition ensureSDK :: "('w, 'r, 'c, 'h) SDK \<Rightarrow> 'w Metadata \<Rightarrow> ('w, 'r, 'h, err + 'h) client_op" where
  "ensureSDK S M = do {
     c \<leftarrow> gets client;
     (case cl_podAgency c of
       None \<Rightarrow> State_Monad.return (case cl_sdk c of Some h \<Rightarrow> Inr h | None \<Rightarrow> Inl nil_pointer)
     | Some p \<Rightarrow> do {
         ((creds, e), p') \<leftarrow> ask (\<lambda>w. case PodAgency_Get M p w of (r, p', w') \<Rightarrow> ((r, p'), w'));
         modify (\<lambda>s. s\<lparr>client := (client s)\<lparr>cl_podAgency := Some p'\<rparr>\<rparr>);
         (case (e, creds) of
           (Some x, None) \<Rightarrow> State_Monad.return (Inl (Errorf ''pod-agency: '' x []))
         | _ \<Rightarrow>
             if must_rebuild (cl_sdk c) p' creds then
               (case creds of
                 None \<Rightarrow> State_Monad.return (Inl nil_pointer)
               | Some k \<Rightarrow> (case build_sdk S ''build pod-agency credentials: '' (cl_region c)
                     (staticCredentialsFor (sdk_BuildCredentials S) (cl_cfg c)
                        (pc_AccessKey k) (pc_SecretKey k) (pc_SecurityToken k)) of
                     Inl x \<Rightarrow> State_Monad.return (Inl x)
                   | Inr h \<Rightarrow> do {
                       modify (\<lambda>s. s\<lparr>client := (client s)\<lparr>cl_sdk := Some h\<rparr>\<rparr>);
                       State_Monad.return (Inr h)
                     }))
             else State_Monad.return (case cl_sdk c of Some h \<Rightarrow> Inr h | None \<Rightarrow> Inl nil_pointer))
       })
   }"

text \<open>\<open>sdk, err := c.ensureSDK(); if err != nil { return err }\<close>, then the call.\<close>

definition with_sdk ::
  "('w, 'r, 'c, 'h) SDK \<Rightarrow> 'w Metadata \<Rightarrow> (err \<Rightarrow> 'a) \<Rightarrow> ('h \<Rightarrow> ('w, 'r, 'h, 'a) client_op) \<Rightarrow> ('w, 'r, 'h, 'a) client_op" where
  "with_sdk S M fail k = do {
     r \<leftarrow> ensureSDK S M;
     (case r of Inl e \<Rightarrow> State_Monad.return (fail e) | Inr h \<Rightarrow> k h)
   }"

section \<open>The methods\<close>

definition value_or_zero :: "string option \<Rightarrow> string \<Rightarrow> string" where
  "value_or_zero p z = (case p of None \<Rightarrow> z | Some v \<Rightarrow> v)"

definition create_share_request :: "CreateInput \<Rightarrow> Share" where
  "create_share_request inp = \<lparr>
     sh_Name = in_Name inp, sh_Size = in_Size inp, sh_ShareProto = in_ShareProto inp,
     sh_ShareType = in_ShareType inp, sh_AvailabilityZone = in_AvailabilityZone inp,
     sh_VpcId = in_VpcId inp, sh_SubnetId = in_SubnetId inp, sh_SecurityGroupId = in_SecurityGroupId inp,
     sh_Metadata =
       (if in_CryptKeyId inp \<noteq> [] \<or> \<not> in_AutoCreateSgRules inp then Some \<lparr>
          md_CryptKeyId = (if in_CryptKeyId inp \<noteq> [] then Some (in_CryptKeyId inp) else None),
          md_AutoCreateSecurityGroupRules = (if \<not> in_AutoCreateSgRules inp then Some ''false'' else None)\<rparr>
        else None),
     sh_Tags = (if in_Tags inp \<noteq> [] then Some (in_Tags inp) else None)\<rparr>"

fun find_share :: "string \<Rightarrow> ShareListing list \<Rightarrow> ShareListing option" where
  "find_share name [] = None"
| "find_share name (s # ss) = (if ls_Name s = Some name then Some s else find_share name ss)"

text \<open>The zero \<open>ShareInfo\<close>.\<close>

definition zero_info :: ShareInfo where
  "zero_info = \<lparr>si_Id = [], si_Status = [], si_ExportLocation = [], si_Size = 0, si_AvailabilityZone = [],
     si_SubStatus = [], si_ShareType = [], si_CryptKeyId = [], si_SubnetId = [], si_VpcId = [],
     si_SecurityGroupId = []\<rparr>"

definition listing_info :: "ShareListing \<Rightarrow> ShareInfo" where
  "listing_info s = zero_info\<lparr>
     si_Id := value_or_zero (ls_Id s) [], si_Status := value_or_zero (ls_Status s) [],
     si_ExportLocation := value_or_zero (ls_ExportLocation s) [],
     si_AvailabilityZone := value_or_zero (ls_AvailabilityZone s) []\<rparr>"

definition Client_FindByName ::
  "('w, 'r, 'c, 'h) SDK \<Rightarrow> 'w Metadata \<Rightarrow> string \<Rightarrow> ('w, 'r, 'h, err + ShareInfo) client_op" where
  "Client_FindByName S M name = with_sdk S M Inl (\<lambda>h. do {
     r \<leftarrow> ask (sdk_ListShares S h);
     State_Monad.return (case r of
         Inl e \<Rightarrow> Inl (Errorf ''ListShares: '' (classify e) [])
       | Inr None \<Rightarrow> Inl ErrFsNotFound
       | Inr (Some shares) \<Rightarrow>
           (case find_share name shares of None \<Rightarrow> Inl ErrFsNotFound | Some s \<Rightarrow> Inr (listing_info s)))
   })"

definition Client_Create ::
  "('w, 'r, 'c, 'h) SDK \<Rightarrow> 'w Metadata \<Rightarrow> CreateInput \<Rightarrow> ('w, 'r, 'h, err + string) client_op" where
  "Client_Create S M inp = with_sdk S M Inl (\<lambda>h. do {
     r \<leftarrow> ask (sdk_CreateShare S h (create_share_request inp));
     (case r of
       Inl e \<Rightarrow>
         if isNameAlreadyExists e then do {
           existing \<leftarrow> Client_FindByName S M (in_Name inp);
           State_Monad.return
             (let failed = (\<lambda>t. Inl (Errorf (''CreateShare('' @ in_Name inp
                    @ '') name-collision but FindByName failed: '' @ t @ '' (original: '') (classify e) '')''))
              in case existing of
                   Inl x \<Rightarrow> failed (error_text x)
                 | Inr info \<Rightarrow> if si_Id info \<noteq> [] then Inr (si_Id info) else failed ''<nil>'')
         }
         else State_Monad.return (Inl (Errorf (''CreateShare('' @ in_Name inp @ ''): '') (classify e) []))
     | Inr None \<Rightarrow> State_Monad.return (Inl (OtherError ''CreateShare returned nil id''))
     | Inr (Some fsId) \<Rightarrow> State_Monad.return (Inr fsId))
   })"

definition parse_size :: "string option \<Rightarrow> int32" where
  "parse_size p = (case p of None \<Rightarrow> 0 | Some s \<Rightarrow> (case Sscanf_d32 s of None \<Rightarrow> 0 | Some n \<Rightarrow> n))"

definition share_info :: "string \<Rightarrow> ShowShareResponse \<Rightarrow> ShareInfo" where
  "share_info fsId resp = \<lparr>
     si_Id = value_or_zero (rs_Id resp) fsId, si_Status = value_or_zero (rs_Status resp) [],
     si_ExportLocation = value_or_zero (rs_ExportLocation resp) [], si_Size = parse_size (rs_Size resp),
     si_AvailabilityZone = value_or_zero (rs_AvailabilityZone resp) [],
     si_SubStatus = value_or_zero (rs_SubStatus resp) [], si_ShareType = value_or_zero (rs_ShareType resp) [],
     si_CryptKeyId = value_or_zero (rs_CryptKeyId resp) [], si_SubnetId = value_or_zero (rs_SubnetId resp) [],
     si_VpcId = value_or_zero (rs_VpcId resp) [],
     si_SecurityGroupId = value_or_zero (rs_SecurityGroupId resp) []\<rparr>"

definition Client_Get ::
  "('w, 'r, 'c, 'h) SDK \<Rightarrow> 'w Metadata \<Rightarrow> string \<Rightarrow> ('w, 'r, 'h, err + ShareInfo) client_op" where
  "Client_Get S M fsId = with_sdk S M Inl (\<lambda>h. do {
     r \<leftarrow> ask (sdk_ShowShare S h fsId);
     State_Monad.return (case r of
         Inl e \<Rightarrow> Inl (Errorf (''ShowShare('' @ fsId @ ''): '') (classify e) [])
       | Inr None \<Rightarrow> Inl (OtherError ''ShowShare returned nil response'')
       | Inr (Some resp) \<Rightarrow> Inr (share_info fsId resp))
   })"

text \<open>\<open>if _, err := sdk.X(req); err != nil { return fmt.Errorf("...: %w", ..., classify(err)) }; return nil\<close>\<close>

definition wrapped :: "string \<Rightarrow> err option \<Rightarrow> err option" where
  "wrapped pre r = map_option (\<lambda>e. Errorf pre (classify e) []) r"

definition Client_Expand ::
  "('w, 'r, 'c, 'h) SDK \<Rightarrow> 'w Metadata \<Rightarrow> string \<Rightarrow> int32 \<Rightarrow> ('w, 'r, 'h, err option) client_op" where
  "Client_Expand S M fsId newSizeGiB = with_sdk S M Some (\<lambda>h. do {
     r \<leftarrow> ask (sdk_ExpandShare S h fsId newSizeGiB);
     State_Monad.return (wrapped (''ExpandShare('' @ fsId @ '', '' @ format_d (sint newSizeGiB) @ '' GiB): '') r)
   })"

definition Client_Delete ::
  "('w, 'r, 'c, 'h) SDK \<Rightarrow> 'w Metadata \<Rightarrow> string \<Rightarrow> ('w, 'r, 'h, err option) client_op" where
  "Client_Delete S M fsId = with_sdk S M Some (\<lambda>h. do {
     r \<leftarrow> ask (sdk_DeleteShare S h fsId);
     State_Monad.return (wrapped (''DeleteShare('' @ fsId @ ''): '') r)
   })"

text \<open>\<open>out[t.Key] = t.Value\<close> over the response's list.\<close>

definition tags_map :: "(string \<times> string) list \<Rightarrow> gomap" where
  "tags_map ts = fold (\<lambda>(k, v). AList.update k v) ts []"

definition Client_ListTags ::
  "('w, 'r, 'c, 'h) SDK \<Rightarrow> 'w Metadata \<Rightarrow> string \<Rightarrow> ('w, 'r, 'h, err + gomap) client_op" where
  "Client_ListTags S M fsId = with_sdk S M Inl (\<lambda>h. do {
     r \<leftarrow> ask (sdk_ShowSharedTags S h fsId);
     State_Monad.return (case r of
         Inl e \<Rightarrow> Inl (Errorf (''ShowSharedTags('' @ fsId @ ''): '') (classify e) [])
       | Inr None \<Rightarrow> Inr []
       | Inr (Some ts) \<Rightarrow> Inr (tags_map ts))
   })"

definition Client_AddTag ::
  "('w, 'r, 'c, 'h) SDK \<Rightarrow> 'w Metadata \<Rightarrow> string \<Rightarrow> string \<Rightarrow> string \<Rightarrow> ('w, 'r, 'h, err option) client_op" where
  "Client_AddTag S M fsId key val = with_sdk S M Some (\<lambda>h. do {
     r \<leftarrow> ask (sdk_CreateSharedTag S h fsId key val);
     State_Monad.return (wrapped (''CreateSharedTag('' @ fsId @ '', '' @ key @ ''='' @ val @ ''): '') r)
   })"

definition Client_DeleteTag ::
  "('w, 'r, 'c, 'h) SDK \<Rightarrow> 'w Metadata \<Rightarrow> string \<Rightarrow> string \<Rightarrow> ('w, 'r, 'h, err option) client_op" where
  "Client_DeleteTag S M fsId key = with_sdk S M Some (\<lambda>h. do {
     r \<leftarrow> ask (sdk_DeleteSharedTag S h fsId key);
     State_Monad.return (case r of
         Some e \<Rightarrow> if isNotFound e then None
           else wrapped (''DeleteSharedTag('' @ fsId @ '', '' @ key @ ''): '') r
       | None \<Rightarrow> None)
   })"

definition Client_ChangeSecurityGroup ::
  "('w, 'r, 'c, 'h) SDK \<Rightarrow> 'w Metadata \<Rightarrow> string \<Rightarrow> string \<Rightarrow> ('w, 'r, 'h, err option) client_op" where
  "Client_ChangeSecurityGroup S M fsId sg = with_sdk S M Some (\<lambda>h. do {
     r \<leftarrow> ask (sdk_ChangeSecurityGroup S h fsId sg);
     State_Monad.return (wrapped (''ChangeSecurityGroup('' @ fsId @ '', '' @ sg @ ''): '') r)
   })"

text \<open>The client as the reconciler's \<open>huawei.Interface\<close>; its world is the client with what is outside.\<close>

definition client_interface :: "('w, 'r, 'c, 'h) SDK \<Rightarrow> 'w Metadata \<Rightarrow> ('w, 'r, 'h) site Interface" where
  "client_interface S M = \<lparr>
     Create = (\<lambda>inp. run_state (Client_Create S M inp)),
     Get = (\<lambda>fsId. run_state (Client_Get S M fsId)),
     Delete = (\<lambda>fsId. run_state (Client_Delete S M fsId)),
     FindByName = (\<lambda>name. run_state (Client_FindByName S M name)),
     Expand = (\<lambda>fsId n. run_state (Client_Expand S M fsId n)),
     ListTags = (\<lambda>fsId. run_state (Client_ListTags S M fsId)),
     AddTag = (\<lambda>fsId k v. run_state (Client_AddTag S M fsId k v)),
     DeleteTag = (\<lambda>fsId k. run_state (Client_DeleteTag S M fsId k)),
     ChangeSecurityGroup = (\<lambda>fsId sg. run_state (Client_ChangeSecurityGroup S M fsId sg))\<rparr>"

section \<open>Invariants of the client's state\<close>

text \<open>One method call, or a change of the world outside; and any number of them.\<close>

inductive client_step :: "('w, 'r, 'c, 'h) SDK \<Rightarrow> 'w Metadata \<Rightarrow> ('w, 'r, 'h) site \<Rightarrow> ('w, 'r, 'h) site \<Rightarrow> bool"
  for S M where
  step_outside: "client_step S M s (s\<lparr>outside := w\<rparr>)"
| step_Create: "client_step S M s (snd (run_state (Client_Create S M inp) s))"
| step_Get: "client_step S M s (snd (run_state (Client_Get S M i) s))"
| step_Delete: "client_step S M s (snd (run_state (Client_Delete S M i) s))"
| step_FindByName: "client_step S M s (snd (run_state (Client_FindByName S M n) s))"
| step_Expand: "client_step S M s (snd (run_state (Client_Expand S M i size') s))"
| step_ListTags: "client_step S M s (snd (run_state (Client_ListTags S M i) s))"
| step_AddTag: "client_step S M s (snd (run_state (Client_AddTag S M i k v) s))"
| step_DeleteTag: "client_step S M s (snd (run_state (Client_DeleteTag S M i k) s))"
| step_ChangeSecurityGroup: "client_step S M s (snd (run_state (Client_ChangeSecurityGroup S M i sg) s))"

abbreviation client_steps ::
  "('w, 'r, 'c, 'h) SDK \<Rightarrow> 'w Metadata \<Rightarrow> ('w, 'r, 'h) site \<Rightarrow> ('w, 'r, 'h) site \<Rightarrow> bool" where
  "client_steps S M \<equiv> (client_step S M)\<^sup>*\<^sup>*"

text \<open>
  The contract between the SDK handle's management and the methods: an invariant that
  \<open>ensureSDK\<close> keeps and that does not look outside is kept by every method.
\<close>

locale handle_invariant =
  fixes S :: "('w, 'r, 'c, 'h) SDK" and M :: "'w Metadata" and inv :: "('w, 'r, 'h) site \<Rightarrow> bool"
  assumes ensure: "inv s \<Longrightarrow> inv (snd (run_state (ensureSDK S M) s))"
    and world: "inv (s\<lparr>outside := w\<rparr>) = inv s"
begin

definition keeps :: "('w, 'r, 'h, 'a) client_op \<Rightarrow> bool" where
  "keeps m \<longleftrightarrow> (\<forall>s. inv s \<longrightarrow> inv (snd (run_state m s)))"

lemma keeps_return: "keeps (State_Monad.return x)"
  by (simp add: keeps_def)

lemma keeps_ask: "keeps (ask op)"
  by (simp add: keeps_def world split: prod.split)

lemma keeps_bind: "keeps m \<Longrightarrow> (\<And>a. keeps (f a)) \<Longrightarrow> keeps (State_Monad.bind m f)"
  by (simp add: keeps_def split: prod.split) (metis snd_conv)

lemma keeps_with_sdk: "(\<And>h. keeps (k h)) \<Longrightarrow> keeps (with_sdk S M fail k)"
  unfolding with_sdk_def
  by (intro keeps_bind) (auto simp: keeps_def ensure split: sum.split)

lemma keeps_FindByName: "keeps (Client_FindByName S M n)"
  unfolding Client_FindByName_def by (intro keeps_with_sdk keeps_bind keeps_ask keeps_return)

lemma keeps_Create: "keeps (Client_Create S M inp)"
  unfolding Client_Create_def
proof (intro keeps_with_sdk keeps_bind keeps_ask)
  fix h r
  show "keeps (case r of
       Inl e \<Rightarrow>
         if isNameAlreadyExists e then do {
           existing \<leftarrow> Client_FindByName S M (in_Name inp);
           State_Monad.return
             (let failed = (\<lambda>t. Inl (Errorf (''CreateShare('' @ in_Name inp
                    @ '') name-collision but FindByName failed: '' @ t @ '' (original: '') (classify e) '')''))
              in case existing of
                   Inl x \<Rightarrow> failed (error_text x)
                 | Inr info \<Rightarrow> if si_Id info \<noteq> [] then Inr (si_Id info) else failed ''<nil>'')
         }
         else State_Monad.return (Inl (Errorf (''CreateShare('' @ in_Name inp @ ''): '') (classify e) []))
     | Inr None \<Rightarrow> State_Monad.return (Inl (OtherError ''CreateShare returned nil id''))
     | Inr (Some fsId) \<Rightarrow> State_Monad.return (Inr fsId))"
    by (auto intro!: keeps_bind keeps_return keeps_FindByName split: sum.split option.split)
qed

lemma step_keeps:
  assumes "client_step S M s t" and "inv s"
  shows "inv t"
proof -
  have "keeps (Client_Get S M i)" "keeps (Client_Delete S M i)" "keeps (Client_Expand S M i n)"
    "keeps (Client_ListTags S M i)" "keeps (Client_AddTag S M i k v)" "keeps (Client_DeleteTag S M i k)"
    "keeps (Client_ChangeSecurityGroup S M i k)" for i n k v
    unfolding Client_Get_def Client_Delete_def Client_Expand_def Client_ListTags_def Client_AddTag_def
      Client_DeleteTag_def Client_ChangeSecurityGroup_def
    by (intro keeps_with_sdk keeps_bind keeps_ask keeps_return)+
  with assms show ?thesis
    by (cases rule: client_step.cases)
      (use keeps_Create keeps_FindByName in \<open>auto simp: keeps_def world\<close>)
qed

lemma steps_keep: "client_steps S M s t \<Longrightarrow> inv s \<Longrightarrow> inv t"
  by (induction rule: rtranclp_induct) (auto intro: step_keeps)

end

text \<open>In static mode the handle is there; and a handle that is there is never replaced.\<close>

definition client_ok :: "('w, 'r, 'h) site \<Rightarrow> bool" where
  "client_ok s \<longleftrightarrow> cl_podAgency (client s) \<noteq> None \<or> cl_sdk (client s) \<noteq> None"

definition holds_handle :: "'h \<Rightarrow> ('w, 'r, 'h) site \<Rightarrow> bool" where
  "holds_handle h s \<longleftrightarrow> cl_sdk (client s) = Some h"

lemma agency_leaves_cache:
  assumes "PodAgency_Get M p w = ((Some k, e), p', w')"
  shows "pp_cache p' = Some k"
  using assms by (auto simp: PodAgency_Get_def Let_def split: prod.splits sum.splits option.splits if_splits)

lemma agency_error:
  assumes "PodAgency_Get M p w = ((None, e), p', w')"
  shows "e \<noteq> None"
  using assms by (auto simp: PodAgency_Get_def Let_def split: prod.splits sum.splits option.splits if_splits)

lemma ensureSDK_keeps_handle:
  assumes "holds_handle h s"
  shows "holds_handle h (snd (run_state (ensureSDK S M) s))"
    and "fst (run_state (ensureSDK S M) s) = Inr h' \<Longrightarrow> h' = h"
  using assms agency_leaves_cache [of M] agency_error [of M]
  by (auto simp: holds_handle_def ensureSDK_def must_rebuild_def credsAK_def
      split: option.splits prod.splits sum.splits if_splits)

interpretation handle: handle_invariant S M "holds_handle h" for S M h
  by unfold_locales (rule ensureSDK_keeps_handle(1), assumption, simp add: holds_handle_def)

lemma ensureSDK_keeps_ok:
  assumes "client_ok s"
  shows "client_ok (snd (run_state (ensureSDK S M) s))" and "fst (run_state (ensureSDK S M) s) \<noteq> Inl nil_pointer"
  using assms
  by (auto simp: client_ok_def ensureSDK_def must_rebuild_def build_sdk_def nil_pointer_def
      dest!: agency_leaves_cache agency_error split: option.splits prod.splits sum.splits if_splits)

interpretation ok: handle_invariant S M client_ok for S M
  by unfold_locales (rule ensureSDK_keeps_ok(1), assumption, simp add: client_ok_def)

text \<open>
  The SDK handle of a client is never nil when a method uses it: whatever
  \<open>NewClient\<close> was given, after any sequence of method calls, with any answers of the SDK
  and of the metadata service, \<open>ensureSDK\<close> returns a handle or an error, and never the nil
  handle whose use would panic.
\<close>

lemma handle_never_nil:
  assumes "NewClient S quote cfg = Inr c" and "client_steps S M \<lparr>outside = w, client = c\<rparr> s"
  shows "fst (run_state (ensureSDK S M) s) \<noteq> Inl nil_pointer"
proof -
  have "client_ok \<lparr>outside = w, client = c\<rparr>"
    using assms(1) by (auto simp: NewClient_def client_ok_def split: sum.splits if_splits)
  then have "client_ok s" by (rule ok.steps_keep [OF assms(2)])
  then show ?thesis by (rule ensureSDK_keeps_ok(2))
qed

text \<open>
  C20. The SDK handle is built once. \<open>ensureSDK\<close> compares the access key it was given
  with the one in the provider's cache, which is where it came from, so from the first handle
  on it never rebuilds: after any sequence of method calls, and although the provider may have
  fetched other credentials since, the handle in use is the first one, with the
  credentials it was built from. In pod-agency mode those expire.
\<close>

theorem handle_is_never_rebuilt:
  assumes "client_steps S M s t" and "cl_sdk (client s) = Some h"
    and "fst (run_state (ensureSDK S M) t) = Inr h'"
  shows "h' = h \<and> cl_sdk (client (snd (run_state (ensureSDK S M) t))) = Some h"
proof -
  have "holds_handle h t"
    using handle.steps_keep [OF assms(1)] assms(2) by (simp add: holds_handle_def)
  from ensureSDK_keeps_handle [OF this] assms(3) show ?thesis
    by (auto simp: holds_handle_def)
qed

text \<open>An SDK whose handle is the credential it was built from, and a client of it.\<close>

definition demo_sdk :: "('w, string, string \<times> string, string) SDK" where
  "demo_sdk = \<lparr>
     sdk_SafeValueOf = Inr, sdk_BuildCredentials = (\<lambda>ak sk _ _. Inr (ak, sk)), sdk_Build = (\<lambda>_ c. Inr (fst c)),
     sdk_CreateShare = (\<lambda>_ _ w. (Inl (ServiceResponseError 409 ''SFS.TURBO.0009'' ''exists''), w)),
     sdk_ListShares = (\<lambda>_ w. (Inr (Some [
        \<lparr>ls_Id = Some ''fs-7'', ls_Name = Some ''other'', ls_Status = None, ls_ExportLocation = None, ls_AvailabilityZone = None\<rparr>,
        \<lparr>ls_Id = Some ''fs-9'', ls_Name = Some ''data'', ls_Status = None, ls_ExportLocation = None, ls_AvailabilityZone = None\<rparr>]), w)),
     sdk_ShowShare = (\<lambda>_ _ w. (Inl (ServiceResponseError 404 ''gone'' ''gone''), w)),
     sdk_ExpandShare = (\<lambda>_ _ _ w. (None, w)), sdk_DeleteShare = (\<lambda>_ _ w. (None, w)),
     sdk_ShowSharedTags = (\<lambda>_ _ w. (Inr None, w)), sdk_CreateSharedTag = (\<lambda>_ _ _ _ w. (None, w)),
     sdk_DeleteSharedTag = (\<lambda>_ _ _ w. (Some (ServiceResponseError 404 ''gone'' ''gone''), w)),
     sdk_ChangeSecurityGroup = (\<lambda>_ _ _ w. (None, w))\<rparr>"

definition demo_config :: Config where
  "demo_config = \<lparr>cf_ProjectId = ''p'', cf_Region = ''ap-southeast-1'', cf_AccessKey = [], cf_SecretKey = []\<rparr>"

text \<open>A client in pod-agency mode whose handle was built from the first credentials, ''AK''.\<close>

definition demo_client :: "(string, string) Client" where
  "demo_client = \<lparr>cl_cfg = demo_config, cl_region = ''ap-southeast-1'',
     cl_podAgency = Some (demo_provider (3600 * second)), cl_sdk = Some ''AK''\<rparr>"

definition demo_site :: "(unit, string, string) site" where
  "demo_site = \<lparr>outside = (), client = demo_client\<rparr>"

lemmas demo_client_defs = demo_sdk_def demo_config_def demo_client_def demo_site_def ask_def
  Let_def ensureSDK_def must_rebuild_def credsAK_def build_sdk_def

lemma handle_never_nil_example:
  "fst (run_state (ensureSDK demo_sdk (demo_metadata 0 (Inl (OtherError ''down''))))
     \<lparr>outside = (), client = \<lparr>cl_cfg = demo_config, cl_region = ''ap-southeast-1'',
        cl_podAgency = Some NewPodAgencyProvider, cl_sdk = None\<rparr>\<rparr>) \<noteq> Inl nil_pointer"
  by (rule handle_never_nil [of demo_sdk "\<lambda>s. s" demo_config, OF _ rtranclp.rtrancl_refl])
    (simp add: NewClient_def demo_client_defs PodAgencyMode_def)

text \<open>At 900 s the provider fetches the new credentials ''AK2''; the handle in use is the one of ''AK''.\<close>

theorem handle_is_never_rebuilt_witness:
  "fst (run_state (ensureSDK demo_sdk (demo_metadata (900 * second) (Inr (200, Inr demo_body)))) demo_site) = Inr ''AK''
   \<and> map_option pc_AccessKey (Option.bind (cl_podAgency (client (snd (run_state
       (ensureSDK demo_sdk (demo_metadata (900 * second) (Inr (200, Inr demo_body)))) demo_site)))) pp_cache) = Some ''AK2''"
proof -
  let ?M = "demo_metadata (900 * second) (Inr (200, Inr demo_body))"
  note agency = demo_agency_get [unfolded Let_def]
  obtain h' where h': "fst (run_state (ensureSDK demo_sdk ?M) demo_site) = Inr h'"
    by (simp add: demo_client_defs agency)
  have "h' = ''AK''"
    by (rule handle_is_never_rebuilt [THEN conjunct1, OF rtranclp.rtrancl_refl _ h'])
      (simp add: demo_site_def demo_client_def)
  then show ?thesis
    using h' by (simp add: demo_client_defs agency)
qed

section \<open>What the methods return\<close>

lemma run_with_sdk:
  assumes "run_state (ensureSDK S M) s = (Inr h, s')"
  shows "run_state (with_sdk S M fail k) s = run_state (k h) s'"
  using assms by (simp add: with_sdk_def)

lemma Get_404:
  assumes "run_state (ensureSDK S M) s = (Inr h, s')" and "sdk_ShowShare S h fsId (outside s') = (Inl e, w)"
    and "isNotFound e"
  shows "\<exists>x. run_state (Client_Get S M fsId) s = (Inl x, s'\<lparr>outside := w\<rparr>) \<and> is_ErrFsNotFound x"
  using assms(2,3) by (simp add: Client_Get_def run_with_sdk [OF assms(1)] is_ErrFsNotFound_classify)

text \<open>
  \<open>Get\<close> reports \<open>ErrFsNotFound\<close> exactly where the SDK's answer was an error that
  carries HTTP status 404 (or the sentinel itself), anywhere in its chain; every other
  error stays an error that is not it, and a response is returned field by field.
\<close>

lemma get_not_found_iff_404:
  assumes "run_state (ensureSDK S M) s = (Inr h, s')" and "sdk_ShowShare S h fsId (outside s') = (r, w)"
  shows "run_state (Client_Get S M fsId) s = (fst (run_state (Client_Get S M fsId) s), s'\<lparr>outside := w\<rparr>)
    \<and> (case r of
        Inl e \<Rightarrow> (\<exists>x. fst (run_state (Client_Get S M fsId) s) = Inl x
           \<and> (is_ErrFsNotFound x \<longleftrightarrow> isNotFound e \<or> is_ErrFsNotFound e))
      | Inr None \<Rightarrow> (\<exists>x. fst (run_state (Client_Get S M fsId) s) = Inl x \<and> \<not> is_ErrFsNotFound x)
      | Inr (Some resp) \<Rightarrow> fst (run_state (Client_Get S M fsId) s) = Inr (share_info fsId resp))"
  using assms(2)
  by (auto simp: Client_Get_def run_with_sdk [OF assms(1)] is_ErrFsNotFound_classify split: sum.split option.split)

lemma demo_handle:
  "run_state (ensureSDK demo_sdk (demo_metadata 0 x)) demo_site = (Inr ''AK'', demo_site)"
proof -
  have agency: "PodAgency_Get (demo_metadata 0 x) (demo_provider (3600 * second)) () =
      ((Some (demo_creds (3600 * second)), None), demo_provider (3600 * second), ())"
    by (simp add: PodAgency_Get_def needsRefresh_def demo_creds_defs time_Sub_def saturate64_def maxCacheAge_def half_hour)
  have "pp_cache (demo_provider n) = Some (demo_creds n)" "pc_AccessKey (demo_creds n) = ''AK''" for n
    by (simp_all add: demo_provider_def demo_creds_def)
  with agency show ?thesis
    by (simp add: ensureSDK_def demo_site_def demo_client_def ask_def must_rebuild_def credsAK_def)
qed

lemma get_not_found_iff_404_example:
  "\<exists>x. fst (run_state (Client_Get demo_sdk (demo_metadata 0 (Inl (OtherError ''down''))) ''fs-1'') demo_site) = Inl x
     \<and> is_ErrFsNotFound x"
proof -
  have "sdk_ShowShare demo_sdk ''AK'' ''fs-1'' (outside demo_site) = (Inl (ServiceResponseError 404 ''gone'' ''gone''), ())"
    by (simp add: demo_sdk_def)
  from get_not_found_iff_404 [OF demo_handle this] show ?thesis
    by (auto simp: isNotFound_def)
qed

text \<open>
  The size survives the API's text form: a size of 32 bits that the API prints in
  decimal is read back as that size, also when a fraction or a unit follows the digits
  (''500.0'').
\<close>

lemma size_round_trip:
  assumes "- (2 ^ 31) \<le> i" and "i < 2 ^ 31" and "rest = [] \<or> \<not> is_digit (hd rest)"
  shows "sint (si_Size (share_info fsId (resp\<lparr>rs_Size := Some (format_d i @ rest)\<rparr>))) = i"
proof -
  have "Sscanf_d32 (format_d i @ rest) = Some (word_of_int i)" by (rule Sscanf_format [OF assms])
  moreover have "sint (word_of_int i :: int32) = i"
    using assms(1,2) by (intro signed_take_bit_int_eq_self [THEN trans [OF sint_sbintrunc']]) simp_all
  ultimately show ?thesis by (simp add: share_info_def parse_size_def)
qed

definition demo_response :: ShowShareResponse where
  "demo_response = \<lparr>rs_Id = Some ''fs-1'', rs_Status = Some ''200'', rs_SubStatus = None, rs_ExportLocation = None,
     rs_AvailabilityZone = None, rs_ShareType = None, rs_CryptKeyId = None, rs_SubnetId = None, rs_VpcId = None,
     rs_SecurityGroupId = None, rs_Size = None\<rparr>"

lemma Create_adopts:
  assumes "run_state (ensureSDK S M) s = (Inr h, s1)"
    and "sdk_CreateShare S h (create_share_request inp) (outside s1) = (Inl e, w1)" and "isNameAlreadyExists e"
    and "run_state (ensureSDK S M) (s1\<lparr>outside := w1\<rparr>) = (Inr h', s2)"
    and "sdk_ListShares S h' (outside s2) = (Inr (Some shares), w2)"
    and "find_share (in_Name inp) shares = Some x" and "ls_Id x = Some fsId" and "fsId \<noteq> []"
  shows "run_state (Client_Create S M inp) s = (Inr fsId, s2\<lparr>outside := w2\<rparr>)"
  using assms
  by (simp add: Client_Create_def Client_FindByName_def run_with_sdk [OF assms(1)] run_with_sdk [OF assms(4)]
      listing_info_def value_or_zero_def)

text \<open>
  Adoption: where the SDK refuses a creation because the name is taken and the
  listing of the shares has an entry of that name with an id, \<open>Create\<close> returns the id of
  the first such entry as if it had created it, after one listing and no second
  attempt to create.
\<close>

lemma create_adopts_existing:
  assumes "run_state (ensureSDK S M) s = (Inr h, s1)"
    and "sdk_CreateShare S h (create_share_request inp) (outside s1) = (Inl e, w1)" and "isNameAlreadyExists e"
    and "run_state (ensureSDK S M) (s1\<lparr>outside := w1\<rparr>) = (Inr h', s2)"
    and "sdk_ListShares S h' (outside s2) = (Inr (Some (before @ x # after)), w2)"
    and "\<forall>y \<in> set before. ls_Name y \<noteq> Some (in_Name inp)"
    and "ls_Name x = Some (in_Name inp)" and "ls_Id x = Some fsId" and "fsId \<noteq> []"
  shows "run_state (Client_Create S M inp) s = (Inr fsId, s2\<lparr>outside := w2\<rparr>)"
proof (rule Create_adopts [OF assms(1-5)])
  show "find_share (in_Name inp) (before @ x # after) = Some x"
    using assms(6,7) by (induction before) auto
qed (rule assms)+

text \<open>What the demo SDK answers.\<close>

lemma demo_refused:
  "sdk_CreateShare demo_sdk h r w = (Inl (ServiceResponseError 409 ''SFS.TURBO.0009'' ''exists''), ())"
  by (simp add: demo_sdk_def)

lemma demo_taken: "isNameAlreadyExists (ServiceResponseError 409 ''SFS.TURBO.0009'' ''exists'')"
proof -
  have "strings_Contains ''SFS.TURBO.0009'' ''SFS.TURBO.0009''"
    unfolding strings_Contains_iff by (intro exI [of _ "[]"]) simp
  then show ?thesis
    by (simp only: isNameAlreadyExists_def as_ServiceResponseError.simps option.case prod.case simp_thms)
qed

definition demo_listing :: "string \<Rightarrow> string \<Rightarrow> ShareListing" where
  "demo_listing i n = \<lparr>ls_Id = Some i, ls_Name = Some n, ls_Status = None, ls_ExportLocation = None,
     ls_AvailabilityZone = None\<rparr>"

lemma demo_shares:
  "sdk_ListShares demo_sdk h w =
     (Inr (Some ([demo_listing ''fs-7'' ''other''] @ demo_listing ''fs-9'' ''data'' # [])), ())"
  by (simp add: demo_sdk_def demo_listing_def)

lemma demo_outside: "demo_site\<lparr>outside := ()\<rparr> = demo_site"
  by (simp add: demo_site_def)

definition demo_input :: "string \<Rightarrow> CreateInput" where
  "demo_input name = \<lparr>in_Name = name, in_Size = 500, in_ShareType = ''STANDARD'', in_ShareProto = ''NFS'',
     in_AvailabilityZone = ''az1'', in_VpcId = ''vpc'', in_SubnetId = ''sub'', in_SecurityGroupId = [],
     in_CryptKeyId = [], in_AutoCreateSgRules = True, in_Tags = []\<rparr>"

lemma create_adopts_existing_example:
  "fst (run_state (Client_Create demo_sdk (demo_metadata 0 (Inl (OtherError ''down''))) (demo_input ''data'')) demo_site)
     = Inr ''fs-9''"
proof -
  let ?M = "demo_metadata 0 (Inl (OtherError ''down''))"
  have handle: "run_state (ensureSDK demo_sdk ?M) (demo_site\<lparr>outside := ()\<rparr>) = (Inr ''AK'', demo_site)"
    unfolding demo_outside by (rule demo_handle)
  have "run_state (Client_Create demo_sdk ?M (demo_input ''data'')) demo_site = (Inr ''fs-9'', demo_site\<lparr>outside := ()\<rparr>)"
    by (rule create_adopts_existing [OF demo_handle demo_refused demo_taken handle demo_shares])
      (simp_all add: demo_listing_def demo_input_def)
  then show ?thesis by simp
qed

text \<open>
  Deleting a tag that is already gone is a success, and only that: \<open>DeleteTag\<close>
  returns no error exactly where the SDK returned none or a 404.
\<close>

lemma delete_tag_idempotent:
  assumes "run_state (ensureSDK S M) s = (Inr h, s')" and "sdk_DeleteSharedTag S h fsId key (outside s') = (r, w)"
  shows "run_state (Client_DeleteTag S M fsId key) s =
     (case r of None \<Rightarrow> None | Some e \<Rightarrow> if isNotFound e then None
        else Some (Errorf (''DeleteSharedTag('' @ fsId @ '', '' @ key @ ''): '') e []), s'\<lparr>outside := w\<rparr>)"
  using assms(2)
  by (auto simp: Client_DeleteTag_def run_with_sdk [OF assms(1)] wrapped_def isNotFound_def classify_def
      split: option.splits)

end
