(* ===== verification/Startup.thy ===== *)
theory Startup
  imports Flags Client
begin

text \<open>
  The start of the process (cmd/main.go): what the options make of the two servers and the
  manager, the registration of the API types and of the controller, and the order of the steps
  up to the manager's run, each of which ends the process if it fails. controller-runtime
  and the scheme are parameters.
\<close>

section \<open>The servers' options\<close>

text \<open>\<open>tls.Config\<close>: the field the code sets, and everything else.\<close>

record 'x tls_config =
  NextProtos :: "string list"
  tls_rest :: 'x

type_synonym 'x tls_opt = "'x tls_config \<Rightarrow> 'x tls_config"

definition disableHTTP2 :: "'x tls_opt" where
  "disableHTTP2 c = c\<lparr>NextProtos := [''http/1.1'']\<rparr>"

definition tlsOpts :: "Options \<Rightarrow> 'x tls_opt list" where
  "tlsOpts opts = (if \<not> enableHTTP2 opts then [disableHTTP2] else [])"

text \<open>How a server applies its \<open>TLSOpts\<close>: each in turn on its configuration.\<close>

definition apply_tls :: "'x tls_opt list \<Rightarrow> 'x tls_opt" where
  "apply_tls fs c = fold (\<lambda>f. f) fs c"

record 'x WebhookOptions =
  wh_TLSOpts :: "'x tls_opt list"
  wh_CertDir :: string
  wh_CertName :: string
  wh_KeyName :: string

definition webhookServerOptions :: "Options \<Rightarrow> 'x WebhookOptions" where
  "webhookServerOptions opts =
     (let base = \<lparr>wh_TLSOpts = tlsOpts opts, wh_CertDir = [], wh_CertName = [], wh_KeyName = []\<rparr>
      in if 0 < length (webhookCertPath opts)
         then base\<lparr>wh_CertDir := webhookCertPath opts, wh_CertName := webhookCertName opts,
                wh_KeyName := webhookCertKey opts\<rparr>
         else base)"

text \<open>\<open>FilterProvider\<close>: nil, or \<open>filters.WithAuthenticationAndAuthorization\<close>.\<close>

datatype filter_provider = NoFilter | WithAuthenticationAndAuthorization

record 'x MetricsOptions =
  ms_BindAddress :: string
  ms_SecureServing :: bool
  ms_TLSOpts :: "'x tls_opt list"
  ms_FilterProvider :: filter_provider
  ms_CertDir :: string
  ms_CertName :: string
  ms_KeyName :: string

definition metricsServerOptions :: "Options \<Rightarrow> 'x MetricsOptions" where
  "metricsServerOptions opts =
     (let base = \<lparr>ms_BindAddress = metricsAddr opts, ms_SecureServing = secureMetrics opts,
                  ms_TLSOpts = tlsOpts opts, ms_FilterProvider = NoFilter,
                  ms_CertDir = [], ms_CertName = [], ms_KeyName = []\<rparr>;
          guarded = (if secureMetrics opts then base\<lparr>ms_FilterProvider := WithAuthenticationAndAuthorization\<rparr> else base)
      in if 0 < length (metricsCertPath opts)
         then guarded\<lparr>ms_CertDir := metricsCertPath opts, ms_CertName := metricsCertName opts,
                ms_KeyName := metricsCertKey opts\<rparr>
         else guarded)"

record 'x ManagerOptions =
  mo_Metrics :: "'x MetricsOptions"
  mo_WebhookServer :: "'x WebhookOptions"
  mo_HealthProbeBindAddress :: string
  mo_LeaderElection :: bool
  mo_LeaderElectionID :: string

definition managerOptions :: "Options \<Rightarrow> 'x ManagerOptions" where
  "managerOptions opts = \<lparr>
     mo_Metrics = metricsServerOptions opts, mo_WebhookServer = webhookServerOptions opts,
     mo_HealthProbeBindAddress = probeAddr opts, mo_LeaderElection = enableLeaderElection opts,
     mo_LeaderElectionID = ''sfs-operator.sfs.huaweicloud.com''\<rparr>"

section \<open>The API group\<close>

text \<open>\<open>schema.GroupVersion\<close> and the types that \<open>init\<close> of the package registers with the builder.\<close>

record GroupVersion =
  gv_Group :: string
  gv_Version :: string

definition SchemeGroupVersion :: GroupVersion where
  "SchemeGroupVersion = \<lparr>gv_Group = ''sfs.huaweicloud.com'', gv_Version = ''v1alpha1''\<rparr>"

definition registered_kinds :: "string list" where
  "registered_kinds = [''SfsTurboInstance'', ''SfsTurboInstanceList'']"

text \<open>\<open>SetupWithManager\<close>: what the controller's builder is given before \<open>Complete\<close>.\<close>

record Controller =
  ct_For :: string
  ct_Named :: string

definition SetupWithManager :: Controller where
  "SetupWithManager = \<lparr>ct_For = ''SfsTurboInstance'', ct_Named = ''sfsturboinstance''\<rparr>"

section \<open>The steps of the start\<close>

text \<open>
  The libraries: the two \<open>AddToScheme\<close>, \<open>GetConfigOrDie\<close>, \<open>NewManager\<close>, the builder's
  \<open>Complete\<close> with the reconciler's Huawei client, the health checks and the manager's \<open>Start\<close>,
  each on the world. \<open>'g\<close> is a REST configuration, \<open>'m\<close> a manager, \<open>'k\<close> a Huawei client.
\<close>

record ('w, 'x, 'g, 'm, 'k) Framework =
  fw_AddClientGo :: "'w \<Rightarrow> (err + unit) \<times> 'w"
  fw_AddTypes :: "GroupVersion \<Rightarrow> string list \<Rightarrow> 'w \<Rightarrow> (err + unit) \<times> 'w"
  fw_GetConfig :: "'w \<Rightarrow> (err + 'g) \<times> 'w"
  fw_NewManager :: "'g \<Rightarrow> 'x ManagerOptions \<Rightarrow> 'w \<Rightarrow> (err + 'm) \<times> 'w"
  fw_Complete :: "'m \<Rightarrow> Controller \<Rightarrow> 'k \<Rightarrow> 'w \<Rightarrow> (err + unit) \<times> 'w"
  fw_AddHealthzCheck :: "'m \<Rightarrow> string \<Rightarrow> 'w \<Rightarrow> (err + unit) \<times> 'w"
  fw_AddReadyzCheck :: "'m \<Rightarrow> string \<Rightarrow> 'w \<Rightarrow> (err + unit) \<times> 'w"
  fw_Start :: "'m \<Rightarrow> 'w \<Rightarrow> (err + unit) \<times> 'w"

text \<open>
  The steps in the order of the code, and how the process ends. A run is the ending, the
  steps that were taken, each with its error, and the world after it.
\<close>

datatype stage = AddClientGo | AddTypes | GetConfig | NewManager | LoadConfig | NewHuaweiClient
  | RegisterController | HealthzCheck | ReadyzCheck | StartManager

datatype ending = Returned | Exit int | Panic

type_synonym 'w run = "ending \<times> (stage \<times> err option) list \<times> 'w"

text \<open>\<open>utilruntime.Must\<close> panics in \<open>init\<close>; in \<open>main\<close> an error is logged and \<open>os.Exit(1)\<close> called.\<close>

definition on_error :: "stage \<Rightarrow> ending" where
  "on_error st = (if st \<in> {AddClientGo, AddTypes} then Panic else Exit 1)"

definition checked :: "stage \<Rightarrow> (err + 'a) \<times> 'w \<Rightarrow> ('a \<Rightarrow> 'w \<Rightarrow> 'w run) \<Rightarrow> 'w run" where
  "checked st r k = (case r of
       (Inl e, w) \<Rightarrow> (on_error st, [(st, Some e)], w)
     | (Inr x, w) \<Rightarrow> (case k x w of (out, steps, w') \<Rightarrow> (out, (st, None) # steps, w')))"

text \<open>From the Huawei client to the end of \<open>main\<close>.\<close>

definition start_manager :: "('w, 'x, 'g, 'm, 'k) Framework \<Rightarrow> 'm \<Rightarrow> 'k \<Rightarrow> 'w \<Rightarrow> 'w run" where
  "start_manager F mgr hclient w =
     checked RegisterController (fw_Complete F mgr SetupWithManager hclient w) (\<lambda>_ w.
     checked HealthzCheck (fw_AddHealthzCheck F mgr ''healthz'' w) (\<lambda>_ w.
     checked ReadyzCheck (fw_AddReadyzCheck F mgr ''readyz'' w) (\<lambda>_ w.
     checked StartManager (fw_Start F mgr w) (\<lambda>_ w. (Returned, [], w)))))"

text \<open>\<open>main\<close> after the flags.\<close>

definition run_manager :: "('w, 'x, 'g, 'm, ('r, 'h) Client) Framework \<Rightarrow> ('v, 'r, 'c, 'h) SDK \<Rightarrow> (string \<Rightarrow> string)
    \<Rightarrow> Options \<Rightarrow> (string \<Rightarrow> string) \<Rightarrow> 'w \<Rightarrow> 'w run" where
  "run_manager F S quote opts Getenv w =
     checked GetConfig (fw_GetConfig F w) (\<lambda>g w.
     checked NewManager (fw_NewManager F g (managerOptions opts) w) (\<lambda>mgr w.
     checked LoadConfig (LoadConfigFromEnv Getenv, w) (\<lambda>hcfg w.
     checked NewHuaweiClient (NewClient S quote hcfg, w) (\<lambda>hclient w.
     start_manager F mgr hclient w))))"

text \<open>The process: \<open>init\<close> and \<open>main\<close> on the arguments and the environment.\<close>

definition main :: "('w, 'x, 'g, 'm, ('r, 'h) Client) Framework \<Rightarrow> 'z LibraryFlags \<Rightarrow> ('v, 'r, 'c, 'h) SDK
    \<Rightarrow> (string \<Rightarrow> string) \<Rightarrow> string list \<Rightarrow> 'z \<Rightarrow> (string \<Rightarrow> string) \<Rightarrow> 'w \<Rightarrow> 'w run" where
  "main F L S quote args z Getenv w =
     checked AddClientGo (fw_AddClientGo F w) (\<lambda>_ w.
     checked AddTypes (fw_AddTypes F SchemeGroupVersion registered_kinds w) (\<lambda>_ w.
     (case parse_flags L args (default_options, z) of
        Inl code \<Rightarrow> (Exit code, [], w)
      | Inr (opts, _) \<Rightarrow> run_manager F S quote opts Getenv w)))"

section \<open>The order of the steps\<close>

text \<open>A run of the given steps: all succeed, or it stops at the first that fails.\<close>

inductive fail_fast :: "stage list \<Rightarrow> ending \<Rightarrow> (stage \<times> err option) list \<Rightarrow> bool" where
  all_done: "fail_fast [] Returned []"
| stops: "fail_fast (st # sts) (on_error st) [(st, Some e)]"
| goes_on: "fail_fast sts out steps \<Longrightarrow> fail_fast (st # sts) out ((st, None) # steps)"

lemma checked_fail_fast:
  assumes "\<And>x w. fail_fast sts (fst (k x w)) (fst (snd (k x w)))"
  shows "fail_fast (st # sts) (fst (checked st r k)) (fst (snd (checked st r k)))"
proof -
  have "fail_fast (st # sts) out ((st, None) # steps)" if "k x w = (out, steps, w')" for x w out steps w'
    using assms [of x w] that by (simp add: goes_on)
  then show ?thesis
    by (cases r, cases "fst r") (auto simp: checked_def stops split: prod.split)
qed

lemma fail_fast_facts:
  assumes "fail_fast sts out steps"
  shows "map fst steps = take (length steps) sts"
    and "\<forall>s \<in> set (butlast steps). snd s = None"
    and "out = Returned \<longleftrightarrow> map fst steps = sts \<and> (\<forall>s \<in> set steps. snd s = None)"
    and "out \<noteq> Returned \<Longrightarrow> steps \<noteq> [] \<and> snd (last steps) \<noteq> None \<and> out = on_error (fst (last steps))"
  using assms by (induction rule: fail_fast.induct) (auto simp: on_error_def)

definition start_stages :: "stage list" where
  "start_stages = [AddClientGo, AddTypes, GetConfig, NewManager, LoadConfig, NewHuaweiClient,
     RegisterController, HealthzCheck, ReadyzCheck, StartManager]"

lemma main_fail_fast:
  assumes "parse_flags L args (default_options, z) = Inr oz"
  shows "fail_fast start_stages (fst (main F L S quote args z Getenv w)) (fst (snd (main F L S quote args z Getenv w)))"
  using assms unfolding main_def start_stages_def
  by (cases oz) (auto simp: run_manager_def start_manager_def intro!: checked_fail_fast all_done)


















text \<open>
  C34. Secure by default. If no argument is the flag \<open>enable-http2\<close>, the two servers of the manager
  offer HTTP/1.1 only, whatever their TLS configuration was. If none is the flag
  \<open>metrics-secure\<close>, the metrics are served over TLS. Whatever the flags are, the filter that authenticates and authorises
  is there exactly for metrics served over TLS.
\<close>

theorem secure_by_default:
  assumes "parse_flags L args (default_options, z) = Inr (opts, z')"
  shows "((\<forall>a \<in> set args. \<forall>v. read_argument a \<noteq> Flag ''enable-http2'' v)
       \<longrightarrow> NextProtos (apply_tls (ms_TLSOpts (mo_Metrics (managerOptions opts))) c) = [''http/1.1'']
         \<and> NextProtos (apply_tls (wh_TLSOpts (mo_WebhookServer (managerOptions opts))) c) = [''http/1.1''])
    \<and> ((\<forall>a \<in> set args. \<forall>v. read_argument a \<noteq> Flag ''metrics-secure'' v)
       \<longrightarrow> ms_SecureServing (mo_Metrics (managerOptions opts)))
    \<and> (ms_SecureServing (mo_Metrics (managerOptions opts))
       \<longleftrightarrow> ms_FilterProvider (mo_Metrics (managerOptions opts)) = WithAuthenticationAndAuthorization)"
proof -
  have only: "set_only_by ''enable-http2'' enableHTTP2" "set_only_by ''metrics-secure'' secureMetrics"
    by (simp_all add: set_only_by_def string_vars_def bool_vars_def)
  have "\<not> enableHTTP2 opts" if "\<forall>a \<in> set args. \<forall>v. read_argument a \<noteq> Flag ''enable-http2'' v"
    using parse_keeps_unnamed [OF only(1) assms that] by (simp add: default_options_def)
  moreover have "secureMetrics opts" if "\<forall>a \<in> set args. \<forall>v. read_argument a \<noteq> Flag ''metrics-secure'' v"
    using parse_keeps_unnamed [OF only(2) assms that] by (simp add: default_options_def)
  ultimately show ?thesis
    by (auto simp: managerOptions_def metricsServerOptions_def webhookServerOptions_def Let_def tlsOpts_def
        apply_tls_def disableHTTP2_def)
qed

section \<open>Concrete instances\<close>

definition demo_flags :: "unit LibraryFlags" where
  "demo_flags = \<lparr>lf_Lookup = (\<lambda>n. if n = ''kubeconfig'' then Some False else None), lf_Set = (\<lambda>_ _ _. Some ())\<rparr>"

lemma chart_flags:
  "parse_flags demo_flags chart_args (default_options, ()) =
     Inr (default_options\<lparr>metricsAddr := '':8443''\<rparr>, ())"
  by (simp add: chart_args_def parse_flags.simps parseOne_def assigned_def read_argument_def flag_of_def formal_def
      set_flag_def string_vars_def bool_vars_def ParseBool_def default_options_def)

text \<open>The chart's arguments, and with HTTP/2 switched on, when the metrics stay behind TLS and the filter.\<close>

theorem secure_by_default_witness:
  "NextProtos (apply_tls (ms_TLSOpts (mo_Metrics (managerOptions (default_options\<lparr>metricsAddr := '':8443''\<rparr>))))
     \<lparr>NextProtos = [''h2'', ''http/1.1''], tls_rest = ()\<rparr>) = [''http/1.1'']
   \<and> (\<exists>opts. parse_flags demo_flags [''--enable-http2''] (default_options, ()) = Inr (opts, ()) \<and> enableHTTP2 opts
        \<and> ms_FilterProvider (mo_Metrics (managerOptions opts)) = WithAuthenticationAndAuthorization)"
proof
  show "NextProtos (apply_tls (ms_TLSOpts (mo_Metrics (managerOptions (default_options\<lparr>metricsAddr := '':8443''\<rparr>))))
      \<lparr>NextProtos = [''h2'', ''http/1.1''], tls_rest = ()\<rparr>) = [''http/1.1'']"
    using secure_by_default [OF chart_flags] by (auto simp: chart_args_def read_argument_def flag_of_def)
  have p: "parse_flags demo_flags [''--enable-http2''] (default_options, ()) = Inr (default_options\<lparr>enableHTTP2 := True\<rparr>, ())"
    by (simp add: parse_flags.simps parseOne_def assigned_def read_argument_def flag_of_def formal_def
        set_flag_def string_vars_def bool_vars_def ParseBool_def default_options_def)
  have "\<forall>a \<in> set [''--enable-http2'']. \<forall>v. read_argument a \<noteq> Flag ''metrics-secure'' v" by (simp add: read_argument_def flag_of_def)
  with secure_by_default [OF p]
  have "ms_FilterProvider (mo_Metrics (managerOptions (default_options\<lparr>enableHTTP2 := True\<rparr>))) = WithAuthenticationAndAuthorization" by blast
  with p show "\<exists>opts. parse_flags demo_flags [''--enable-http2''] (default_options, ()) = Inr (opts, ()) \<and> enableHTTP2 opts
      \<and> ms_FilterProvider (mo_Metrics (managerOptions opts)) = WithAuthenticationAndAuthorization" by (intro exI conjI) simp_all
qed





end
