(* ===== verification/DeepCopy.thy ===== *)
theory DeepCopy
  imports Scenario
begin

text \<open>
  The deep copies of the API types (api/v1alpha1/zz_generated.deepcopy.go), which
  controller-runtime's cache makes of every object it hands out. Elsewhere in this development an
  object is a value; here it is what it is in memory: structs whose maps and slices are
  references to cells of a store, so that sharing can be seen. The copies of
  \<open>metav1\<close>'s own structs are parameters; of the one of \<open>ObjectMeta\<close>, which has maps and slices (labels, finalizers), the
  contract of a deep copy is asked.
\<close>

section \<open>The store\<close>

text \<open>
  Structs in memory. The fields without references are kept in the records of the API (whose map and
  list fields are not used); \<open>None\<close> is a nil map or slice.
\<close>

type_synonym ref = "nat option"

record MSpec =
  ds_values :: SfsTurboInstanceSpec
  ds_Tags :: ref

record MStatus =
  dt_values :: SfsTurboInstanceStatus
  dt_Tags :: ref
  dt_Conditions :: ref

record 'm MInstance =
  di_TypeMeta :: "string \<times> string"
  di_ObjectMeta :: 'm
  di_Spec :: MSpec
  di_Status :: MStatus

record 'l MList =
  dl_TypeMeta :: "string \<times> string"
  dl_ListMeta :: 'l
  dl_Items :: ref

text \<open>A cell holds a map or the elements of a slice.\<close>

datatype 'm cell = MapCell gomap | StringsCell "string list" | ConditionCell "Condition list" | ItemCell "'m MInstance list"

record 'm heap =
  cells :: "nat \<Rightarrow> 'm cell option"
  free :: nat

definition alloc :: "'m cell \<Rightarrow> 'm heap \<Rightarrow> nat \<times> 'm heap" where
  "alloc c h = (free h, h\<lparr>cells := (cells h)(free h \<mapsto> c), free := Suc (free h)\<rparr>)"

definition map_at :: "'m heap \<Rightarrow> ref \<Rightarrow> gomap" where
  "map_at h r = (case Option.bind r (cells h) of Some (MapCell m) \<Rightarrow> m | _ \<Rightarrow> [])"

definition conditions_at :: "'m heap \<Rightarrow> ref \<Rightarrow> Condition list" where
  "conditions_at h r = (case Option.bind r (cells h) of Some (ConditionCell cs) \<Rightarrow> cs | _ \<Rightarrow> [])"

definition items_at :: "'m heap \<Rightarrow> ref \<Rightarrow> 'm MInstance list" where
  "items_at h r = (case Option.bind r (cells h) of Some (ItemCell xs) \<Rightarrow> xs | _ \<Rightarrow> [])"

section \<open>The generated functions\<close>

text \<open>The copies that the library's structs make of themselves, what an \<open>ObjectMeta\<close> means, and the cells it refers to.\<close>

record ('m, 'l, 'v) Library_copies =
  copy_ObjectMeta :: "'m \<Rightarrow> 'm heap \<Rightarrow> 'm \<times> 'm heap"
  meta_meaning :: "'m heap \<Rightarrow> 'm \<Rightarrow> 'v"
  meta_refs :: "'m heap \<Rightarrow> 'm \<Rightarrow> nat set"
  copy_ListMeta :: "'l \<Rightarrow> 'l"
  copy_Condition :: "Condition \<Rightarrow> Condition"

text \<open>\<open>for key, val := range *in { (*out)[key] = val }\<close> into a new map\<close>

definition copy_entries :: "gomap \<Rightarrow> gomap" where
  "copy_entries m = fold (\<lambda>(key, val). AList.update key val) m []"

definition copy_tags :: "ref \<Rightarrow> 'm heap \<Rightarrow> ref \<times> 'm heap" where
  "copy_tags r h = (case r of
     None \<Rightarrow> (None, h)
   | Some a \<Rightarrow> (case alloc (MapCell (copy_entries (map_at h r))) h of (b, h') \<Rightarrow> (Some b, h')))"

definition copy_conditions :: "(Condition \<Rightarrow> Condition) \<Rightarrow> ref \<Rightarrow> 'm heap \<Rightarrow> ref \<times> 'm heap" where
  "copy_conditions f r h = (case r of
     None \<Rightarrow> (None, h)
   | Some a \<Rightarrow> (case alloc (ConditionCell (map f (conditions_at h r))) h of (b, h') \<Rightarrow> (Some b, h')))"

definition Spec_DeepCopyInto :: "MSpec \<Rightarrow> 'm heap \<Rightarrow> MSpec \<times> 'm heap" where
  "Spec_DeepCopyInto s h = (case copy_tags (ds_Tags s) h of (t, h') \<Rightarrow> (s\<lparr>ds_Tags := t\<rparr>, h'))"

definition Status_DeepCopyInto :: "(Condition \<Rightarrow> Condition) \<Rightarrow> MStatus \<Rightarrow> 'm heap \<Rightarrow> MStatus \<times> 'm heap" where
  "Status_DeepCopyInto f s h =
     (case copy_tags (dt_Tags s) h of (t, h1) \<Rightarrow>
      case copy_conditions f (dt_Conditions s) h1 of (c, h2) \<Rightarrow>
        (s\<lparr>dt_Tags := t, dt_Conditions := c\<rparr>, h2))"

definition Instance_DeepCopyInto ::
  "('m, 'l, 'v) Library_copies \<Rightarrow> 'm MInstance \<Rightarrow> 'm heap \<Rightarrow> 'm MInstance \<times> 'm heap" where
  "Instance_DeepCopyInto K x h =
     (case copy_ObjectMeta K (di_ObjectMeta x) h of (m, h0) \<Rightarrow>
      case Spec_DeepCopyInto (di_Spec x) h0 of (sp, h1) \<Rightarrow>
      case Status_DeepCopyInto (copy_Condition K) (di_Status x) h1 of (st, h2) \<Rightarrow>
        (x\<lparr>di_ObjectMeta := m, di_Spec := sp, di_Status := st\<rparr>, h2))"

text \<open>
  \<open>SfsTurboInstanceList\<close>: the loop over the items. The new slice is allocated first and its elements are
  written one after the other.
\<close>

fun copy_items ::
  "('m, 'l, 'v) Library_copies \<Rightarrow> 'm MInstance list \<Rightarrow> 'm heap \<Rightarrow> 'm MInstance list \<times> 'm heap" where
  "copy_items K [] h = ([], h)"
| "copy_items K (x # xs) h = (case Instance_DeepCopyInto K x h of (y, h1) \<Rightarrow>
     case copy_items K xs h1 of (ys, h2) \<Rightarrow> (y # ys, h2))"

definition List_DeepCopyInto ::
  "('m, 'l, 'v) Library_copies \<Rightarrow> 'l MList \<Rightarrow> 'm heap \<Rightarrow> 'l MList \<times> 'm heap" where
  "List_DeepCopyInto K l h =
     (let out = l\<lparr>dl_ListMeta := copy_ListMeta K (dl_ListMeta l)\<rparr> in
      case dl_Items l of
        None \<Rightarrow> (out, h)
      | Some a \<Rightarrow> (case alloc (ItemCell []) h of (b, h1) \<Rightarrow>
          case copy_items K (items_at h (dl_Items l)) h1 of (ys, h2) \<Rightarrow>
            (out\<lparr>dl_Items := Some b\<rparr>, h2\<lparr>cells := (cells h2)(b \<mapsto> ItemCell ys)\<rparr>)))"

text \<open>\<open>DeepCopy\<close>: nil for nil, otherwise a new struct. \<open>DeepCopyObject\<close>: the same as an interface value.\<close>

definition deep_copy_of :: "('a \<Rightarrow> 'm heap \<Rightarrow> 'a \<times> 'm heap) \<Rightarrow> 'a option \<Rightarrow> 'm heap \<Rightarrow> 'a option \<times> 'm heap" where
  "deep_copy_of into p h = (case p of None \<Rightarrow> (None, h) | Some x \<Rightarrow> (case into x h of (y, h') \<Rightarrow> (Some y, h')))"

definition Instance_DeepCopy :: "('m, 'l, 'v) Library_copies \<Rightarrow> 'm MInstance option \<Rightarrow> 'm heap \<Rightarrow> 'm MInstance option \<times> 'm heap" where
  "Instance_DeepCopy K = deep_copy_of (Instance_DeepCopyInto K)"

definition Instance_DeepCopyObject :: "('m, 'l, 'v) Library_copies \<Rightarrow> 'm MInstance option \<Rightarrow> 'm heap \<Rightarrow> 'm MInstance option \<times> 'm heap" where
  "Instance_DeepCopyObject K p h = (case Instance_DeepCopy K p h of (c, h') \<Rightarrow> if c \<noteq> None then (c, h') else (None, h'))"

definition List_DeepCopy :: "('m, 'l, 'v) Library_copies \<Rightarrow> 'l MList option \<Rightarrow> 'm heap \<Rightarrow> 'l MList option \<times> 'm heap" where
  "List_DeepCopy K = deep_copy_of (List_DeepCopyInto K)"

definition List_DeepCopyObject :: "('m, 'l, 'v) Library_copies \<Rightarrow> 'l MList option \<Rightarrow> 'm heap \<Rightarrow> 'l MList option \<times> 'm heap" where
  "List_DeepCopyObject K p h = (case List_DeepCopy K p h of (c, h') \<Rightarrow> if c \<noteq> None then (c, h') else (None, h'))"

definition Spec_DeepCopy :: "MSpec option \<Rightarrow> 'm heap \<Rightarrow> MSpec option \<times> 'm heap" where
  "Spec_DeepCopy = deep_copy_of Spec_DeepCopyInto"

definition Status_DeepCopy :: "(Condition \<Rightarrow> Condition) \<Rightarrow> MStatus option \<Rightarrow> 'm heap \<Rightarrow> MStatus option \<times> 'm heap" where
  "Status_DeepCopy f = deep_copy_of (Status_DeepCopyInto f)"

lemmas deep_copy_defs = deep_copy_of_def Instance_DeepCopy_def Instance_DeepCopyObject_def List_DeepCopy_def
  List_DeepCopyObject_def Spec_DeepCopy_def Status_DeepCopy_def

section \<open>What an object means and what it refers to\<close>

definition spec_meaning :: "'m heap \<Rightarrow> MSpec \<Rightarrow> SfsTurboInstanceSpec" where
  "spec_meaning h s = (ds_values s)\<lparr>sp_Tags := map_at h (ds_Tags s)\<rparr>"

definition status_meaning :: "'m heap \<Rightarrow> MStatus \<Rightarrow> SfsTurboInstanceStatus" where
  "status_meaning h s = (dt_values s)\<lparr>st_Tags := map_at h (dt_Tags s), st_Conditions := conditions_at h (dt_Conditions s)\<rparr>"

definition instance_meaning :: "('m, 'l, 'v) Library_copies \<Rightarrow> 'm heap \<Rightarrow> 'm MInstance
    \<Rightarrow> (string \<times> string) \<times> 'v \<times> SfsTurboInstanceSpec \<times> SfsTurboInstanceStatus" where
  "instance_meaning K h x = (di_TypeMeta x, meta_meaning K h (di_ObjectMeta x), spec_meaning h (di_Spec x), status_meaning h (di_Status x))"

definition list_meaning :: "('m, 'l, 'v) Library_copies \<Rightarrow> 'm heap \<Rightarrow> 'l MList
    \<Rightarrow> (string \<times> string) \<times> 'l \<times> ((string \<times> string) \<times> 'v \<times> SfsTurboInstanceSpec \<times> SfsTurboInstanceStatus) list" where
  "list_meaning K h l = (dl_TypeMeta l, dl_ListMeta l, map (instance_meaning K h) (items_at h (dl_Items l)))"

definition spec_refs :: "'m heap \<Rightarrow> MSpec \<Rightarrow> nat set" where
  "spec_refs h s = set_option (ds_Tags s)"

definition status_refs :: "'m heap \<Rightarrow> MStatus \<Rightarrow> nat set" where
  "status_refs h s = set_option (dt_Tags s) \<union> set_option (dt_Conditions s)"

definition instance_refs :: "('m, 'l, 'v) Library_copies \<Rightarrow> 'm heap \<Rightarrow> 'm MInstance \<Rightarrow> nat set" where
  "instance_refs K h x = meta_refs K h (di_ObjectMeta x) \<union> (spec_refs h (di_Spec x) \<union> status_refs h (di_Status x))"

definition list_refs :: "('m, 'l, 'v) Library_copies \<Rightarrow> 'm heap \<Rightarrow> 'l MList \<Rightarrow> nat set" where
  "list_refs K h l = set_option (dl_Items l) \<union> (\<Union>x \<in> set (items_at h (dl_Items l)). instance_refs K h x)"

text \<open>A store in which every map has one entry per key.\<close>

definition wf_heap :: "'m heap \<Rightarrow> bool" where
  "wf_heap h \<longleftrightarrow> (\<forall>a m. cells h a = Some (MapCell m) \<longrightarrow> wf_map m)"

text \<open>Nothing below the old free address has changed.\<close>

definition extends :: "'m heap \<Rightarrow> 'm heap \<Rightarrow> bool" where
  "extends h h' \<longleftrightarrow> free h \<le> free h' \<and> (\<forall>a < free h. cells h' a = cells h a)"

lemma extends_refl: "extends h h"
  by (simp add: extends_def)

lemma extends_trans: "extends h h1 \<Longrightarrow> extends h1 h2 \<Longrightarrow> extends h h2"
  by (auto simp: extends_def)

section \<open>The contract of a deep copy\<close>

text \<open>
  What every \<open>DeepCopyInto\<close> promises: it changes no cell that was there, the copy means what
  the original means, and refers to new cells only. \<open>depends\<close> says that \<open>refs\<close> are all the cells that
  matter to an object.
\<close>

locale deep_copier =
  fixes copy :: "'a \<Rightarrow> 'm heap \<Rightarrow> 'a \<times> 'm heap"
    and meaning :: "'m heap \<Rightarrow> 'a \<Rightarrow> 'v"
    and refs :: "'m heap \<Rightarrow> 'a \<Rightarrow> nat set"
  assumes grows: "copy x h = (y, h') \<Longrightarrow> extends h h'"
    and keeps_wf: "copy x h = (y, h') \<Longrightarrow> wf_heap h \<Longrightarrow> wf_heap h'"
    and same: "copy x h = (y, h') \<Longrightarrow> wf_heap h \<Longrightarrow> refs h x \<subseteq> {..<free h} \<Longrightarrow> meaning h' y = meaning h x"
    and fresh: "copy x h = (y, h') \<Longrightarrow> refs h x \<subseteq> {..<free h} \<Longrightarrow> refs h' y \<subseteq> {free h..<free h'}"
    and depends: "(\<And>a. a \<in> refs h x \<Longrightarrow> cells h' a = cells h a) \<Longrightarrow> meaning h' x = meaning h x \<and> refs h' x = refs h x"
begin

lemma kept:
  assumes "extends h h'" and "refs h x \<subseteq> {..<free h}"
  shows "meaning h' x = meaning h x \<and> refs h' x = refs h x"
  by (rule depends) (use assms in \<open>auto simp: extends_def\<close>)

lemmas original_kept = kept [OF grows]

lemma nothing_shared:
  assumes "copy x h = (y, h')" and "refs h x \<subseteq> {..<free h}"
  shows "refs h' y \<inter> refs h x = {}"
  using fresh [OF assms] assms(2) by fastforce

text \<open>The copy outlives every change of the original, and the other way round.\<close>

lemma copy_survives:
  assumes "copy x h = (y, h')" and "wf_heap h" and "refs h x \<subseteq> {..<free h}"
    and "\<And>a. a \<in> refs h' y \<Longrightarrow> cells h2 a = cells h' a"
  shows "meaning h2 y = meaning h x"
  using depends [of h' y h2] assms(4) same [OF assms(1-3)] by auto

lemma original_survives:
  assumes "copy x h = (y, h')" and "refs h x \<subseteq> {..<free h}"
    and "\<And>a. a \<in> refs h x \<Longrightarrow> cells h2 a = cells h' a"
  shows "meaning h2 x = meaning h x"
  using depends [of h' x h2] assms(3) original_kept [OF assms(1,2)] by auto

end

section \<open>The generated functions are such copies\<close>

lemma copy_entries_same: "wf_map m \<Longrightarrow> copy_entries m = m"
proof -
  have "wf_map (acc @ m) \<Longrightarrow> fold (\<lambda>(key, val). AList.update key val) m acc = acc @ m" for acc
  proof (induction m arbitrary: acc)
    case (Cons kv m)
    obtain k v where kv: "kv = (k, v)" by (cases kv)
    have "AList.update k v acc = acc @ [(k, v)]"
      using Cons.prems unfolding kv by (induction acc) (auto simp: wf_map_def)
    then show ?case using Cons.IH [of "acc @ [(k, v)]"] Cons.prems by (simp add: kv)
  qed simp
  from this [of "[]"] show "wf_map m \<Longrightarrow> copy_entries m = m" by (simp add: copy_entries_def)
qed

lemma copy_entries_wf: "wf_map (copy_entries m)"
proof -
  have "wf_map acc \<Longrightarrow> wf_map (fold (\<lambda>(key, val). AList.update key val) m acc)" for acc :: gomap
    by (induction m arbitrary: acc) (auto simp: wf_map_update)
  then show ?thesis by (simp add: copy_entries_def wf_map_def)
qed

lemma wf_map_at: "wf_heap h \<Longrightarrow> wf_map (map_at h r)"
  by (auto simp: wf_heap_def map_at_def wf_map_def [of "[]"] split: option.split cell.split bind_splits)

lemmas copy_defs = copy_tags_def copy_conditions_def alloc_def extends_def wf_heap_def

interpretation tags: deep_copier copy_tags map_at "\<lambda>_ r. set_option r"
proof unfold_locales
  fix x :: ref and h y and h' :: "'m heap"
  assume c: "copy_tags x h = (y, h')"
  then show "extends h h'" by (auto simp: copy_defs split: option.splits)
  show "wf_heap h'" if "wf_heap h"
    using c that by (auto simp: copy_defs copy_entries_wf split: option.splits if_splits)
  show "map_at h' y = map_at h x" if "wf_heap h" "set_option x \<subseteq> {..<free h}"
    using c copy_entries_same [OF wf_map_at [OF that(1), of x]]
    by (auto simp: copy_tags_def alloc_def map_at_def split: option.splits)
  show "set_option y \<subseteq> {free h..<free h'}" if "set_option x \<subseteq> {..<free h}"
    using c by (auto simp: copy_defs split: option.splits)
next
  fix x :: ref and h h' :: "'m heap"
  assume "\<And>a. a \<in> set_option x \<Longrightarrow> cells h' a = cells h a"
  then show "map_at h' x = map_at h x \<and> set_option x = set_option x" by (cases x) (auto simp: map_at_def)
qed

lemma conditions_copier:
  assumes "\<And>c. f c = c"
  shows "deep_copier (copy_conditions f) conditions_at (\<lambda>_ r. set_option r)"
proof unfold_locales
  fix x :: ref and h y and h' :: "'m heap"
  assume c: "copy_conditions f x h = (y, h')"
  then show "extends h h'" by (auto simp: copy_defs split: option.splits)
  show "wf_heap h'" if "wf_heap h"
    using c that by (auto simp: copy_defs split: option.splits if_splits)
  show "conditions_at h' y = conditions_at h x" if "wf_heap h" "set_option x \<subseteq> {..<free h}"
    using c assms by (auto simp: copy_conditions_def alloc_def conditions_at_def map_idI split: option.splits)
  show "set_option y \<subseteq> {free h..<free h'}" if "set_option x \<subseteq> {..<free h}"
    using c by (auto simp: copy_defs split: option.splits)
next
  fix x :: ref and h h' :: "'m heap"
  assume "\<And>a. a \<in> set_option x \<Longrightarrow> cells h' a = cells h a"
  then show "conditions_at h' x = conditions_at h x \<and> set_option x = set_option x"
    by (cases x) (auto simp: conditions_at_def)
qed

text \<open>Two copies one after the other, and a copy of a part of a struct.\<close>

definition both :: "('a \<Rightarrow> 'm heap \<Rightarrow> 'a \<times> 'm heap) \<Rightarrow> ('b \<Rightarrow> 'm heap \<Rightarrow> 'b \<times> 'm heap)
    \<Rightarrow> 'a \<times> 'b \<Rightarrow> 'm heap \<Rightarrow> ('a \<times> 'b) \<times> 'm heap" where
  "both c1 c2 x h = (case c1 (fst x) h of (y1, h1) \<Rightarrow> case c2 (snd x) h1 of (y2, h2) \<Rightarrow> ((y1, y2), h2))"

definition part_of :: "('a \<Rightarrow> 'b) \<Rightarrow> ('b \<Rightarrow> 'a \<Rightarrow> 'a) \<Rightarrow> ('b \<Rightarrow> 'm heap \<Rightarrow> 'b \<times> 'm heap) \<Rightarrow> 'a \<Rightarrow> 'm heap \<Rightarrow> 'a \<times> 'm heap" where
  "part_of get put c x h = (case c (get x) h of (y, h') \<Rightarrow> (put y x, h'))"

lemma deep_copier_both:
  assumes "deep_copier c1 m1 r1" and "deep_copier c2 m2 r2"
  shows "deep_copier (both c1 c2) (\<lambda>h x. (m1 h (fst x), m2 h (snd x))) (\<lambda>h x. r1 h (fst x) \<union> r2 h (snd x))"
proof unfold_locales
  fix x h y h'
  assume "both c1 c2 x h = (y, h')"
  then obtain h1 where c1: "c1 (fst x) h = (fst y, h1)" and c2: "c2 (snd x) h1 = (snd y, h')"
    by (auto simp: both_def split: prod.splits)
  have g1: "extends h h1" and g2: "extends h1 h'"
    using deep_copier.grows [OF assms(1) c1] deep_copier.grows [OF assms(2) c2] by auto
  show "extends h h'" using g1 g2 by (rule extends_trans)
  show "wf_heap h'" if "wf_heap h"
    using deep_copier.keeps_wf [OF assms(1) c1 that] by (rule deep_copier.keeps_wf [OF assms(2) c2])
  assume cl: "r1 h (fst x) \<union> r2 h (snd x) \<subseteq> {..<free h}"
  then have cl1: "r1 h (fst x) \<subseteq> {..<free h}" and cl2: "r2 h (snd x) \<subseteq> {..<free h}" by auto
  have snd_kept: "m2 h1 (snd x) = m2 h (snd x)" "r2 h1 (snd x) = r2 h (snd x)"
    using deep_copier.kept [OF assms(2) g1 cl2] by auto
  have fresh1: "r1 h1 (fst y) \<subseteq> {free h..<free h1}" by (rule deep_copier.fresh [OF assms(1) c1 cl1])
  have "r1 h1 (fst y) \<subseteq> {..<free h1}" using fresh1 by auto
  then have fst_kept: "m1 h' (fst y) = m1 h1 (fst y)" "r1 h' (fst y) = r1 h1 (fst y)"
    using deep_copier.kept [OF assms(1) g2] by auto
  have cl2': "r2 h1 (snd x) \<subseteq> {..<free h1}" using snd_kept cl2 g1 by (auto simp: extends_def)
  have fresh2: "r2 h' (snd y) \<subseteq> {free h1..<free h'}" by (rule deep_copier.fresh [OF assms(2) c2 cl2'])
  show "r1 h' (fst y) \<union> r2 h' (snd y) \<subseteq> {free h..<free h'}"
  proof -
    have "{free h..<free h1} \<subseteq> {free h..<free h'}" "{free h1..<free h'} \<subseteq> {free h..<free h'}"
      using g1 g2 by (auto simp: extends_def)
    then show ?thesis using fresh1 fresh2 unfolding fst_kept(2) by blast
  qed
  show "(m1 h' (fst y), m2 h' (snd y)) = (m1 h (fst x), m2 h (snd x))" if "wf_heap h"
    using deep_copier.same [OF assms(1) c1 that cl1] fst_kept snd_kept
      deep_copier.same [OF assms(2) c2 deep_copier.keeps_wf [OF assms(1) c1 that] cl2'] by simp
next
  fix x and h h' :: "'b heap"
  assume "\<And>a. a \<in> r1 h (fst x) \<union> r2 h (snd x) \<Longrightarrow> cells h' a = cells h a"
  then show "(m1 h' (fst x), m2 h' (snd x)) = (m1 h (fst x), m2 h (snd x))
      \<and> r1 h' (fst x) \<union> r2 h' (snd x) = r1 h (fst x) \<union> r2 h (snd x)"
    using deep_copier.depends [OF assms(1), of h "fst x" h'] deep_copier.depends [OF assms(2), of h "snd x" h']
    by auto
qed

lemma deep_copier_part:
  assumes "deep_copier c m r" and "\<And>y x. get (put y x) = y" and "\<And>y x v. F (put y x) v = F x v"
  shows "deep_copier (part_of get put c) (\<lambda>h x. F x (m h (get x))) (\<lambda>h x. r h (get x))"
proof unfold_locales
  fix x h y h'
  assume "part_of get put c x h = (y, h')"
  then obtain z where c: "c (get x) h = (z, h')" and y: "y = put z x"
    by (auto simp: part_of_def split: prod.splits)
  show "extends h h'" by (rule deep_copier.grows [OF assms(1) c])
  show "wf_heap h'" if "wf_heap h" using that by (rule deep_copier.keeps_wf [OF assms(1) c])
  assume cl: "r h (get x) \<subseteq> {..<free h}"
  then show "r h' (get y) \<subseteq> {free h..<free h'}"
    using deep_copier.fresh [OF assms(1) c] by (simp add: y assms(2))
  show "F y (m h' (get y)) = F x (m h (get x))" if "wf_heap h"
    using deep_copier.same [OF assms(1) c that cl] by (simp add: y assms(2,3))
next
  fix x and h h' :: "'b heap"
  assume "\<And>a. a \<in> r h (get x) \<Longrightarrow> cells h' a = cells h a"
  then show "F x (m h' (get x)) = F x (m h (get x)) \<and> r h' (get x) = r h (get x)"
    using deep_copier.depends [OF assms(1), of h "get x" h'] by auto
qed

lemma spec_copier: "deep_copier Spec_DeepCopyInto spec_meaning spec_refs"
proof -
  have "deep_copier (part_of ds_Tags (\<lambda>t. ds_Tags_update (\<lambda>_. t)) copy_tags)
      (\<lambda>h x. (ds_values x)\<lparr>sp_Tags := map_at h (ds_Tags x)\<rparr>) (\<lambda>h x. set_option (ds_Tags x))"
    by (rule deep_copier_part [where F = "\<lambda>x m. (ds_values x)\<lparr>sp_Tags := m\<rparr>", OF tags.deep_copier_axioms]) simp_all
  then show ?thesis
    by (simp add: Spec_DeepCopyInto_def [abs_def] part_of_def [abs_def] spec_meaning_def [abs_def] spec_refs_def [abs_def])
qed

interpretation spec: deep_copier Spec_DeepCopyInto spec_meaning spec_refs
  by (rule spec_copier)

lemma status_copier:
  assumes "\<And>c. f c = c"
  shows "deep_copier (Status_DeepCopyInto f) status_meaning status_refs"
proof -
  have "deep_copier (part_of (\<lambda>s. (dt_Tags s, dt_Conditions s)) (\<lambda>(t, c) s. s\<lparr>dt_Tags := t, dt_Conditions := c\<rparr>)
        (both copy_tags (copy_conditions f)))
      (\<lambda>h x. (\<lambda>x (t, c). (dt_values x)\<lparr>st_Tags := t, st_Conditions := c\<rparr>) x
         (map_at h (fst (dt_Tags x, dt_Conditions x)), conditions_at h (snd (dt_Tags x, dt_Conditions x))))
      (\<lambda>h x. set_option (fst (dt_Tags x, dt_Conditions x)) \<union> set_option (snd (dt_Tags x, dt_Conditions x)))"
    by (rule deep_copier_part [where F = "\<lambda>x (t, c). (dt_values x)\<lparr>st_Tags := t, st_Conditions := c\<rparr>",
          OF deep_copier_both [OF tags.deep_copier_axioms conditions_copier [OF assms]]]) auto
  then show ?thesis
    by (simp add: Status_DeepCopyInto_def [abs_def] part_of_def [abs_def] both_def [abs_def] status_meaning_def [abs_def]
        status_refs_def [abs_def] split_def)
qed

text \<open>
  The library's structs, as documented: \<open>metav1.Condition\<close> and \<open>ListMeta\<close> have no maps or slices, their copies are equal to them;
  the copy of an \<open>ObjectMeta\<close> is a deep one.
\<close>

definition library_copies :: "('m, 'l, 'v) Library_copies \<Rightarrow> bool" where
  "library_copies K \<longleftrightarrow> (\<forall>c. copy_Condition K c = c) \<and> (\<forall>m. copy_ListMeta K m = m)
     \<and> deep_copier (copy_ObjectMeta K) (meta_meaning K) (meta_refs K)"

lemma instance_copier:
  assumes "library_copies K"
  shows "deep_copier (Instance_DeepCopyInto K) (instance_meaning K) (instance_refs K)"
proof -
  let ?get = "\<lambda>x :: 'a MInstance. (di_ObjectMeta x, di_Spec x, di_Status x)"
  let ?put = "\<lambda>(m, sp, st) x. x\<lparr>di_ObjectMeta := m, di_Spec := sp, di_Status := st\<rparr>"
  have status: "deep_copier (Status_DeepCopyInto (copy_Condition K)) status_meaning status_refs"
    by (rule status_copier) (use assms in \<open>simp add: library_copies_def\<close>)
  have meta: "deep_copier (copy_ObjectMeta K) (meta_meaning K) (meta_refs K)" using assms by (simp add: library_copies_def)
  have "deep_copier (part_of ?get ?put (both (copy_ObjectMeta K) (both Spec_DeepCopyInto (Status_DeepCopyInto (copy_Condition K)))))
      (\<lambda>h x. (\<lambda>x v. (di_TypeMeta x, v)) x (meta_meaning K h (fst (?get x)),
         spec_meaning h (fst (snd (?get x))), status_meaning h (snd (snd (?get x)))))
      (\<lambda>h x. meta_refs K h (fst (?get x)) \<union> (spec_refs h (fst (snd (?get x))) \<union> status_refs h (snd (snd (?get x)))))"
    by (rule deep_copier_part [where F = "\<lambda>x v. (di_TypeMeta x, v)",
          OF deep_copier_both [OF meta deep_copier_both [OF spec_copier status]]]) auto
  then show ?thesis
    by (simp add: Instance_DeepCopyInto_def [abs_def] part_of_def [abs_def] both_def [abs_def] instance_meaning_def [abs_def]
        instance_refs_def [abs_def] split_def)
qed

text \<open>The loop over the items.\<close>

lemma items_copier:
  assumes "library_copies K"
  shows "deep_copier (copy_items K) (\<lambda>h. map (instance_meaning K h)) (\<lambda>h xs. \<Union>x \<in> set xs. instance_refs K h x)"
proof -
  note head = instance_copier [OF assms]
  have facts: "copy_items K xs h = (ys, h') \<Longrightarrow> extends h h' \<and> (wf_heap h \<longrightarrow> wf_heap h')
      \<and> ((\<Union>x \<in> set xs. instance_refs K h x) \<subseteq> {..<free h} \<longrightarrow>
          (\<Union>x \<in> set ys. instance_refs K h' x) \<subseteq> {free h..<free h'}
        \<and> (wf_heap h \<longrightarrow> map (instance_meaning K h') ys = map (instance_meaning K h) xs))" for xs h ys h'
  proof (induction xs arbitrary: h ys h')
    case (Cons x xs)
    then obtain y h1 zs where c1: "Instance_DeepCopyInto K x h = (y, h1)" and c2: "copy_items K xs h1 = (zs, h')"
      and ys: "ys = y # zs" by (auto split: prod.splits)
    note IH = Cons.IH [OF c2]
    have g1: "extends h h1" by (rule deep_copier.grows [OF head c1])
    have g2: "extends h1 h'" using IH by simp
    have wf1: "wf_heap h \<Longrightarrow> wf_heap h1" by (rule deep_copier.keeps_wf [OF head c1])
    show ?case
    proof (intro conjI impI)
      show "extends h h'" using g1 g2 by (rule extends_trans)
      show "wf_heap h'" if "wf_heap h" using IH wf1 [OF that] by simp
      assume cl: "(\<Union>x \<in> set (x # xs). instance_refs K h x) \<subseteq> {..<free h}"
      have kept: "instance_meaning K h1 z = instance_meaning K h z" "instance_refs K h1 z = instance_refs K h z" if "z \<in> set xs" for z
        using deep_copier.kept [OF head g1, of z] cl that by auto
      have cl': "(\<Union>x \<in> set xs. instance_refs K h1 x) \<subseteq> {..<free h1}"
        using cl g1 kept by (fastforce simp: extends_def)
      have new: "instance_refs K h1 y \<subseteq> {free h..<free h1}" by (rule deep_copier.fresh [OF head c1]) (use cl in simp)
      then have "instance_refs K h1 y \<subseteq> {..<free h1}" by auto
      then have y: "instance_meaning K h' y = instance_meaning K h1 y" "instance_refs K h' y = instance_refs K h1 y"
        using deep_copier.kept [OF head g2] by auto
      have "{free h..<free h1} \<subseteq> {free h..<free h'}" "{free h1..<free h'} \<subseteq> {free h..<free h'}"
        using g1 g2 by (auto simp: extends_def)
      moreover have "(\<Union>x \<in> set zs. instance_refs K h' x) \<subseteq> {free h1..<free h'}" using IH cl' by blast
      ultimately have "instance_refs K h' y \<union> (\<Union>x \<in> set zs. instance_refs K h' x) \<subseteq> {free h..<free h'}"
        using new unfolding y(2) by blast
      then show "(\<Union>x \<in> set ys. instance_refs K h' x) \<subseteq> {free h..<free h'}" by (simp add: ys)
      assume wf: "wf_heap h"
      have "instance_meaning K h1 y = instance_meaning K h x"
        by (rule deep_copier.same [OF head c1 wf]) (use cl in simp)
      then show "map (instance_meaning K h') ys = map (instance_meaning K h) (x # xs)"
        using IH wf1 [OF wf] cl' kept(1) y(1) by (simp add: ys)
    qed
  qed (simp add: extends_refl)
  show ?thesis
  proof unfold_locales
    fix xs h ys h'
    assume c: "copy_items K xs h = (ys, h')"
    note f = facts [OF c]
    show "extends h h'" using f by simp
    show "wf_heap h'" if "wf_heap h" using f that by simp
    assume cl: "(\<Union>x \<in> set xs. instance_refs K h x) \<subseteq> {..<free h}"
    show "(\<Union>x \<in> set ys. instance_refs K h' x) \<subseteq> {free h..<free h'}" using f cl by simp
    show "map (instance_meaning K h') ys = map (instance_meaning K h) xs" if "wf_heap h" using f cl that by simp
  next
    fix xs and h h' :: "'a heap"
    assume "\<And>a. a \<in> (\<Union>x \<in> set xs. instance_refs K h x) \<Longrightarrow> cells h' a = cells h a"
    then have "\<And>x. x \<in> set xs \<Longrightarrow> instance_meaning K h' x = instance_meaning K h x \<and> instance_refs K h' x = instance_refs K h x"
      by (intro deep_copier.depends [OF head]) auto
    then show "map (instance_meaning K h') xs = map (instance_meaning K h) xs
        \<and> (\<Union>x \<in> set xs. instance_refs K h' x) = (\<Union>x \<in> set xs. instance_refs K h x)" by auto
  qed
qed

text \<open>The whole list: its slice is a new cell too.\<close>

lemma list_copier:
  fixes K :: "('m, 'l, 'v) Library_copies"
  assumes "library_copies K"
  shows "deep_copier (List_DeepCopyInto K) (list_meaning K) (list_refs K)"
proof unfold_locales
  note items = items_copier [OF assms]
  have plain [simp]: "copy_ListMeta K m = m" for m using assms by (simp add: library_copies_def)
  fix l :: "'l MList" and h k and h' :: "'m heap"
  assume copy: "List_DeepCopyInto K l h = (k, h')"
  let ?out = "l\<lparr>dl_ListMeta := copy_ListMeta K (dl_ListMeta l)\<rparr>"
  consider "dl_Items l = None" "k = ?out" "h' = h"
    | b h1 ys h2 where "dl_Items l \<noteq> None" "b = free h" "h1 = h\<lparr>cells := (cells h)(b \<mapsto> ItemCell []), free := Suc b\<rparr>"
        "copy_items K (items_at h (dl_Items l)) h1 = (ys, h2)" "k = ?out\<lparr>dl_Items := Some b\<rparr>"
        "h' = h2\<lparr>cells := (cells h2)(b \<mapsto> ItemCell ys)\<rparr>"
    using copy by (auto simp: List_DeepCopyInto_def alloc_def Let_def split: option.splits prod.splits)
  note split = this
  show "extends h h'"
  proof (cases rule: split)
    case (2 b h1 ys h2)
    have "extends h h1" using 2 by (auto simp: extends_def)
    moreover have "extends h1 h2" by (rule deep_copier.grows [OF items 2(4)])
    ultimately have "extends h h2" by (rule extends_trans)
    then show ?thesis using 2 by (simp add: extends_def)
  qed (simp add: extends_refl)
  show "wf_heap h'" if "wf_heap h"
  proof (cases rule: split)
    case (2 b h1 ys h2)
    have "wf_heap h1" using 2(3) that by (auto simp: wf_heap_def split: if_splits)
    then have "wf_heap h2" by (rule deep_copier.keeps_wf [OF items 2(4)])
    then show ?thesis using 2(6) by (auto simp: wf_heap_def split: if_splits)
  qed (use that in simp)
  assume cl: "list_refs K h l \<subseteq> {..<free h}"
  have two: "list_refs K h' k \<subseteq> {free h..<free h'} \<and> (wf_heap h \<longrightarrow> list_meaning K h' k = list_meaning K h l)"
    if "dl_Items l \<noteq> None" "b = free h" "h1 = h\<lparr>cells := (cells h)(b \<mapsto> ItemCell []), free := Suc b\<rparr>"
      "copy_items K (items_at h (dl_Items l)) h1 = (ys, h2)" "k = ?out\<lparr>dl_Items := Some b\<rparr>"
      "h' = h2\<lparr>cells := (cells h2)(b \<mapsto> ItemCell ys)\<rparr>" for b h1 ys h2
  proof -
    let ?xs = "items_at h (dl_Items l)" and ?refs = "\<lambda>h xs. \<Union>x \<in> set xs. instance_refs K h x"
    have cl0: "?refs h ?xs \<subseteq> {..<free h}" using cl by (simp add: list_refs_def)
    have g1: "extends h h1" using that by (auto simp: extends_def)
    have k1: "map (instance_meaning K h1) ?xs = map (instance_meaning K h) ?xs" "?refs h1 ?xs = ?refs h ?xs"
      using deep_copier.kept [OF items g1 cl0] by auto
    have "free h1 = Suc b" using that by simp
    have cl1: "?refs h1 ?xs \<subseteq> {..<free h1}"
      using cl0 unfolding k1(2) \<open>free h1 = Suc b\<close> \<open>b = free h\<close> by auto
    have new: "?refs h2 ys \<subseteq> {free h1..<free h2}" by (rule deep_copier.fresh [OF items that(4) cl1])
    have g2: "free h1 \<le> free h2" using deep_copier.grows [OF items that(4)] by (simp add: extends_def)
    have "b \<notin> ?refs h2 ys" using new \<open>free h1 = Suc b\<close> by auto
    then have other: "cells h' a = cells h2 a" if "a \<in> ?refs h2 ys" for a
      using \<open>h' = _\<close> that by auto
    have k2: "map (instance_meaning K h') ys = map (instance_meaning K h2) ys" "?refs h' ys = ?refs h2 ys"
      using deep_copier.depends [OF items, of h2 ys h', OF other] by (simp_all only: simp_thms)
    have at: "items_at h' (dl_Items k) = ys" using that by (simp add: items_at_def)
    have "list_refs K h' k \<subseteq> {free h..<free h'}"
      using new g2 \<open>free h1 = Suc b\<close> that(2) unfolding list_refs_def at k2(2) by (auto simp: that(5,6))
    moreover have "list_meaning K h' k = list_meaning K h l" if "wf_heap h"
    proof -
      have "wf_heap h1" using \<open>h1 = _\<close> that by (auto simp: wf_heap_def split: if_splits)
      from deep_copier.same [OF items \<open>copy_items _ _ _ = _\<close> this cl1]
      show ?thesis unfolding list_meaning_def at k2(1) k1(1) [symmetric] by (simp add: \<open>k = _\<close>)
    qed
    ultimately show ?thesis by simp
  qed
  show "list_refs K h' k \<subseteq> {free h..<free h'}"
  proof (cases rule: split)
    case 1
    then show ?thesis by (simp add: list_refs_def items_at_def)
  next
    case 2
    from two [OF this] show ?thesis by simp
  qed
  show "list_meaning K h' k = list_meaning K h l" if "wf_heap h"
  proof (cases rule: split)
    case 1
    then show ?thesis by (simp add: list_meaning_def items_at_def)
  next
    case 2
    from two [OF this] that show ?thesis by simp
  qed
next
  note items = items_copier [OF assms]
  fix l :: "'l MList" and h h' :: "'m heap"
  assume eq: "\<And>a. a \<in> list_refs K h l \<Longrightarrow> cells h' a = cells h a"
  then have "items_at h' (dl_Items l) = items_at h (dl_Items l)"
    by (cases "dl_Items l") (auto simp: items_at_def list_refs_def)
  moreover have "map (instance_meaning K h') (items_at h (dl_Items l)) = map (instance_meaning K h) (items_at h (dl_Items l))
      \<and> (\<Union>x \<in> set (items_at h (dl_Items l)). instance_refs K h' x) = (\<Union>x \<in> set (items_at h (dl_Items l)). instance_refs K h x)"
    by (rule deep_copier.depends [OF items]) (use eq in \<open>auto simp: list_refs_def\<close>)
  ultimately show "list_meaning K h' l = list_meaning K h l \<and> list_refs K h' l = list_refs K h l"
    by (simp add: list_meaning_def list_refs_def)
qed

section \<open>Copies are equal and separate\<close>

lemma list_copy_is_separate:
  assumes "library_copies K" and "List_DeepCopyObject K (Some l) h = (Some k, h')"
    and "wf_heap h" and "list_refs K h l \<subseteq> {..<free h}"
  shows "list_meaning K h' k = list_meaning K h l" and "list_meaning K h' l = list_meaning K h l"
    and "list_refs K h' k \<inter> list_refs K h' l = {}"
proof -
  have c: "List_DeepCopyInto K l h = (k, h')" using assms(2) by (auto simp: deep_copy_defs split: prod.splits if_splits)
  note L = list_copier [OF assms(1)]
  show "list_meaning K h' k = list_meaning K h l" by (rule deep_copier.same [OF L c assms(3,4)])
  show "list_meaning K h' l = list_meaning K h l" "list_refs K h' k \<inter> list_refs K h' l = {}"
    using deep_copier.original_kept [OF L c assms(4)] deep_copier.nothing_shared [OF L c assms(4)] by auto
qed

text \<open>
  C35. A deep copy of an \<open>SfsTurboInstance\<close> means what the original means, metadata, spec and status, the original is left as
  it was, and they share no map and no slice (with the library's copy of \<open>ObjectMeta\<close> being a deep one): whatever is written later to the cells of
  the one (\<open>h2\<close>: a store that agrees on the cells of the other), the other keeps its meaning. This is
  what lets the reconciler change the object the cache handed out.
\<close>

theorem deep_copy_is_separate:
  assumes "library_copies K" and "Instance_DeepCopyObject K (Some x) h = (Some y, h')"
    and "wf_heap h" and "instance_refs K h x \<subseteq> {..<free h}"
  shows "instance_meaning K h' y = instance_meaning K h x \<and> instance_meaning K h' x = instance_meaning K h x
    \<and> instance_refs K h' y \<inter> instance_refs K h' x = {}
    \<and> (\<forall>h2. (\<forall>a \<in> instance_refs K h' y. cells h2 a = cells h' a) \<longrightarrow> instance_meaning K h2 y = instance_meaning K h x)
    \<and> (\<forall>h2. (\<forall>a \<in> instance_refs K h' x. cells h2 a = cells h' a) \<longrightarrow> instance_meaning K h2 x = instance_meaning K h x)"
proof -
  have c: "Instance_DeepCopyInto K x h = (y, h')" using assms(2) by (auto simp: deep_copy_defs split: prod.splits if_splits)
  note I = instance_copier [OF assms(1)]
  show ?thesis
    using deep_copier.same [OF I c assms(3,4)] deep_copier.original_kept [OF I c assms(4)]
      deep_copier.nothing_shared [OF I c assms(4)] deep_copier.copy_survives [OF I c assms(3,4)]
      deep_copier.original_survives [OF I c assms(4)] by auto
qed

text \<open>
  An object metadata with labels and finalizers, and its copy: the map, then the slice.
\<close>

definition strings_at :: "'m heap \<Rightarrow> ref \<Rightarrow> string list" where
  "strings_at h r = (case Option.bind r (cells h) of Some (StringsCell xs) \<Rightarrow> xs | _ \<Rightarrow> [])"

definition copy_strings :: "ref \<Rightarrow> 'm heap \<Rightarrow> ref \<times> 'm heap" where
  "copy_strings r h = (case r of
     None \<Rightarrow> (None, h)
   | Some a \<Rightarrow> (case alloc (StringsCell (strings_at h r)) h of (b, h') \<Rightarrow> (Some b, h')))"

interpretation strings: deep_copier copy_strings strings_at "\<lambda>_ r. set_option r"
proof unfold_locales
  fix x :: ref and h y and h' :: "'m heap"
  assume c: "copy_strings x h = (y, h')"
  then show "extends h h'" by (auto simp: copy_strings_def copy_defs split: option.splits)
  show "wf_heap h'" if "wf_heap h"
    using c that by (auto simp: copy_strings_def copy_defs split: option.splits if_splits)
  show "strings_at h' y = strings_at h x" if "wf_heap h" "set_option x \<subseteq> {..<free h}"
    using c by (auto simp: copy_strings_def alloc_def strings_at_def split: option.splits)
  show "set_option y \<subseteq> {free h..<free h'}" if "set_option x \<subseteq> {..<free h}"
    using c by (auto simp: copy_strings_def copy_defs split: option.splits)
next
  fix x :: ref and h h' :: "'m heap"
  assume "\<And>a. a \<in> set_option x \<Longrightarrow> cells h' a = cells h a"
  then show "strings_at h' x = strings_at h x \<and> set_option x = set_option x" by (cases x) (auto simp: strings_at_def)
qed

type_synonym metadata = "ref \<times> ref"

definition demo_copies :: "(metadata, unit, gomap \<times> string list) Library_copies" where
  "demo_copies = \<lparr>copy_ObjectMeta = both copy_tags copy_strings,
     meta_meaning = (\<lambda>h m. (map_at h (fst m), strings_at h (snd m))),
     meta_refs = (\<lambda>h m. set_option (fst m) \<union> set_option (snd m)),
     copy_ListMeta = (\<lambda>m. m), copy_Condition = (\<lambda>c. c)\<rparr>"

lemma demo_copies_deep: "library_copies demo_copies"
  using deep_copier_both [OF tags.deep_copier_axioms strings.deep_copier_axioms] by (simp add: library_copies_def demo_copies_def)

text \<open>An object with two tags in cell 0, one condition in cell 1 and its finalizers in cell 2; its copy is in the cells 3, 4 and 5.\<close>

definition demo_heap :: "metadata heap" where
  "demo_heap = \<lparr>cells = [0 \<mapsto> MapCell [(''team'', ''a''), (''env'', ''prod'')],
     1 \<mapsto> ConditionCell [\<lparr>co_Type = ''Ready'', co_Status = ''True'', co_Reason = [], co_Message = [],
        co_LastTransitionTime = \<lparr>wall = 0, mono = None\<rparr>, co_ObservedGeneration = 1\<rparr>],
     2 \<mapsto> StringsCell [Finalizer]], free = 3\<rparr>"

definition demo_memory :: "metadata MInstance" where
  "demo_memory = \<lparr>di_TypeMeta = (''SfsTurboInstance'', ''v1alpha1''), di_ObjectMeta = (None, Some 2),
     di_Spec = \<lparr>ds_values = demo_spec, ds_Tags = Some 0\<rparr>,
     di_Status = \<lparr>dt_values = demo_status, dt_Tags = None, dt_Conditions = Some 1\<rparr>\<rparr>"

text \<open>Overwriting the tags and the finalizers of the original leaves the copy's.\<close>

theorem deep_copy_is_separate_witness:
  "\<exists>y h'. Instance_DeepCopyObject demo_copies (Some demo_memory) demo_heap = (Some y, h')
     \<and> (let h2 = h'\<lparr>cells := (cells h')(0 \<mapsto> MapCell [], 2 \<mapsto> StringsCell [])\<rparr> in
       map_at h2 (ds_Tags (di_Spec y)) = [(''team'', ''a''), (''env'', ''prod'')]
       \<and> strings_at h2 (snd (di_ObjectMeta y)) = [Finalizer])"
proof -
  let ?x = demo_memory
  obtain y h' where c: "Instance_DeepCopyObject demo_copies (Some ?x) demo_heap = (Some y, h')"
    and refs: "instance_refs demo_copies h' y = {3, 4, 5}"
    by (auto simp: deep_copy_defs Instance_DeepCopyInto_def Spec_DeepCopyInto_def Status_DeepCopyInto_def copy_tags_def
        copy_conditions_def copy_strings_def both_def demo_copies_def alloc_def demo_memory_def demo_heap_def instance_refs_def
        spec_refs_def status_refs_def)
  let ?h2 = "h'\<lparr>cells := (cells h')(0 \<mapsto> MapCell [], 2 \<mapsto> StringsCell [])\<rparr>"
  have "wf_heap demo_heap" and "instance_refs demo_copies demo_heap ?x \<subseteq> {..<free demo_heap}"
    by (auto simp: demo_copies_def wf_heap_def wf_map_def demo_heap_def demo_memory_def
        instance_refs_def spec_refs_def status_refs_def split: if_splits)
  from deep_copy_is_separate [OF demo_copies_deep c this]
  have "instance_meaning demo_copies ?h2 y = instance_meaning demo_copies demo_heap ?x"
    using refs by auto
  then have "spec_meaning ?h2 (di_Spec y) = spec_meaning demo_heap (di_Spec ?x)"
    and "strings_at ?h2 (snd (di_ObjectMeta y)) = strings_at demo_heap (snd (di_ObjectMeta ?x))"
    by (simp_all add: instance_meaning_def demo_copies_def)
  moreover from this(1) have "map_at ?h2 (ds_Tags (di_Spec y)) = map_at demo_heap (ds_Tags (di_Spec ?x))"
    by (auto simp: spec_meaning_def dest: arg_cong [of _ _ sp_Tags])
  moreover have "map_at demo_heap (ds_Tags (di_Spec ?x)) = [(''team'', ''a''), (''env'', ''prod'')]"
    and "strings_at demo_heap (snd (di_ObjectMeta ?x)) = [Finalizer]"
    by (simp_all add: map_at_def strings_at_def demo_heap_def demo_memory_def)
  ultimately show ?thesis using c by (simp add: Let_def)
qed

end
