(* ===== verification/Schema.thy ===== *)
theory Schema
  imports Lifecycle
begin

text \<open>
  The schema of the status conditions (the markers on \<open>Conditions\<close> in
  api/v1alpha1/sfsturboinstance_types.go, as they appear in the generated
  config/crd/bases/sfs.huaweicloud.com_sfsturboinstances.yaml), and the invariant that what a pass
  writes back is valid by it.
\<close>

section \<open>The schema\<close>

definition is_lower :: "char \<Rightarrow> bool" where
  "is_lower c \<longleftrightarrow> 97 \<le> (of_char c :: nat) \<and> (of_char c :: nat) \<le> 122"

definition is_letter :: "char \<Rightarrow> bool" where
  "is_letter c \<longleftrightarrow> is_lower c \<or> 65 \<le> (of_char c :: nat) \<and> (of_char c :: nat) \<le> 90"

definition is_alnum :: "char \<Rightarrow> bool" where
  "is_alnum c \<longleftrightarrow> is_letter c \<or> is_digit c"

text \<open>\<open>first (inner* last)?\<close>: the shape that the patterns have.\<close>

definition shaped :: "(char \<Rightarrow> bool) \<Rightarrow> (char \<Rightarrow> bool) \<Rightarrow> (char \<Rightarrow> bool) \<Rightarrow> string \<Rightarrow> bool" where
  "shaped first inner final s = (case s of
     [] \<Rightarrow> False
   | c # t \<Rightarrow> first c \<and> (t = [] \<or> list_all inner (butlast t) \<and> final (last t)))"

definition reason_ok :: "string \<Rightarrow> bool" where
  "reason_ok s \<longleftrightarrow> length s \<le> 1024
     \<and> shaped is_letter (\<lambda>c. is_alnum c \<or> c \<in> {CHR ''_'', CHR '','', CHR '':''}) (\<lambda>c. is_alnum c \<or> c = CHR ''_'') s"

text \<open>The parts of a text between the separators.\<close>

fun split_on :: "char \<Rightarrow> string \<Rightarrow> string list" where
  "split_on x [] = [[]]"
| "split_on x (c # s) =
     (if c = x then [] # split_on x s
      else (case split_on x s of p # ps \<Rightarrow> (c # p) # ps | [] \<Rightarrow> [[c]]))"

definition label_ok :: "string \<Rightarrow> bool" where
  "label_ok = (let ok = (\<lambda>c. is_lower c \<or> is_digit c) in shaped ok (\<lambda>c. ok c \<or> c = CHR ''-'') ok)"

definition type_name_ok :: "string \<Rightarrow> bool" where
  "type_name_ok = shaped is_alnum (\<lambda>c. is_alnum c \<or> c \<in> {CHR ''-'', CHR ''_'', CHR ''.''}) is_alnum"

definition type_ok :: "string \<Rightarrow> bool" where
  "type_ok s \<longleftrightarrow> length s \<le> 316 \<and> (case split_on (CHR ''/'') s of
       [n] \<Rightarrow> type_name_ok n
     | [p, n] \<Rightarrow> list_all label_ok (split_on (CHR ''.'') p) \<and> type_name_ok n
     | _ \<Rightarrow> False)"

definition status_ok :: "string \<Rightarrow> bool" where
  "status_ok s \<longleftrightarrow> s \<in> {ConditionTrue, ConditionFalse, ''Unknown''}"

text \<open>
  One condition. The bound on the message is the one that the code does not see to: an error text of the API goes into it as it is.
  The schema counts characters, which are the bytes that do not continue another in UTF-8.
\<close>

definition characters :: "string \<Rightarrow> nat" where
  "characters s = length (filter (\<lambda>c. \<not> (0x80 \<le> (of_char c :: nat) \<and> (of_char c :: nat) \<le> 0xBF)) s)"

definition message_ok :: "string \<Rightarrow> bool" where
  "message_ok s \<longleftrightarrow> characters s \<le> 32768"

definition condition_ok :: "Condition \<Rightarrow> bool" where
  "condition_ok c \<longleftrightarrow> type_ok (co_Type c) \<and> status_ok (co_Status c) \<and> reason_ok (co_Reason c)
     \<and> 0 \<le> co_ObservedGeneration c \<and> message_ok (co_Message c)"

text \<open>The list is a map keyed by the type; a generation is not negative.\<close>

definition conditions_ok :: "SfsTurboInstance \<Rightarrow> bool" where
  "conditions_ok cr \<longleftrightarrow> wf_conditions cr \<and> list_all condition_ok (st_Conditions (cr_Status cr)) \<and> 0 \<le> cr_Generation cr"

text \<open>What the code does see to: the schema, as far as no message is too long.\<close>

definition ok_but_long :: "SfsTurboInstance \<Rightarrow> bool" where
  "ok_but_long cr \<longleftrightarrow> wf_conditions cr \<and> list_all (\<lambda>c. message_ok (co_Message c) \<longrightarrow> condition_ok c) (st_Conditions (cr_Status cr))
     \<and> 0 \<le> cr_Generation cr"

lemma conditions_ok_iff:
  "conditions_ok cr \<longleftrightarrow> ok_but_long cr \<and> (\<forall>c \<in> set (st_Conditions (cr_Status cr)). message_ok (co_Message c))"
  by (auto simp: conditions_ok_def ok_but_long_def list_all_iff condition_ok_def)

lemma types_ok: "type_ok ConditionReady" "type_ok ConditionProvisioning" "type_ok ConditionDeleting"
  "type_ok ConditionExpanding" "type_ok ConditionUpdatingSecurityGroup" "type_ok ConditionFailed"
  by (simp_all add: go_consts type_ok_def type_name_ok_def shaped_def is_alnum_def is_letter_def is_lower_def)

lemma statuses_ok: "status_ok ConditionTrue" "status_ok ConditionFalse"
  by (simp_all add: status_ok_def)

lemma reasons_ok: "reason_ok ReasonFsCreated" "reason_ok ReasonFsCreatePending" "reason_ok ReasonFsCreateFailed"
  "reason_ok ReasonFsDeletePending" "reason_ok ReasonFsDeleted" "reason_ok ReasonFsDeleteFailed"
  "reason_ok ReasonFsExpandPending" "reason_ok ReasonFsExpanded" "reason_ok ReasonShrinkRefused"
  "reason_ok ReasonReconcilePaused" "reason_ok ReasonHuaweiAPIError" "reason_ok ReasonRetainPolicyApplied"
  "reason_ok ReasonSgUpdatePending" "reason_ok ReasonSgUpdated" "reason_ok ReasonSgUpdateFailed"
  "reason_ok ReasonImmutableFieldChanged" "reason_ok ReasonTagsReconciled"
  by (simp_all add: go_consts reason_ok_def shaped_def is_alnum_def is_letter_def is_lower_def)

lemmas constants_ok = types_ok statuses_ok reasons_ok

abbreviation kept_ok :: "Condition \<Rightarrow> bool" where
  "kept_ok c \<equiv> message_ok (co_Message c) \<longrightarrow> condition_ok c"

lemma upsert_ok: "list_all kept_ok cs \<Longrightarrow> kept_ok n \<Longrightarrow> list_all kept_ok (upsertCondition n cs)"
  by (induction cs) (auto simp: condition_ok_def)

lemma ok_but_long_with:
  assumes "ok_but_long cr" and "type_ok t" "status_ok st" "reason_ok rs"
  shows "ok_but_long (with_condition n t st rs msg cr)"
proof -
  from assms have "list_all kept_ok (st_Conditions (cr_Status (with_condition n t st rs msg cr)))"
    unfolding with_condition_def by (simp add: ok_but_long_def) (rule upsert_ok, simp_all add: condition_ok_def)
  with assms(1) show ?thesis by (simp add: ok_but_long_def)
qed

lemma ok_but_long_fields [simp]:
  "ok_but_long (cr\<lparr>cr_Finalizers := fs\<rparr>) = ok_but_long cr"
  "ok_but_long (cr\<lparr>cr_Status := (cr_Status cr)\<lparr>st_FsId := i, st_ObservedGeneration := g\<rparr>\<rparr>) = ok_but_long cr"
  "ok_but_long (cr\<lparr>cr_Status := (cr_Status cr)\<lparr>st_FsId := i, st_ExportPath := p\<rparr>\<rparr>) = ok_but_long cr"
  "ok_but_long (cr\<lparr>cr_Status := (cr_Status cr)\<lparr>st_SecurityGroupId := g'\<rparr>\<rparr>) = ok_but_long cr"
  "ok_but_long (cr\<lparr>cr_Status := (cr_Status cr)\<lparr>st_Tags := ts\<rparr>\<rparr>) = ok_but_long cr"
  "ok_but_long (cr\<lparr>cr_Status := (cr_Status cr)\<lparr>st_ExportPath := p, st_Size := n, st_ObservedGeneration := g\<rparr>\<rparr>)
     = ok_but_long cr"
  by (simp_all add: ok_but_long_def wf_conditions_def)

section \<open>The invariant of a pass\<close>

text \<open>The object that a call writes to the server, and the objects the server answers with.\<close>

fun written_object :: "call \<Rightarrow> SfsTurboInstance option" where
  "written_object (CallUpdateCR x a) = Some x"
| "written_object (CallStatusUpdate x a) = Some x"
| "written_object _ = None"

fun answer_ok :: "call \<Rightarrow> bool" where
  "answer_ok (CallGetCR req (Inr x)) = conditions_ok x"
| "answer_ok (CallUpdateCR y (Inr x)) = conditions_ok x"
| "answer_ok (CallStatusUpdate y (Inr x)) = conditions_ok x"
| "answer_ok _ = True"

definition writes_ok :: "call list \<Rightarrow> bool" where
  "writes_ok cs \<longleftrightarrow> (\<forall>before c after x. cs = before @ c # after \<and> written_object c = Some x
     \<and> list_all answer_ok before \<longrightarrow> ok_but_long x)"


lemma writes_ok_snoc:
  "writes_ok (cs @ [c]) \<longleftrightarrow> writes_ok cs
     \<and> (\<forall>x. written_object c = Some x \<and> list_all answer_ok cs \<longrightarrow> ok_but_long x)"
proof -
  have snoc: "cs @ [c] = before @ d # after \<longleftrightarrow> (after = [] \<and> before = cs \<and> d = c)
      \<or> (\<exists>as. after = as @ [c] \<and> cs = before @ d # as)" for before d after
    by (cases after rule: rev_cases) auto
  show ?thesis unfolding writes_ok_def snoc by blast
qed

definition valid_pass :: "'w pass \<Rightarrow> bool" where
  "valid_pass s \<longleftrightarrow> writes_ok (calls s) \<and> (list_all answer_ok (calls s) \<longrightarrow> ok_but_long (sfsti s))"

lemma valid_update [maintains_rules]: "(\<And>x. ok_but_long x \<Longrightarrow> ok_but_long (f x)) \<Longrightarrow> maintains valid_pass (update_sfsti f)"
  by (simp add: maintains_def wp_rules valid_pass_def)

lemma valid_invoke [maintains_rules]:
  assumes "\<And>r. written_object (ev r) = None" and "\<And>r. answer_ok (ev r)"
  shows "maintains valid_pass (invoke op ev)"
  using assms by (simp add: maintains_def wp_rules valid_pass_def writes_ok_snoc)

lemma valid_setCondition [maintains_rules]:
  "type_ok t \<Longrightarrow> status_ok st \<Longrightarrow> reason_ok rs \<Longrightarrow> maintains valid_pass (setCondition R t st rs msg)"
  by (simp add: maintains_def wp_rules valid_pass_def ok_but_long_with)

text \<open>The two writes send the object behind the pointer and put the answer there.\<close>

lemma answer_fits [simp]:
  "answer_ok (CallStatusUpdate x r) \<Longrightarrow> r = Inr y \<Longrightarrow> ok_but_long y"
  "answer_ok (CallUpdateCR x r) \<Longrightarrow> r = Inr y \<Longrightarrow> ok_but_long y"
  "conditions_ok x \<Longrightarrow> ok_but_long x"
  by (auto simp: conditions_ok_iff)

lemma valid_patchStatus [maintains_rules]: "maintains valid_pass (patchStatus R)"
  by (auto simp: maintains_def wp_rules valid_pass_def writes_ok_snoc split: sum.split)

lemma valid_patch_then [maintains_rules]: "maintains valid_pass k \<Longrightarrow> maintains valid_pass (patch_then R k)"
  unfolding patch_then_def by (intro maintains_rules)

lemma valid_removeFinalizer [maintains_rules]: "maintains valid_pass (removeFinalizer R)"
  by (auto simp: maintains_def removeFinalizer_def wp_rules valid_pass_def writes_ok_snoc split: sum.split)

lemma valid_report_failure [maintains_rules]:
  "type_ok t \<Longrightarrow> status_ok st \<Longrightarrow> reason_ok rs \<Longrightarrow> maintains valid_pass (report_failure R t st rs e)"
  unfolding report_failure_def by (intro maintains_rules)

lemma valid_volumes [maintains_rules]: "maintains valid_pass (ensurePVPVC R)" "maintains valid_pass (cascadeDeletePVPVC R)"
  unfolding volume_defs Let_def by (intro maintains_rules; simp)+

lemma valid_add_missing [maintains_rules]: "maintains valid_pass (add_missing R desired live changed)"
  by (induction R desired live changed rule: add_missing.induct) (auto intro!: maintains_rules)

lemma valid_delete_extras [maintains_rules]: "maintains valid_pass (delete_extras R desired ks live changed)"
  by (induction R desired ks live changed rule: delete_extras.induct) (auto intro!: maintains_rules)

lemma valid_tags [maintains_rules]: "maintains valid_pass (reconcileTagsDrift R)"
  unfolding reconcileTagsDrift_def by (intro maintains_rules constants_ok; simp)

lemma valid_delete_share [maintains_rules]: "maintains valid_pass (delete_share R)"
  unfolding delete_share_def by (intro maintains_rules constants_ok; simp)

lemma valid_reconcileDelete [maintains_rules]: "maintains valid_pass (reconcileDelete R)"
  unfolding reconcileDelete_def delete_live_def by (intro maintains_rules constants_ok; simp)

lemma valid_reconcileCreate [maintains_rules]: "maintains valid_pass (reconcileCreate R)"
  unfolding reconcileCreate_def by (intro maintains_rules constants_ok; simp)

lemma valid_poll_parts [maintains_rules]:
  "maintains valid_pass (poll_record R info)" "maintains valid_pass (poll_resize R info)"
  "maintains valid_pass (poll_immutable R info)" "maintains valid_pass (poll_sg_drift R info)"
  "maintains valid_pass (poll_sg_settled R info)" "maintains valid_pass (poll_tags R info)"
  "maintains valid_pass (poll_finish R)" "maintains valid_pass (poll_missing R)"
  "maintains valid_pass (poll_errored R info)"
  unfolding poll_record_def poll_resize_def poll_grow_def poll_immutable_def poll_sg_drift_def poll_sg_settled_def
    poll_tags_def poll_finish_def poll_missing_def poll_errored_def
  by (intro maintains_rules constants_ok; simp)+

lemma valid_reconcilePoll [maintains_rules]: "maintains valid_pass (reconcilePoll R)"
  unfolding reconcilePoll_def poll_available_def poll_drift_def by (intro maintains_rules constants_ok; simp)

lemma valid_read [simp]:
  assumes "valid_pass s"
  shows "valid_pass (s\<lparr>world := w, calls := calls s @ [CallGetCR req (Inl e)]\<rparr>)"
    and "valid_pass (s\<lparr>world := w, calls := calls s @ [CallGetCR req (Inr cr)], sfsti := cr\<rparr>)"
    and "valid_pass (s\<lparr>world := w, calls := calls s @ [CallGetCR req (Inr cr)], sfsti := cr\<lparr>cr_Finalizers := fs\<rparr>\<rparr>)"
  using assms by (auto simp: valid_pass_def writes_ok_snoc)






end
