(* ===== verification/Passes.thy ===== *)
theory Passes
  imports Runs
begin

text \<open>
  Passes one after the other over a changing world, and the part of the world (a \<open>look\<close> at it) that most calls leave
  as it is.
\<close>

section \<open>Passes one after the other\<close>
primrec world_after :: "'w Reconciler \<Rightarrow> NamespacedName \<Rightarrow> 'w \<Rightarrow> nat \<Rightarrow> 'w" where
  "world_after R req w 0 = w"
| "world_after R req w (Suc n) = world_after R req (world (snd (pass R req w))) n"

definition outcome_of :: "'w Reconciler \<Rightarrow> NamespacedName \<Rightarrow> 'w \<Rightarrow> nat \<Rightarrow> outcome" where
  "outcome_of R req w n = fst (pass R req (world_after R req w n))"

definition asks_again :: "outcome \<Rightarrow> bool" where
  "asks_again r \<longleftrightarrow> snd r = None \<and> 0 < RequeueAfter (fst r)"

lemma pass_world:
  assumes "wp (reconcile_body R req) (\<lambda>r t. P r (world t)) (start w)"
  shows "P (fst (pass R req w)) (world (snd (pass R req w)))"
  using assms by (rule pass_body) auto

text \<open>After \<open>n\<close> passes that ask to be called again, all others find nothing to do and leave things good.\<close>

definition settled_at :: "'w Reconciler \<Rightarrow> NamespacedName \<Rightarrow> ('w \<Rightarrow> bool) \<Rightarrow> 'w \<Rightarrow> nat \<Rightarrow> bool" where
  "settled_at R req good w n \<longleftrightarrow> (\<forall>k<n. asks_again (outcome_of R req w k))
     \<and> (\<forall>m\<ge>n. outcome_of R req w m = (no_requeue, None) \<and> good (world_after R req w (Suc m)))"

lemma settled_later:
  assumes "asks_again (fst (pass R req w))" and "settled_at R req good (world (snd (pass R req w))) n"
  shows "settled_at R req good w (Suc n)"
  unfolding settled_at_def
proof (intro conjI allI impI)
  fix k assume "k < Suc n"
  then show "asks_again (outcome_of R req w k)"
    using assms by (cases k) (auto simp: settled_at_def outcome_of_def)
next
  fix m assume "Suc n \<le> m"
  then obtain m' where m: "m = Suc m'" "n \<le> m'" by (cases m) auto
  with assms(2) show "outcome_of R req w m = (no_requeue, None)" and "good (world_after R req w (Suc m))"
    by (simp_all add: settled_at_def outcome_of_def)
qed

lemma settled_now:
  assumes "\<And>w. I w \<Longrightarrow> fst (pass R req w) = (no_requeue, None) \<and> good (world (snd (pass R req w))) \<and> I (world (snd (pass R req w)))"
    and "I w"
  shows "settled_at R req good w 0"
proof -
  have "outcome_of R req w m = (no_requeue, None) \<and> good (world_after R req w (Suc m))" for m
    using assms(2)
  proof (induction m arbitrary: w)
    case 0
    with assms(1) [of w] show ?case by (simp add: outcome_of_def)
  next
    case (Suc m)
    from Suc.IH [of "world (snd (pass R req w))"] assms(1) [OF Suc.prems] show ?case by (simp add: outcome_of_def)
  qed
  then show ?thesis by (simp add: settled_at_def)
qed

lemma settled_countdown:
  assumes "\<And>n w. W (Suc n) w \<Longrightarrow> asks_again (fst (pass R req w)) \<and> W n (world (snd (pass R req w)))"
    and "\<And>w. W 0 w \<Longrightarrow> fst (pass R req w) = (no_requeue, None) \<and> good (world (snd (pass R req w))) \<and> W 0 (world (snd (pass R req w)))"
    and "W n w"
  shows "settled_at R req good w n"
  using assms(3)
proof (induction n arbitrary: w)
  case 0
  then show ?case by (intro settled_now [where I = "W 0"] assms(2))
next
  case (Suc n)
  with assms(1) [OF Suc.prems] show ?case by (intro settled_later) auto
qed

section \<open>What comes back from the API server\<close>

lemma stored_status_fields [simp]:
  "st_FsId (stored_status st) = st_FsId st" "st_ExportPath (stored_status st) = st_ExportPath st"
  "st_Size (stored_status st) = st_Size st" "st_ObservedGeneration (stored_status st) = st_ObservedGeneration st"
  by (simp_all add: stored_status_eq)

lemma condition_status_stored [simp]:
  "condition_status (cr\<lparr>cr_Status := stored_status (cr_Status x)\<rparr>) t = condition_status x t"
proof -
  have "map_option co_Status (condition (map (\<lambda>c. c\<lparr>co_LastTransitionTime := whole_second (co_LastTransitionTime c)\<rparr>) cs) t)
      = map_option co_Status (condition cs t)" for cs
    by (induction cs) simp_all
  then show ?thesis by (simp add: condition_status_def stored_status_eq)
qed

lemma hasConditionTrue_stored [simp]:
  "hasConditionTrue (cr\<lparr>cr_Status := stored_status (cr_Status x)\<rparr>) t = hasConditionTrue x t"
  by (auto simp: hasConditionTrue_def hasConditionTrue_in_iff stored_status_eq)

lemma stored_spec_fields [simp]:
  "sp_PausedReconcile (stored_spec sp) = sp_PausedReconcile sp" "sp_Tags (stored_spec sp) = sp_Tags sp"
  "sp_PvcSize (stored_spec sp) = sp_PvcSize sp" "sp_Size (stored_spec sp) = sp_Size sp"
  by (simp_all add: stored_spec_eq)

lemma pvc_size_stored [simp]: "pvc_size L (stored_spec sp) = pvc_size L sp"
  by (simp add: pvc_size_def)

section \<open>What calls leave as it is\<close>

text \<open>A call that does not change what is looked at and whose answer is good.\<close>

definition calm :: "('w \<Rightarrow> 'v) \<Rightarrow> ('a \<Rightarrow> bool) \<Rightarrow> ('w \<Rightarrow> 'a \<times> 'w) \<Rightarrow> bool" where
  "calm look good op \<longleftrightarrow> (\<forall>w r w'. op w = (r, w') \<longrightarrow> good r \<and> look w' = look w)"

lemma calmD: "calm look good op \<Longrightarrow> op w = (r, w') \<Longrightarrow> good r \<and> look w' = look w"
  by (simp add: calm_def)

definition untouched :: "('w \<Rightarrow> 'v) \<Rightarrow> 'v \<Rightarrow> 'w pass \<Rightarrow> bool" where
  "untouched look v s \<longleftrightarrow> look (world s) = v"

lemma untouched_fields [simp]:
  "untouched look v (s\<lparr>calls := cs\<rparr>) = untouched look v s" "untouched look v (s\<lparr>sfsti := x\<rparr>) = untouched look v s"
  "untouched look v (s\<lparr>world := w\<rparr>) \<longleftrightarrow> look w = v"
  by (simp_all add: untouched_def)

lemma untouched_invoke: "calm look good op \<Longrightarrow> maintains (untouched look v) (invoke op ev)"
  by (auto simp: maintains_def wp_rules untouched_def dest: calmD)

lemma untouched_update [maintains_rules]: "maintains (untouched look v) (update_sfsti f)"
  by (rule maintains_modify) simp

lemma untouched_setCondition [maintains_rules]:
  "calm look (\<lambda>_. True) (Now R) \<Longrightarrow> maintains (untouched look v) (setCondition R t st rs msg)"
  by (auto simp: maintains_def wp_rules untouched_def dest: calmD)

end
