(* ===== verification/Convergence.thy ===== *)
theory Convergence
  imports Passes
begin

text \<open>
  Many passes under an environment that works: the API server stores what is written, the Huawei API
  creates a file system that becomes available after some polls. Every pass before the file system is
  ready asks for another one; then the CR says so, and every later pass leaves it as it is.
\<close>

section \<open>An environment that works\<close>

text \<open>
  What of the world matters: the CR as the server has it; the file system, here its id with the number of polls
  that it still needs.
\<close>

record ('w, 'f) view =
  vw_cr :: "'w \<Rightarrow> SfsTurboInstance"
  vw_fs :: "'w \<Rightarrow> 'f option"

definition seen :: "('w, 'f) view \<Rightarrow> 'w \<Rightarrow> SfsTurboInstance \<times> 'f option" where
  "seen V w = (vw_cr V w, vw_fs V w)"

text \<open>
  The API server stores the object of an update and the status of a status update, each without
  the other part, in the form in which it comes back (\<open>stored_spec\<close>, \<open>stored_status\<close>), when the object is the one
  stored; of the write of another one nothing is asked. PVs and PVCs are
  found or not, and written.
\<close>

definition server_works :: "'w Reconciler \<Rightarrow> NamespacedName \<Rightarrow> ('w, 'f) view \<Rightarrow> bool" where
  "server_works R req V \<longleftrightarrow>
     (\<forall>w r w'. kGetCR (Client R) req w = (r, w') \<longrightarrow> r = Inr (vw_cr V w) \<and> seen V w' = seen V w)
   \<and> (\<forall>fs w r w'. kUpdateCR (Client R) ((vw_cr V w)\<lparr>cr_Finalizers := fs\<rparr>) w = (r, w') \<longrightarrow>
        r = Inr ((vw_cr V w)\<lparr>cr_Finalizers := fs, cr_Spec := stored_spec (cr_Spec (vw_cr V w))\<rparr>)
        \<and> Inr (vw_cr V w') = r \<and> vw_fs V w' = vw_fs V w)
   \<and> (\<forall>x w r w'. same_object x (vw_cr V w) \<longrightarrow> kStatusUpdate (Client R) x w = (r, w') \<longrightarrow>
        r = Inr ((vw_cr V w)\<lparr>cr_Status := stored_status (cr_Status x)\<rparr>) \<and> Inr (vw_cr V w') = r \<and> vw_fs V w' = vw_fs V w)
   \<and> (\<forall>n. calm (seen V) (\<lambda>r. \<forall>e. r = Inl e \<longrightarrow> IsNotFound (Lib R) e) (kGetPV (Client R) n))
   \<and> (\<forall>k. calm (seen V) (\<lambda>r. \<forall>e. r = Inl e \<longrightarrow> IsNotFound (Lib R) e) (kGetPVC (Client R) k))
   \<and> (\<forall>x. calm (seen V) (\<lambda>r. r = None) (kCreatePV (Client R) x)) \<and> (\<forall>x. calm (seen V) (\<lambda>r. r = None) (kUpdatePV (Client R) x))
   \<and> (\<forall>x. calm (seen V) (\<lambda>r. r = None) (kCreatePVC (Client R) x))
   \<and> calm (seen V) (\<lambda>_. True) (Now R)"

text \<open>A file system as the spec asks for it.\<close>

definition as_asked :: "SfsTurboInstanceSpec \<Rightarrow> ShareInfo \<Rightarrow> bool" where
  "as_asked sp info \<longleftrightarrow> si_Size info = sp_Size sp \<and> (sp_SecurityGroupId sp = [] \<or> si_SecurityGroupId info = sp_SecurityGroupId sp)
     \<and> si_ExportLocation info \<noteq> [] \<and> immutableDrift sp info = []"

text \<open>The tag calls do not matter for the rest, and may fail.\<close>

definition tag_calls_calm :: "'w Reconciler \<Rightarrow> ('w, 'f) view \<Rightarrow> bool" where
  "tag_calls_calm R V \<longleftrightarrow> (\<forall>i. calm (seen V) (\<lambda>_. True) (ListTags (Huawei R) i))
   \<and> (\<forall>i k v. calm (seen V) (\<lambda>_. True) (AddTag (Huawei R) i k v))
   \<and> (\<forall>i k. calm (seen V) (\<lambda>_. True) (DeleteTag (Huawei R) i k))"

text \<open>The id that the CR has, when it is not the one of the file system in view.\<close>

definition missing_id :: "('w, string \<times> nat) view \<Rightarrow> 'w \<Rightarrow> string \<Rightarrow> bool" where
  "missing_id V w j \<longleftrightarrow> j \<noteq> [] \<and> j = st_FsId (cr_Status (vw_cr V w)) \<and> (case vw_fs V w of None \<Rightarrow> True | Some (i, n) \<Rightarrow> i \<noteq> [] \<and> i \<noteq> j)"

lemma missing_same: "seen V u = seen V v \<Longrightarrow> missing_id V v j \<Longrightarrow> missing_id V u j"
  unfolding missing_id_def seen_def by auto

text \<open>
  The Huawei API: a creation makes a file system, or gives the id of the one that is there under the name; it is
  reported as neither available nor in error for some polls and then as available, as it was asked for. Another id in the CR is
  not found; of ids that are not in the CR nothing is asked, so there may be other file systems.
\<close>

definition api_works :: "'w Reconciler \<Rightarrow> ('w, string \<times> nat) view \<Rightarrow> bool" where
  "api_works R V \<longleftrightarrow>
     (\<forall>w r w'. vw_fs V w = None \<longrightarrow> Create (Huawei R) (create_input (cr_Spec (vw_cr V w))) w = (r, w') \<longrightarrow>
        (\<exists>i n. i \<noteq> [] \<and> r = Inr i \<and> vw_fs V w' = Some (i, n)) \<and> vw_cr V w' = vw_cr V w)
   \<and> (\<forall>i n w r w'. vw_fs V w = Some (i, n) \<longrightarrow> i \<noteq> [] \<longrightarrow>
        Create (Huawei R) (create_input (cr_Spec (vw_cr V w))) w = (r, w') \<longrightarrow> r = Inr i \<and> seen V w' = seen V w)
   \<and> (\<forall>i n w r w'. vw_fs V w = Some (i, n) \<longrightarrow> i \<noteq> [] \<longrightarrow> Get (Huawei R) i w = (r, w') \<longrightarrow> vw_cr V w' = vw_cr V w
        \<and> vw_fs V w' = Some (i, n - 1)
        \<and> (\<exists>info. r = Inr info \<and> IsAvailable (si_Status info) = (n = 0) \<and> \<not> IsErrored (si_Status info)
             \<and> (n = 0 \<longrightarrow> as_asked (cr_Spec (vw_cr V w)) info)))
   \<and> (\<forall>j w r w'. missing_id V w j \<longrightarrow> Get (Huawei R) j w = (r, w') \<longrightarrow>
        (\<exists>e. r = Inl e \<and> is_ErrFsNotFound e) \<and> seen V w' = seen V w)
   \<and> tag_calls_calm R V"

text \<open>The wish behind the CR, which no pass changes.\<close>

definition wanted :: "Library \<Rightarrow> SfsTurboInstance \<Rightarrow> bool" where
  "wanted L cr \<longleftrightarrow> \<not> deleting cr \<and> \<not> sp_PausedReconcile (cr_Spec cr) \<and> wf_map (sp_Tags (cr_Spec cr))
     \<and> (\<exists>q. ParseQuantity L (pvc_size L (cr_Spec cr)) = Inr q)"

definition ready :: "('w, string \<times> nat) view \<Rightarrow> 'w \<Rightarrow> bool" where
  "ready V w \<longleftrightarrow> (\<exists>i. vw_fs V w = Some (i, 0) \<and> st_FsId (cr_Status (vw_cr V w)) = i)
     \<and> st_ExportPath (cr_Status (vw_cr V w)) \<noteq> []
     \<and> st_ObservedGeneration (cr_Status (vw_cr V w)) = cr_Generation (vw_cr V w)
     \<and> condition_status (vw_cr V w) ConditionReady = Some ConditionTrue
     \<and> condition_status (vw_cr V w) ConditionProvisioning = Some ConditionFalse"

section \<open>What the passes do\<close>

text \<open>The parts of the last pass: nothing but its status write changes the view.\<close>

lemma maintains_add_missing:
  assumes "\<And>j k v ev. maintains I (invoke (AddTag (Huawei R) j k v) ev)"
  shows "maintains I (add_missing R desired live changed)"
proof (induction desired arbitrary: live changed)
  case (Cons kv desired)
  with assms show ?case by (cases kv) (auto intro!: maintains_rules)
qed (simp add: maintains_return)

lemma maintains_delete_extras:
  assumes "\<And>j k ev. maintains I (invoke (DeleteTag (Huawei R) j k) ev)"
  shows "maintains I (delete_extras R desired ks live changed)"
proof (induction ks arbitrary: live changed)
  case (Cons k ks)
  with assms show ?case by (auto intro!: maintains_rules)
qed (simp add: maintains_return)

text \<open>An invariant that the tag calls, the two conditions and the recorded tags keep is kept by the tag part.\<close>

lemma maintains_poll_tags:
  assumes "tag_calls_calm R V"
    and "\<And>op ev. calm (seen V) (\<lambda>_. True) (op :: 'w \<Rightarrow> (err + gomap) \<times> 'w) \<Longrightarrow> maintains I (invoke op ev)"
    and "\<And>op ev. calm (seen V) (\<lambda>_. True) (op :: 'w \<Rightarrow> err option \<times> 'w) \<Longrightarrow> maintains I (invoke op ev)"
    and "\<And>t st rs msg. t = ConditionReady \<or> t = ConditionFailed \<Longrightarrow> maintains I (setCondition R t st rs msg)"
    and "\<And>m. maintains I (set_status (\<lambda>st. st\<lparr>st_Tags := m\<rparr>))"
  shows "maintains I (poll_tags R info)"
proof -
  have calls: "maintains I (invoke (ListTags (Huawei R) j) f)" "maintains I (invoke (AddTag (Huawei R) j k v) g)"
    "maintains I (invoke (DeleteTag (Huawei R) j k) g)" for j k v f g
    using assms(1) by (auto simp: tag_calls_calm_def intro: assms(2,3))
  show ?thesis
    unfolding poll_tags_def reconcileTagsDrift_def
    by (intro maintains_rules maintains_add_missing maintains_delete_extras calls assms(4,5); simp add: go_consts)
qed

lemma server_clock: "server_works R req V \<Longrightarrow> calm (seen V) (\<lambda>_. True) (Now R)"
  by (simp add: server_works_def)

lemma untouched_tags:
  assumes "tag_calls_calm R V" and "server_works R req V"
  shows "maintains (untouched (seen V) (cr, i)) (poll_tags R info)"
  by (rule maintains_poll_tags [OF assms(1)])
    (intro untouched_invoke maintains_rules server_clock [OF assms(2)]; assumption)+

lemma untouched_parts [maintains_rules]:
  assumes "calm (seen V) (\<lambda>_. True) (Now R)"
  shows "maintains (untouched (seen V) (cr, i)) (poll_record R info)" "maintains (untouched (seen V) (cr, i)) (poll_immutable R info)"
    "maintains (untouched (seen V) (cr, i)) (poll_sg_settled R info)"
  unfolding poll_record_def poll_immutable_def poll_sg_settled_def by (intro maintains_rules assms)+

text \<open>\<open>ensurePVPVC\<close> succeeds when the status is populated, and changes nothing of the view.\<close>

lemma server_volumes:
  assumes "server_works R req V"
  shows "\<And>n w r w'. kGetPV (Client R) n w = (r, w') \<Longrightarrow> (\<forall>e. r = Inl e \<longrightarrow> IsNotFound (Lib R) e) \<and> seen V w' = seen V w"
    and "\<And>n w r w'. kGetPVC (Client R) n w = (r, w') \<Longrightarrow> (\<forall>e. r = Inl e \<longrightarrow> IsNotFound (Lib R) e) \<and> seen V w' = seen V w"
    and "\<And>x w r w'. kCreatePV (Client R) x w = (r, w') \<Longrightarrow> r = None \<and> seen V w' = seen V w"
    and "\<And>x w r w'. kUpdatePV (Client R) x w = (r, w') \<Longrightarrow> r = None \<and> seen V w' = seen V w"
    and "\<And>x w r w'. kCreatePVC (Client R) x w = (r, w') \<Longrightarrow> r = None \<and> seen V w' = seen V w"
  using assms unfolding server_works_def by (blast dest: calmD)+

lemma ensure_works:
  assumes server: "server_works R req V"
    and "st_FsId (status_of s) \<noteq> []" and "st_ExportPath (status_of s) \<noteq> []"
    and "ParseQuantity (Lib R) (pvc_size (Lib R) (spec_of s)) = Inr q"
    and J: "untouched (seen V) (cr, i) s"
  shows "wp (ensurePVPVC R) (\<lambda>r t. r = None \<and> untouched (seen V) (cr, i) t) s"
proof -
  have pvc: "wp (ensurePVC R sc q) (\<lambda>r t. r = None \<and> untouched (seen V) (cr, i) t) t" if "untouched (seen V) (cr, i) t" for sc t
    using that unfolding ensurePVC_def
    by (auto simp: wp_rules untouched_def seen_def split: sum.split dest!: server_volumes [OF server])
  have pv: "wp (ensurePV R sc q) (\<lambda>r t. r = None \<and> untouched (seen V) (cr, i) t) t" if "untouched (seen V) (cr, i) t" for sc t
    using that unfolding ensurePV_def
    by (auto simp: wp_rules untouched_def seen_def split: sum.split dest!: server_volumes [OF server])
  show ?thesis
    using assms(2-4) J unfolding ensurePVPVC_def
    by (auto simp: wp_rules intro!: wp_mono [OF pv] pvc)
qed

lemma server_status:
  "server_works R req V \<Longrightarrow> kStatusUpdate (Client R) x w = (r, w') \<Longrightarrow> same_object x (vw_cr V w) \<Longrightarrow>
     r = Inr ((vw_cr V w)\<lparr>cr_Status := stored_status (cr_Status x)\<rparr>)
     \<and> vw_cr V w' = (vw_cr V w)\<lparr>cr_Status := stored_status (cr_Status x)\<rparr> \<and> vw_fs V w' = vw_fs V w"
  unfolding server_works_def by (metis sum.inject(2))

lemma finish_works:
  assumes server: "server_works R req V" and rec: "recorded R f cr info (sfsti s)" and J: "untouched (seen V) (cr, i) s"
    and "st_FsId (cr_Status cr) \<noteq> []" and "si_ExportLocation info \<noteq> []"
    and "ParseQuantity (Lib R) (pvc_size (Lib R) (cr_Spec cr)) = Inr q"
  shows "wp (poll_finish R) (\<lambda>r t. r = (no_requeue, None)
    \<and> untouched (seen V) (cr\<lparr>cr_Status := stored_status (cr_Status (sfsti s))\<rparr>, i) t) s"
proof -
  let ?cr = "cr\<lparr>cr_Status := stored_status (cr_Status (sfsti s))\<rparr>"
  have "wp (ensurePVPVC R) (\<lambda>r t. r = None \<and> untouched (seen V) (?cr, i) t) t"
    if "sfsti t = ?cr" and "untouched (seen V) (?cr, i) t" for t
    by (rule ensure_works [OF server _ _ _ that(2)]) (use that(1) assms in \<open>simp_all add: recorded_def\<close>)
  note ensure = this
  obtain a w where k: "kStatusUpdate (Client R) (sfsti s) (world s) = (a, w)" by fastforce
  have a: "a = Inr ?cr" and w: "vw_cr V w = ?cr" "vw_fs V w = i"
    using server_status [OF server k] rec J by (simp_all add: untouched_def seen_def recorded_def)
  show ?thesis
    unfolding poll_finish_def patch_then_def
    by (simp add: wp_bind wp_patchStatus k a wp_return)
      (rule wp_mono [OF ensure], simp_all add: untouched_def seen_def w wp_return)
qed

text \<open>The end of the last pass, for a file system that is as the spec asks.\<close>

definition finished :: "'w Reconciler \<Rightarrow> ('w, 'f) view \<Rightarrow> SfsTurboInstance \<Rightarrow> 'f option \<Rightarrow> ShareInfo \<Rightarrow> outcome \<Rightarrow> 'w pass \<Rightarrow> bool" where
  "finished R V cr i info r t \<longleftrightarrow> r = (no_requeue, None)
     \<and> (\<exists>f x. recorded R f cr info x \<and> untouched (seen V) (cr\<lparr>cr_Status := stored_status (cr_Status x)\<rparr>, i) t)"

lemma drift_works:
  fixes R :: "'w Reconciler"
  assumes server: "server_works R req V" and calm: "tag_calls_calm R V"
    and un: "unwritten R f cr info s" and J: "untouched (seen V) (cr, i) s"
    and id: "st_FsId (cr_Status cr) \<noteq> []" and asked: "as_asked (cr_Spec cr) info" and want: "wanted (Lib R) cr"
  shows "wp (poll_drift R info) (finished R V cr i info) s"
proof -
  note clock = server_clock [OF server]
  obtain q where q: "ParseQuantity (Lib R) (pvc_size (Lib R) (cr_Spec cr)) = Inr q" and wf: "wf_map (sp_Tags (cr_Spec cr))"
    using want by (auto simp: wanted_def)
  have ex: "si_ExportLocation info \<noteq> []" using asked by (simp add: as_asked_def)
  have finish: "wp (poll_finish R) (finished R V cr i info) t"
    if "recorded R g cr info (sfsti t)" and "untouched (seen V) (cr, i) t" for g t
    by (rule wp_mono [OF finish_works [OF server that id ex q]]) (use that(1) in \<open>auto simp: finished_def\<close>)
  have tags: "wp (poll_tags R info) (\<lambda>_. wp (poll_finish R) (finished R V cr i info)) t"
    if "unwritten R g cr info t" and "untouched (seen V) (cr, i) t" for g t
    by (rule wp_mono [OF wp_maintains [OF wp_poll_tags_written [OF that(1) wf] untouched_tags [OF calm server] that(2)]])
      (auto intro: finish)
  have settle: "wp (poll_sg_settled R info) (\<lambda>_. wp (poll_tags R info) (\<lambda>_. wp (poll_finish R) (finished R V cr i info))) t"
    if "unwritten R g cr info t" and "untouched (seen V) (cr, i) t" for g t
    by (rule wp_mono [OF wp_maintains [OF wp_poll_sg_settled_written [OF that(1)] untouched_parts(3) [OF clock] that(2)]])
      (auto intro: tags)
  show ?thesis
    unfolding poll_drift_def wp_bind
    by (rule wp_mono [OF wp_maintains [OF wp_poll_immutable_written [OF un] untouched_parts(2) [OF clock] J]])
      (use asked in \<open>auto simp: wp_gets wp_if wp_bind as_asked_def dest: unwritten_spec intro: settle\<close>)
qed

lemma available_works:
  fixes R :: "'w Reconciler"
  assumes server: "server_works R req V" and calm: "tag_calls_calm R V"
    and s: "sfsti s = cr" "status_writes (calls s) = []" and J: "untouched (seen V) (cr, i) s"
    and id: "st_FsId (cr_Status cr) \<noteq> []" and asked: "as_asked (cr_Spec cr) info" and want: "wanted (Lib R) cr"
  shows "wp (poll_available R info) (finished R V cr i info) s"
proof -
  note clock = server_clock [OF server]
  have resize: "wp (poll_resize R info) (\<lambda>r t. r = None \<and> unwritten R False cr info t \<and> untouched (seen V) (cr, i) t) t"
    if un: "unwritten R False cr info t" and J: "untouched (seen V) (cr, i) t" for t
  proof -
    have "spec_of t = cr_Spec cr" "sp_Size (cr_Spec cr) = si_Size info"
      using un asked by (simp_all add: unwritten_def recorded_def as_asked_def)
    then show ?thesis using un J
      by (auto simp: poll_resize_def wp_rules unwritten_def untouched_def seen_def intro!: recorded_with_other
          dest: calmD [OF clock])
  qed
  show ?thesis
    unfolding poll_available_def wp_bind
    by (rule wp_mono [OF wp_maintains [OF wp_poll_record_unwritten [OF s] untouched_parts(1) [OF clock] J]])
      (auto intro!: wp_mono [OF resize] intro: drift_works [OF server calm _ _ id asked want])
qed

section \<open>The passes\<close>

lemma server_read:
  assumes "server_works R req V"
  obtains w1 where "kGetCR (Client R) req w = (Inr (vw_cr V w), w1)" "seen V w1 = seen V w"
proof -
  obtain r w1 where "kGetCR (Client R) req w = (r, w1)" by fastforce
  moreover have "r = Inr (vw_cr V w) \<and> seen V w1 = seen V w"
    using assms calculation unfolding server_works_def by blast
  ultimately show ?thesis using that by blast
qed

lemma api_get:
  assumes "api_works R V" and "vw_fs V w = Some (i, n)" and "i \<noteq> []"
  obtains info w1 where "Get (Huawei R) i w = (Inr info, w1)" "vw_cr V w1 = vw_cr V w" "vw_fs V w1 = Some (i, n - 1)"
    "IsAvailable (si_Status info) \<longleftrightarrow> n = 0" "\<not> IsErrored (si_Status info)" "n = 0 \<Longrightarrow> as_asked (cr_Spec (vw_cr V w)) info"
proof -
  obtain r w1 where g: "Get (Huawei R) i w = (r, w1)" by fastforce
  from assms(1) [unfolded api_works_def, THEN conjunct2, THEN conjunct2, THEN conjunct1, rule_format, OF assms(2,3) g]
  show ?thesis using g that by auto
qed

lemma api_calm: "api_works R V \<Longrightarrow> tag_calls_calm R V"
  by (simp add: api_works_def)

text \<open>A CR that the operator works on: wanted, protected, with this file system recorded.\<close>

definition tracking :: "Library \<Rightarrow> SfsTurboInstance \<Rightarrow> string \<Rightarrow> bool" where
  "tracking L cr i \<longleftrightarrow> wanted L cr \<and> protected L cr \<and> st_FsId (cr_Status cr) = i"

lemma wanted_status [simp]: "wanted L (cr\<lparr>cr_Status := st\<rparr>) = wanted L cr" "protected L (cr\<lparr>cr_Status := st\<rparr>) = protected L cr"
  by (simp_all add: wanted_def protected_def deleting_def)

lemma tracking_status: "tracking L (cr\<lparr>cr_Status := st\<rparr>) i \<longleftrightarrow> wanted L cr \<and> protected L cr \<and> st_FsId st = i"
  by (simp add: tracking_def)

lemmas pass_branch = reconcile_body_def reconcilePoll_def reconcileCreate_def wp_rules tracking_def wanted_def deleting_def protected_def

lemma last_pass:
  assumes server: "server_works R req V" and api: "api_works R V" and fs: "vw_fs V w = Some (i, 0)" "i \<noteq> []"
    and tr: "tracking (Lib R) (vw_cr V w) i"
  shows "fst (pass R req w) = (no_requeue, None) \<and> ready V (world (snd (pass R req w)))
    \<and> tracking (Lib R) (vw_cr V (world (snd (pass R req w)))) i"
proof -
  let ?cr = "vw_cr V w"
  obtain w1 where k: "kGetCR (Client R) req w = (Inr ?cr, w1)" and w1: "vw_cr V w1 = ?cr" "vw_fs V w1 = Some (i, 0)"
    using server_read [OF server, of w] fs(1) by (auto simp: seen_def)
  obtain info w2 where g: "Get (Huawei R) i w1 = (Inr info, w2)" and w2: "vw_cr V w2 = ?cr" "vw_fs V w2 = Some (i, 0)"
    and info: "IsAvailable (si_Status info)" "as_asked (cr_Spec ?cr) info"
    by (rule api_get [OF api w1(2) fs(2)]) (rule that, simp_all add: w1(1))
  have want: "wanted (Lib R) ?cr" and id: "st_FsId (cr_Status ?cr) = i" using tr by (simp_all add: tracking_def)
  have avail: "wp (poll_available R info) (finished R V ?cr (Some (i, 0)) info) t"
    if "sfsti t = ?cr" "status_writes (calls t) = []" "world t = w2" for t
    by (rule available_works [OF server api_calm [OF api] that(1,2) _ _ info(2) want]) (simp_all add: untouched_def seen_def that(3) w2 id fs(2))
  have "wp (reconcile_body R req) (finished R V ?cr (Some (i, 0)) info) (start w)"
    using tr fs(2) by (auto simp: pass_branch k g info(1) id intro!: avail)
  then have "wp (reconcile_body R req) (\<lambda>r t. r = (no_requeue, None) \<and> ready V (world t)
      \<and> tracking (Lib R) (vw_cr V (world t)) i) (start w)"
    using tr info(2) by (elim wp_mono)
      (auto simp: finished_def untouched_def seen_def ready_def recorded_def tracking_status as_asked_def tracking_def)
  then show ?thesis by (rule pass_world)
qed

lemma waiting_pass:
  assumes server: "server_works R req V" and api: "api_works R V" and fs: "vw_fs V w = Some (i, Suc n)" "i \<noteq> []"
    and tr: "tracking (Lib R) (vw_cr V w) i"
  shows "asks_again (fst (pass R req w)) \<and> vw_fs V (world (snd (pass R req w))) = Some (i, n)
    \<and> vw_cr V (world (snd (pass R req w))) = vw_cr V w"
proof -
  let ?cr = "vw_cr V w"
  obtain w1 where k: "kGetCR (Client R) req w = (Inr ?cr, w1)" and w1: "vw_cr V w1 = ?cr" "vw_fs V w1 = Some (i, Suc n)"
    using server_read [OF server, of w] fs(1) by (auto simp: seen_def)
  obtain info w2 where "Get (Huawei R) i w1 = (Inr info, w2)" "vw_cr V w2 = ?cr" "vw_fs V w2 = Some (i, n)"
    "\<not> IsAvailable (si_Status info)" "\<not> IsErrored (si_Status info)"
    using api_get [OF api w1(2) fs(2)] w1(1) by auto
  then have "wp (reconcile_body R req) (\<lambda>r t. asks_again r \<and> vw_fs V (world t) = Some (i, n) \<and> vw_cr V (world t) = ?cr) (start w)"
    using tr fs(2) by (auto simp: pass_branch k asks_again_def requeueProvisioning_def second_def)
  then show ?thesis by (rule pass_world)
qed

lemma api_create:
  assumes "api_works R V" and "\<And>n. vw_fs V w \<noteq> Some ([], n)"
  obtains i n w1 where "Create (Huawei R) (create_input (cr_Spec (vw_cr V w))) w = (Inr i, w1)" "i \<noteq> []"
    "vw_fs V w1 = Some (i, n)" "vw_cr V w1 = vw_cr V w"
proof -
  obtain r w1 where c: "Create (Huawei R) (create_input (cr_Spec (vw_cr V w))) w = (r, w1)" by fastforce
  show ?thesis
  proof (cases "vw_fs V w")
    case None
    from assms(1) [unfolded api_works_def, THEN conjunct1, rule_format, OF None c] c that show ?thesis by blast
  next
    case (Some fs)
    then obtain i n where fs: "vw_fs V w = Some (i, n)" "i \<noteq> []" using assms(2) by (cases fs) auto
    from assms(1) [unfolded api_works_def, THEN conjunct2, THEN conjunct1, rule_format, OF fs c] c fs that
    show ?thesis by (auto simp: seen_def)
  qed
qed

lemma creating_pass:
  assumes server: "server_works R req V" and api: "api_works R V" and fs: "\<And>n. vw_fs V w \<noteq> Some ([], n)"
    and tr: "tracking (Lib R) (vw_cr V w) []"
  shows "asks_again (fst (pass R req w)) \<and> (\<exists>i n. i \<noteq> [] \<and> vw_fs V (world (snd (pass R req w))) = Some (i, n)
    \<and> tracking (Lib R) (vw_cr V (world (snd (pass R req w)))) i)"
proof -
  let ?cr = "vw_cr V w"
  obtain w1 where k: "kGetCR (Client R) req w = (Inr ?cr, w1)" and w1: "vw_cr V w1 = ?cr" "vw_fs V w1 = vw_fs V w"
    using server_read [OF server, of w] by (auto simp: seen_def)
  have "\<And>n. vw_fs V w1 \<noteq> Some ([], n)" using fs w1(2) by simp
  then obtain i n w2 where c: "Create (Huawei R) (create_input (cr_Spec ?cr)) w1 = (Inr i, w2)"
    and w2: "i \<noteq> []" "vw_fs V w2 = Some (i, n)" "vw_cr V w2 = ?cr"
    by (rule api_create [OF api, of w1]) (use w1 in auto)
  let ?after = "\<lambda>t. untouched (seen V) (?cr, Some (i, n)) t \<and> st_FsId (status_of t) = i \<and> same_object (sfsti t) ?cr"
  have cond: "maintains ?after (setCondition R t st rs msg)" for t st rs msg
    using server_clock [OF server] by (auto simp: maintains_def wp_rules untouched_def seen_def dest: calmD)
  have "wp (patch_then R (State_Monad.return (\<lparr>RequeueAfter = requeueProvisioning\<rparr>, None))) (\<lambda>r t. asks_again r
      \<and> vw_fs V (world t) = Some (i, n) \<and> tracking (Lib R) (vw_cr V (world t)) i) t" if "?after t" for t
  proof -
    obtain a v where u: "kStatusUpdate (Client R) (sfsti t) (world t) = (a, v)" by fastforce
    show ?thesis
      using server_status [OF server u] that tr
      by (simp add: wp_patch_then_return u after_patch_def untouched_def seen_def tracking_status asks_again_def
          requeueProvisioning_def second_def) (simp add: tracking_def)
  qed
  then have tail: "wp (setCondition R t1 st1 rs1 m1) (\<lambda>_. wp (setCondition R t2 st2 rs2 m2) (\<lambda>_.
      wp (patch_then R (State_Monad.return (\<lparr>RequeueAfter = requeueProvisioning\<rparr>, None))) (\<lambda>r t. asks_again r
      \<and> vw_fs V (world t) = Some (i, n) \<and> tracking (Lib R) (vw_cr V (world t)) i))) t"
    if "?after t" for t t1 st1 rs1 m1 t2 st2 rs2 m2
    by (intro wp_mono [OF maintainsD [OF cond that]] wp_mono [OF maintainsD [OF cond]])
  have "wp (reconcile_body R req) (\<lambda>r t. asks_again r \<and> vw_fs V (world t) = Some (i, n)
      \<and> tracking (Lib R) (vw_cr V (world t)) i) (start w)"
    using tr w2 c k unfolding reconcile_body_def reconcileCreate_def
    by (simp add: wp_bind wp_invoke_eq wp_case_sum wp_modify wp_if wp_gets tracking_def [of _ ?cr] wanted_def deleting_def protected_def)
      (rule tail, simp add: untouched_def seen_def)
  then have "asks_again (fst (pass R req w)) \<and> vw_fs V (world (snd (pass R req w))) = Some (i, n)
      \<and> tracking (Lib R) (vw_cr V (world (snd (pass R req w)))) i"
    by (rule pass_world)
  with w2(1) show ?thesis by blast
qed

text \<open>An id that the API does not know is given up.\<close>

lemma forgetting_pass:
  assumes server: "server_works R req V" and api: "api_works R V" and tr: "tracking (Lib R) (vw_cr V w) j" and j: "missing_id V w j"
  shows "asks_again (fst (pass R req w)) \<and> vw_fs V (world (snd (pass R req w))) = vw_fs V w
    \<and> tracking (Lib R) (vw_cr V (world (snd (pass R req w)))) []"
proof -
  let ?cr = "vw_cr V w" and ?Q = "\<lambda>r t. asks_again r \<and> vw_fs V (world t) = vw_fs V w \<and> tracking (Lib R) (vw_cr V (world t)) []"
  obtain w1 where k: "kGetCR (Client R) req w = (Inr ?cr, w1)" and w1: "seen V w1 = seen V w"
    by (rule server_read [OF server, of w])
  obtain r w2 where g: "Get (Huawei R) j w1 = (r, w2)" by fastforce
  have "missing_id V w1 j" by (rule missing_same [OF w1 j])
  from api [unfolded api_works_def, THEN conjunct2, THEN conjunct2, THEN conjunct2, THEN conjunct1, rule_format, OF this g] w1
  obtain e where e: "r = Inl e" "is_ErrFsNotFound e" and w2: "vw_cr V w2 = ?cr" "vw_fs V w2 = vw_fs V w" by (auto simp: seen_def)
  have patch: "wp (patchStatus R) (\<lambda>x t. ?Q (\<lparr>RequeueAfter = 1\<rparr>, x) t) t"
    if "vw_cr V (world t) = ?cr" "vw_fs V (world t) = vw_fs V w" "st_FsId (status_of t) = []" "same_object (sfsti t) ?cr" for t
  proof -
    obtain a v where u: "kStatusUpdate (Client R) (sfsti t) (world t) = (a, v)" by fastforce
    show ?thesis
      using server_status [OF server u] that tr
      by (simp add: wp_patchStatus u tracking_status asks_again_def) (simp add: tracking_def)
  qed
  have cond: "wp (setCondition R ty st rs msg) (\<lambda>_. wp (patchStatus R) (\<lambda>x t. ?Q (\<lparr>RequeueAfter = 1\<rparr>, x) t)) t"
    if "vw_cr V (world t) = ?cr" "vw_fs V (world t) = vw_fs V w" "st_FsId (status_of t) = []" "same_object (sfsti t) ?cr" for t ty st rs msg
    using that by (auto simp: wp_setCondition seen_def intro!: patch dest!: calmD [OF server_clock [OF server]])
  have "j \<noteq> []" using j unfolding missing_id_def by blast
  then have "wp (reconcile_body R req) ?Q (start w)"
    using tr e w2 unfolding reconcile_body_def reconcilePoll_def poll_missing_def
    by (simp add: wp_bind wp_invoke_eq wp_case_sum wp_modify wp_if wp_gets wp_return k g tracking_def [of _ ?cr] wanted_def
        deleting_def protected_def) (rule cond, simp_all)
  then show ?thesis by (rule pass_world)
qed

lemma protecting_pass:
  assumes server: "server_works R req V" and laws: "finalizer_laws (Lib R)"
    and want: "wanted (Lib R) (vw_cr V w)" and "\<not> protected (Lib R) (vw_cr V w)"
  shows "asks_again (fst (pass R req w)) \<and> vw_fs V (world (snd (pass R req w))) = vw_fs V w
    \<and> tracking (Lib R) (vw_cr V (world (snd (pass R req w)))) (st_FsId (cr_Status (vw_cr V w)))"
proof -
  let ?cr = "vw_cr V w"
  let ?fs = "AddFinalizer (Lib R) (cr_Finalizers ?cr) Finalizer"
  obtain w1 where k: "kGetCR (Client R) req w = (Inr ?cr, w1)" and w1: "vw_cr V w1 = ?cr" "vw_fs V w1 = vw_fs V w"
    using server_read [OF server, of w] by (auto simp: seen_def)
  obtain r w2 where u: "kUpdateCR (Client R) (?cr\<lparr>cr_Finalizers := ?fs\<rparr>) w1 = (r, w2)" by fastforce
  have w2: "r = Inr (?cr\<lparr>cr_Finalizers := ?fs, cr_Spec := stored_spec (cr_Spec ?cr)\<rparr>)"
    "Inr (vw_cr V w2) = r" "vw_fs V w2 = vw_fs V w"
    using server [unfolded server_works_def, THEN conjunct2, THEN conjunct1, rule_format, of ?fs w1 r w2] u w1 by auto
  have "wanted (Lib R) (?cr\<lparr>cr_Finalizers := ?fs, cr_Spec := stored_spec (cr_Spec ?cr)\<rparr>)"
    using want by (simp add: wanted_def deleting_def)
  moreover have "protected (Lib R) (?cr\<lparr>cr_Finalizers := ?fs, cr_Spec := stored_spec (cr_Spec ?cr)\<rparr>)"
    using laws by (simp add: protected_def finalizer_laws_def)
  ultimately have "wp (reconcile_body R req) (\<lambda>r t. asks_again r \<and> vw_fs V (world t) = vw_fs V w
      \<and> tracking (Lib R) (vw_cr V (world t)) (st_FsId (cr_Status ?cr))) (start w)"
    using assms(3,4) u w2 by (auto simp: reconcile_body_def wp_rules k asks_again_def tracking_def)
      (auto simp: wanted_def deleting_def protected_def)
  then show ?thesis by (rule pass_world)
qed

section \<open>The file system becomes ready\<close>

lemma settled_after_polls:
  assumes server: "server_works R req V" and api: "api_works R V" and "i \<noteq> []"
    and "vw_fs V w = Some (i, n)" and "tracking (Lib R) (vw_cr V w) i"
  shows "settled_at R req (ready V) w n"
proof (rule settled_countdown [where W = "\<lambda>n w. vw_fs V w = Some (i, n) \<and> tracking (Lib R) (vw_cr V w) i"])
  fix n w
  assume "vw_fs V w = Some (i, Suc n) \<and> tracking (Lib R) (vw_cr V w) i"
  with waiting_pass [OF server api _ assms(3)]
  show "asks_again (fst (pass R req w)) \<and> vw_fs V (world (snd (pass R req w))) = Some (i, n)
      \<and> tracking (Lib R) (vw_cr V (world (snd (pass R req w)))) i" by fastforce
next
  fix w
  assume w: "vw_fs V w = Some (i, 0) \<and> tracking (Lib R) (vw_cr V w) i"
  let ?w = "world (snd (pass R req w))"
  from w last_pass [OF server api _ assms(3), of w]
  have p: "fst (pass R req w) = (no_requeue, None)" "ready V ?w" "tracking (Lib R) (vw_cr V ?w) i" by simp_all
  then have "vw_fs V ?w = Some (i, 0)" by (auto simp: ready_def tracking_def)
  with p show "fst (pass R req w) = (no_requeue, None) \<and> ready V ?w
      \<and> vw_fs V ?w = Some (i, 0) \<and> tracking (Lib R) (vw_cr V ?w) i" by simp
qed (use assms in simp)

lemma settles_created:
  assumes "server_works R req V" and "api_works R V" and "\<And>n. vw_fs V w \<noteq> Some ([], n)" and "tracking (Lib R) (vw_cr V w) []"
  shows "\<exists>n. settled_at R req (ready V) w n"
proof -
  let ?w = "world (snd (pass R req w))"
  from creating_pass [OF assms] obtain i n where "asks_again (fst (pass R req w))" and "i \<noteq> []"
    and "vw_fs V ?w = Some (i, n)" and "tracking (Lib R) (vw_cr V ?w) i" by blast
  then have "settled_at R req (ready V) w (Suc n)"
    by (intro settled_later settled_after_polls [OF assms(1,2)])
  then show ?thesis ..
qed

lemma settles_once_protected:
  assumes "server_works R req V" and "api_works R V" and fs: "\<And>n. vw_fs V w \<noteq> Some ([], n)" and tr: "tracking (Lib R) (vw_cr V w) j"
  shows "\<exists>n. settled_at R req (ready V) w n"
proof (cases "j = []")
  case True
  then show ?thesis using tr by (intro settles_created [OF assms(1,2) fs]) simp
next
  case False
  show ?thesis
  proof (cases "\<exists>n. vw_fs V w = Some (j, n)")
    case True
    then show ?thesis using settled_after_polls [OF assms(1,2) False _ tr] by blast
  next
    case other: False
    let ?w = "world (snd (pass R req w))"
    from False other fs tr have "missing_id V w j" by (auto simp: missing_id_def tracking_def split: option.split)
    from forgetting_pass [OF assms(1,2) tr this] have p: "asks_again (fst (pass R req w))" and "vw_fs V ?w = vw_fs V w"
      and "tracking (Lib R) (vw_cr V ?w) []" by simp_all
    with fs obtain n where "settled_at R req (ready V) ?w n" by (metis settles_created [OF assms(1,2)])
    then show ?thesis using settled_later [OF p] by blast
  qed
qed

lemma settles:
  assumes "server_works R req V" and "api_works R V" and "finalizer_laws (Lib R)"
    and "wanted (Lib R) (vw_cr V w)" and "\<And>n. vw_fs V w \<noteq> Some ([], n)"
  shows "\<exists>n. (\<forall>k<n. asks_again (outcome_of R req w k))
    \<and> (\<forall>m\<ge>n. outcome_of R req w m = (no_requeue, None) \<and> ready V (world_after R req w (Suc m)))"
proof -
  have "\<exists>n. settled_at R req (ready V) w n"
  proof (cases "protected (Lib R) (vw_cr V w)")
    case True
    then show ?thesis using assms(4) by (intro settles_once_protected [OF assms(1,2,5)]) (simp add: tracking_def)
  next
    case False
    let ?w = "world (snd (pass R req w))"
    from protecting_pass [OF assms(1,3,4) False]
    have p: "asks_again (fst (pass R req w))" and fs: "vw_fs V ?w = vw_fs V w"
      and tr: "tracking (Lib R) (vw_cr V ?w) (st_FsId (cr_Status (vw_cr V w)))" by simp_all
    have "\<And>n. vw_fs V ?w \<noteq> Some ([], n)" using assms(5) by (simp add: fs)
    from settles_once_protected [OF assms(1,2) this tr] obtain n where "settled_at R req (ready V) ?w n" by blast
    with p have "settled_at R req (ready V) w (Suc n)" by (rule settled_later)
    then show ?thesis ..
  qed
  then show ?thesis by (simp add: settled_at_def)
qed

text \<open>
  C8. Convergence, from any state. Take an API server that stores what it is sent and a Huawei API that makes the file
  system it is asked for, or gives the one it has under the name, reports it available after some (any) number of
  polls, and does not know the id in the CR when it is another. Whatever the CR says, with or without the finalizer, with the id of the file system, with none though there
  is one, or with an id of a file system that is gone, the passes reach a point where the CR says Ready, with the id and the export path of that
  file system and the generation it stands for; every pass before asks to be called again and fails at nothing, and
  every later pass succeeds, asks for no other, and leaves the CR ready. So the operator recovers once
  failures end, whatever they left behind.
\<close>

theorem becomes_ready:
  assumes "server_works R req V" and "api_works R V" and "finalizer_laws (Lib R)"
    and "wanted (Lib R) (vw_cr V w)" and "\<And>n. vw_fs V w \<noteq> Some ([], n)"
  shows "\<exists>n. (\<forall>k<n. asks_again (outcome_of R req w k))
    \<and> (\<forall>m\<ge>n. outcome_of R req w m = (no_requeue, None) \<and> ready V (world_after R req w (Suc m)))"
  by (rule settles [OF assms])

text \<open>A cluster and a cloud in which that happens: the world is the CR stored and the file system with its polls.\<close>

definition demo_cluster :: "(SfsTurboInstance \<times> (string \<times> nat) option) Reconciler" where
  "demo_cluster = \<lparr>
     Client = \<lparr>
       kGetCR = (\<lambda>_ w. (Inr (fst w), w)),
       kUpdateCR = (\<lambda>x w. let y = x\<lparr>cr_Spec := stored_spec (cr_Spec x), cr_Status := cr_Status (fst w)\<rparr> in (Inr y, (y, snd w))),
       kStatusUpdate = (\<lambda>x w. let y = (fst w)\<lparr>cr_Status := stored_status (cr_Status x)\<rparr> in (Inr y, (y, snd w))),
       kGetPV = (\<lambda>_ w. (Inl not_found_error, w)), kCreatePV = (\<lambda>_ w. (None, w)), kUpdatePV = (\<lambda>_ w. (None, w)),
       kDeletePV = (\<lambda>_ w. (None, w)), kGetPVC = (\<lambda>_ w. (Inl not_found_error, w)),
       kCreatePVC = (\<lambda>_ w. (None, w)), kDeletePVC = (\<lambda>_ w. (None, w))\<rparr>,
     Huawei = \<lparr>
       Create = (\<lambda>_ w. case snd w of
           None \<Rightarrow> (Inr ''fs-1'', (fst w, Some (''fs-1'', 2)))
         | Some (j, n) \<Rightarrow> (Inr j, w)),
       Get = (\<lambda>i w. case snd w of
           Some (j, n) \<Rightarrow> if i = j then
             let sp = cr_Spec (fst w) in (Inr (demo_info\<lparr>si_Status := (if n = 0 then ''200'' else ''100''), si_Size := sp_Size sp,
               si_AvailabilityZone := sp_AvailabilityZone sp, si_ShareType := sp_ShareType sp, si_CryptKeyId := sp_CryptKeyId sp,
               si_SubnetId := sp_SubnetId sp, si_VpcId := sp_VpcId sp, si_SecurityGroupId := sp_SecurityGroupId sp\<rparr>),
               (fst w, Some (j, n - 1)))
             else (Inl ErrFsNotFound, w)
         | None \<Rightarrow> (Inl ErrFsNotFound, w)),
       Delete = (\<lambda>_ w. (None, w)), FindByName = (\<lambda>_ w. (Inl ErrFsNotFound, w)), Expand = (\<lambda>_ _ w. (None, w)),
       ListTags = (\<lambda>_ w. (Inr [], w)), AddTag = (\<lambda>_ _ _ w. (None, w)), DeleteTag = (\<lambda>_ _ w. (None, w)),
       ChangeSecurityGroup = (\<lambda>_ _ w. (None, w))\<rparr>,
     Lib = demo_library,
     Now = (\<lambda>w. (demo_time, w))\<rparr>"

definition demo_view :: "(SfsTurboInstance \<times> (string \<times> nat) option, string \<times> nat) view" where
  "demo_view = \<lparr>vw_cr = fst, vw_fs = snd\<rparr>"

text \<open>A new CR that asks for a PVC and has no finalizer yet.\<close>

definition demo_new :: SfsTurboInstance where
  "demo_new = demo_cr\<lparr>cr_Finalizers := [], cr_Spec := demo_spec\<lparr>sp_PvcName := ''data''\<rparr>\<rparr>"

lemma demo_server_works: "server_works demo_cluster req demo_view"
  unfolding server_works_def
  by (auto simp: demo_cluster_def demo_view_def seen_def calm_def demo_library_def Let_def)

lemma demo_api_works: "api_works demo_cluster demo_view"
  unfolding api_works_def tag_calls_calm_def missing_id_def
  by (auto simp: demo_cluster_def demo_view_def seen_def calm_def as_asked_def immutableDrift_def demo_info_def Let_def
      IsAvailable_def IsErrored_def split: option.splits prod.splits)

text \<open>The CR remembers ''fs-0'', which is gone, while ''fs-1'' is there under its name.\<close>

definition demo_confused :: SfsTurboInstance where
  "demo_confused = demo_new\<lparr>cr_Status := demo_status\<lparr>st_FsId := ''fs-0''\<rparr>\<rparr>"

theorem becomes_ready_witness:
  "\<exists>n. outcome_of demo_cluster demo_req (demo_confused, Some (''fs-1'', 1)) n = (no_requeue, None)
     \<and> ready demo_view (world_after demo_cluster demo_req (demo_confused, Some (''fs-1'', 1)) (Suc n))"
proof -
  let ?w = "(demo_confused, Some (''fs-1'', 1))"
  have laws: "finalizer_laws (Lib demo_cluster)" using demo_library_laws by (simp add: demo_cluster_def)
  have want: "wanted (Lib demo_cluster) (vw_cr demo_view ?w)"
    by (simp add: demo_cluster_def demo_view_def demo_confused_def demo_new_def demo_defs wanted_def deleting_def
        timestamp_IsZero_def wf_map_def)
  have "\<And>n. vw_fs demo_view ?w \<noteq> Some ([], n)" by (simp add: demo_view_def)
  from becomes_ready [OF demo_server_works demo_api_works laws want this, of demo_req] show ?thesis by blast
qed

end
