(* ===== verification/Growth.thy ===== *)
theory Growth
  imports Convergence
begin

text \<open>
  A spec that asks for more space or for another security group, over many passes: under an API that carries
  out what it accepts, the passes expand the file system once, then switch its group once, and end with the CR
  ready for what the spec asks. The parts of a pass and the API server are those of Convergence.
\<close>

section \<open>A file system that changes\<close>

text \<open>What it is working on, with the number of polls until it is done.\<close>

datatype job = Steady | Growing int32 nat | Switching string nat

record disk =
  dk_Id :: string
  dk_Size :: int32
  dk_Group :: string
  dk_Job :: job

fun after_poll :: "job \<Rightarrow> disk \<Rightarrow> disk" where
  "after_poll (Growing n (Suc k)) d = d\<lparr>dk_Job := Growing n k\<rparr>"
| "after_poll (Growing n 0) d = d\<lparr>dk_Size := n, dk_Job := Steady\<rparr>"
| "after_poll (Switching g (Suc k)) d = d\<lparr>dk_Job := Switching g k\<rparr>"
| "after_poll (Switching g 0) d = d\<lparr>dk_Group := g, dk_Job := Steady\<rparr>"
| "after_poll Steady d = d"

lemma after_poll_id [simp]: "dk_Id (after_poll j d) = dk_Id d"
  by (cases "(j, d)" rule: after_poll.cases) simp_all

text \<open>
  How a poll shows it: available, with its size and group; or, while it works on something, with a status of neither kind (121, extending),
  when nothing else is said.
\<close>

definition available_as :: "SfsTurboInstanceSpec \<Rightarrow> disk \<Rightarrow> ShareInfo \<Rightarrow> bool" where
  "available_as sp d info \<longleftrightarrow> IsAvailable (si_Status info) \<and> si_ExportLocation info \<noteq> [] \<and> immutableDrift sp info = []
     \<and> si_Size info = dk_Size d \<and> si_SecurityGroupId info = dk_Group d
     \<and> (IsSgChangeInFlight (si_SubStatus info) \<longleftrightarrow> (\<exists>g k. dk_Job d = Switching g k))"

definition shows_disk :: "SfsTurboInstanceSpec \<Rightarrow> disk \<Rightarrow> ShareInfo \<Rightarrow> bool" where
  "shows_disk sp d info \<longleftrightarrow> available_as sp d info
     \<or> dk_Job d \<noteq> Steady \<and> \<not> IsAvailable (si_Status info) \<and> \<not> IsErrored (si_Status info)"

text \<open>
  The Huawei API: a poll shows the file system as it is; an idle one takes an expansion, or a change of the group, and
  carries it out after some polls.
\<close>

definition api_changes :: "'w Reconciler \<Rightarrow> ('w, disk) view \<Rightarrow> bool" where
  "api_changes R V \<longleftrightarrow>
     (\<forall>d w r w'. vw_fs V w = Some d \<longrightarrow> Get (Huawei R) (dk_Id d) w = (r, w') \<longrightarrow> vw_cr V w' = vw_cr V w
        \<and> vw_fs V w' = Some (after_poll (dk_Job d) d) \<and> (\<exists>info. r = Inr info \<and> shows_disk (cr_Spec (vw_cr V w)) d info))
   \<and> (\<forall>d n w r w'. vw_fs V w = Some d \<longrightarrow> dk_Job d = Steady \<longrightarrow> sint (dk_Size d) < sint n \<longrightarrow>
        Expand (Huawei R) (dk_Id d) n w = (r, w') \<longrightarrow>
        r = None \<and> vw_cr V w' = vw_cr V w \<and> (\<exists>k. vw_fs V w' = Some (d\<lparr>dk_Job := Growing n k\<rparr>)))
   \<and> (\<forall>d g w r w'. vw_fs V w = Some d \<longrightarrow> dk_Job d = Steady \<longrightarrow> ChangeSecurityGroup (Huawei R) (dk_Id d) g w = (r, w') \<longrightarrow>
        r = None \<and> vw_cr V w' = vw_cr V w \<and> (\<exists>k. vw_fs V w' = Some (d\<lparr>dk_Job := Switching g k\<rparr>)))
   \<and> tag_calls_calm R V"

section \<open>What the parts of a pass keep\<close>

text \<open>The view, the identity of the CR, and whether its Expanding condition is True.\<close>

definition carries :: "('w, disk) view \<Rightarrow> SfsTurboInstance \<Rightarrow> disk \<Rightarrow> bool \<Rightarrow> 'w pass \<Rightarrow> bool" where
  "carries V cr d e t \<longleftrightarrow> untouched (seen V) (cr, Some d) t \<and> same_object (sfsti t) cr \<and> st_FsId (status_of t) = st_FsId (cr_Status cr)
     \<and> wf_conditions (sfsti t) \<and> hasConditionTrue (sfsti t) ConditionExpanding = e"

lemma carries_setCondition:
  assumes "calm (seen V) (\<lambda>_. True) (Now R)" and "ty \<noteq> ConditionExpanding"
  shows "maintains (carries V cr d e) (setCondition R ty st rs msg)"
  using assms by (auto simp: maintains_def wp_rules carries_def untouched_def dest: calmD)

lemma carries_set_expanding:
  assumes "calm (seen V) (\<lambda>_. True) (Now R)" and "carries V cr d e t" and "st = ConditionTrue \<or> st = ConditionFalse"
  shows "wp (setCondition R ConditionExpanding st rs msg) (\<lambda>_. carries V cr d (st = ConditionTrue)) t"
  using assms by (auto simp: wp_rules carries_def untouched_def hasConditionTrue_iff dest: calmD)

lemma carries_update:
  assumes "\<And>x. same_object (f x) x \<and> st_FsId (cr_Status (f x)) = st_FsId (cr_Status x)
    \<and> st_Conditions (cr_Status (f x)) = st_Conditions (cr_Status x)"
  shows "maintains (carries V cr d e) (update_sfsti f)"
  using assms by (intro maintains_modify) (auto simp: carries_def wf_conditions_def hasConditionTrue_def)

lemma carries_invoke: "calm (seen V) good op \<Longrightarrow> maintains (carries V cr d e) (invoke op ev)"
  by (auto simp: maintains_def wp_rules carries_def untouched_def dest: calmD)

lemma carries_parts:
  assumes "calm (seen V) (\<lambda>_. True) (Now R)"
  shows "maintains (carries V cr d e) (poll_record R info)" "maintains (carries V cr d e) (poll_immutable R info)"
    "maintains (carries V cr d e) (poll_sg_settled R info)"
  unfolding poll_record_def poll_immutable_def poll_sg_settled_def
  by (intro maintains_rules carries_setCondition carries_update assms; simp add: go_consts)+

lemma carries_tags:
  assumes "tag_calls_calm R V" and "calm (seen V) (\<lambda>_. True) (Now R)"
  shows "maintains (carries V cr d e) (poll_tags R info)"
  by (rule maintains_poll_tags [OF assms(1)])
    (rule carries_invoke, assumption, rule carries_invoke, assumption, rule carries_setCondition [OF assms(2)], force simp: go_consts,
      rule carries_update, simp)

text \<open>The world between two passes.\<close>

definition stage :: "Library \<Rightarrow> ('w, disk) view \<Rightarrow> SfsTurboInstanceSpec \<Rightarrow> disk \<Rightarrow> bool \<Rightarrow> 'w \<Rightarrow> bool" where
  "stage L V sp d e w \<longleftrightarrow> vw_fs V w = Some d \<and> dk_Id d \<noteq> [] \<and> tracking L (vw_cr V w) (dk_Id d) \<and> cr_Spec (vw_cr V w) = sp
     \<and> wf_conditions (vw_cr V w) \<and> hasConditionTrue (vw_cr V w) ConditionExpanding = e"

lemma wf_conditions_stored: "wf_conditions (cr\<lparr>cr_Status := stored_status (cr_Status x)\<rparr>) = wf_conditions x"
  by (simp add: wf_conditions_def stored_status_eq comp_def)

text \<open>A pass that writes the status and asks to be called again leaves such a world.\<close>

lemma carries_patch:
  assumes server: "server_works R req V" and t: "carries V cr d e t" and cr: "tracking (Lib R) cr (dk_Id d)" "dk_Id d \<noteq> []"
    and Q: "\<And>r w. asks_again r \<Longrightarrow> stage (Lib R) V (cr_Spec cr) d e w \<Longrightarrow> Q r w"
  shows "wp (patch_then R (State_Monad.return (\<lparr>RequeueAfter = requeueProvisioning\<rparr>, None))) (\<lambda>r u. Q r (world u)) t"
proof -
  obtain a w where k: "kStatusUpdate (Client R) (sfsti t) (world t) = (a, w)" by fastforce
  have look: "vw_cr V (world t) = cr" "vw_fs V (world t) = Some d" using t by (simp_all add: carries_def untouched_def seen_def)
  from server_status [OF server k] have a: "a = Inr (cr\<lparr>cr_Status := stored_status (cr_Status (sfsti t))\<rparr>)"
    "vw_cr V w = cr\<lparr>cr_Status := stored_status (cr_Status (sfsti t))\<rparr>" "vw_fs V w = Some d" using t by (simp_all add: look carries_def)
  have "tracking (Lib R) (vw_cr V w) (dk_Id d)"
    using cr t by (simp add: a(2) tracking_status carries_def) (simp add: tracking_def)
  then have "stage (Lib R) V (cr_Spec cr) d e w"
    using t cr by (simp add: stage_def a wf_conditions_stored carries_def)
  then show ?thesis
    by (simp add: wp_patch_then_return k after_patch_def a(1)) (rule Q, simp_all add: asks_again_def requeueProvisioning_def second_def)
qed

text \<open>
  A pass over such a world reads the CR, polls, and enters the available branch; or the file system is at work and not available, and
  the pass asks to be called again.
\<close>

lemma stage_pass:
  assumes server: "server_works R req V" and api: "api_changes R V" and st: "stage (Lib R) V sp d e w"
    and branch: "\<And>cr info t. cr_Spec cr = sp \<Longrightarrow> tracking (Lib R) cr (dk_Id d) \<Longrightarrow> available_as sp d info \<Longrightarrow> sfsti t = cr \<Longrightarrow>
      status_writes (calls t) = [] \<Longrightarrow> carries V cr (after_poll (dk_Job d) d) e t \<Longrightarrow>
      wp (poll_available R info) (\<lambda>r u. P r (world u)) t"
    and wait: "\<And>r u. dk_Job d \<noteq> Steady \<Longrightarrow> asks_again r \<Longrightarrow> stage (Lib R) V sp (after_poll (dk_Job d) d) e u \<Longrightarrow> P r u"
  shows "P (fst (pass R req w)) (world (snd (pass R req w)))"
proof -
  let ?cr = "vw_cr V w"
  have fs: "vw_fs V w = Some d" and id: "dk_Id d \<noteq> []" and tr: "tracking (Lib R) ?cr (dk_Id d)" and spec: "cr_Spec ?cr = sp"
    and wf: "wf_conditions ?cr" and e: "hasConditionTrue ?cr ConditionExpanding = e"
    using st by (auto simp: stage_def)
  obtain w1 where k: "kGetCR (Client R) req w = (Inr ?cr, w1)" and w1: "vw_cr V w1 = ?cr" "vw_fs V w1 = Some d"
    using server_read [OF server, of w] fs by (auto simp: seen_def)
  obtain r w2 where g: "Get (Huawei R) (dk_Id d) w1 = (r, w2)" by fastforce
  from api [unfolded api_changes_def, THEN conjunct1, rule_format, OF w1(2) g] w1(1) obtain info where
    info: "r = Inr info" "shows_disk sp d info" and w2: "vw_cr V w2 = ?cr" "vw_fs V w2 = Some (after_poll (dk_Job d) d)"
    by (auto simp: spec)
  have avail: "wp (poll_available R info) (\<lambda>r u. P r (world u)) t"
    if "available_as sp d info" "sfsti t = ?cr" "status_writes (calls t) = []" "world t = w2" for t
    by (rule branch [OF spec tr that(1-3)])
      (use that w2 wf e in \<open>simp add: carries_def untouched_def seen_def\<close>)
  have rest: "P (\<lparr>RequeueAfter = requeueProvisioning\<rparr>, None) w2" if "dk_Job d \<noteq> Steady"
    by (rule wait [OF that]) (use st w2 in \<open>simp_all add: stage_def asks_again_def requeueProvisioning_def second_def\<close>)
  have "IsAvailable (si_Status info)" if "available_as sp d info" using that by (simp add: available_as_def)
  then have "wp (reconcile_body R req) (\<lambda>r u. P r (world u)) (start w)"
    using tr id info by (auto simp: pass_branch k g shows_disk_def intro!: avail rest)
  then show ?thesis by (rule pass_world)
qed

section \<open>The passes\<close>

text \<open>The branch up to the resize keeps the rest as it is.\<close>

lemma available_carries:
  assumes "calm (seen V) (\<lambda>_. True) (Now R)" and "carries V cr d e t"
    and "\<And>u. carries V cr d e u \<Longrightarrow> wp (poll_resize R info) (\<lambda>r. wp (case r of
       Some r \<Rightarrow> State_Monad.return r | None \<Rightarrow> poll_drift R info) Q) u"
  shows "wp (poll_available R info) Q t"
  unfolding poll_available_def wp_bind
  by (rule wp_mono [OF maintainsD [OF carries_parts(1) [OF assms(1)] assms(2)]]) (rule assms(3))

text \<open>More is asked for: the expansion is asked for once, and waited for.\<close>

lemma start_growth:
  assumes server: "server_works R req V" and api: "api_changes R V" and st: "stage (Lib R) V sp d False w"
    and d: "dk_Job d = Steady" "0 < sint (dk_Size d)" "sint (dk_Size d) < sint (sp_Size sp)"
  shows "asks_again (fst (pass R req w))
    \<and> (\<exists>k. stage (Lib R) V sp (d\<lparr>dk_Job := Growing (sp_Size sp) k\<rparr>) True (world (snd (pass R req w))))"
proof (rule stage_pass [OF server api st])
  fix cr info and t :: "'a pass"
  assume spec: "cr_Spec cr = sp" and tr: "tracking (Lib R) cr (dk_Id d)" and info: "available_as sp d info"
    and t: "carries V cr (after_poll (dk_Job d) d) False t"
  let ?Q = "\<lambda>r u. asks_again r \<and> (\<exists>k. stage (Lib R) V sp (d\<lparr>dk_Job := Growing (sp_Size sp) k\<rparr>) True (world u))"
  note clock = server_clock [OF server]
  have id: "dk_Id d \<noteq> []" using st by (simp add: stage_def)
  from t have "carries V cr d False t" by (simp add: d(1))
  then show "wp (poll_available R info) ?Q t"
  proof (rule available_carries [OF clock])
    fix u :: "'a pass"
    assume u: "carries V cr d False u"
    obtain a w' where x: "Expand (Huawei R) (dk_Id d) (sp_Size sp) (world u) = (a, w')" by fastforce
    from u have look: "vw_cr V (world u) = cr" "vw_fs V (world u) = Some d" by (simp_all add: carries_def untouched_def seen_def)
    from api [unfolded api_changes_def, THEN conjunct2, THEN conjunct1, rule_format, OF look(2) d(1,3) x] look(1) obtain k
      where a: "a = None" "vw_cr V w' = cr" "vw_fs V w' = Some (d\<lparr>dk_Job := Growing (sp_Size sp) k\<rparr>)" by auto
    let ?d = "d\<lparr>dk_Job := Growing (sp_Size sp) k\<rparr>"
    have fields: "spec_of u = sp" "st_FsId (status_of u) = dk_Id d" "\<not> hasConditionTrue (sfsti u) ConditionExpanding"
      using u tr spec by (simp_all add: carries_def tracking_def)
    have "carries V cr ?d False (u\<lparr>world := w', calls := cs\<rparr>)" for cs
      using u a by (simp add: carries_def seen_def)
    then have "wp (setCondition R ConditionExpanding ConditionTrue rs msg) (\<lambda>_. carries V cr ?d True) (u\<lparr>world := w', calls := cs\<rparr>)"
      for rs msg cs using carries_set_expanding [OF clock, of cr ?d False] by fastforce
    then have "wp (setCondition R ConditionExpanding ConditionTrue rs msg)
        (\<lambda>_. wp (patch_then R (State_Monad.return (\<lparr>RequeueAfter = requeueProvisioning\<rparr>, None))) ?Q) (u\<lparr>world := w', calls := cs\<rparr>)"
      for rs msg cs
      by (rule wp_mono) (rule carries_patch [OF server, where d = ?d and e = True], use tr id spec in auto)
    then show "wp (poll_resize R info) (\<lambda>r. wp (case r of
       Some r \<Rightarrow> State_Monad.return r | None \<Rightarrow> poll_drift R info) ?Q) u"
      using info d(2,3) fields x a(1)
      by (simp add: poll_resize_def poll_grow_def available_as_def wp_bind wp_gets wp_if wp_return wp_invoke_eq wp_case_option)
  qed
qed (use d in auto)

lemma growth_goes_on:
  assumes server: "server_works R req V" and api: "api_changes R V" and st: "stage (Lib R) V sp d True w"
    and d: "0 < sint (dk_Size d)" "sint (dk_Size d) < sint (sp_Size sp)"
  shows "asks_again (fst (pass R req w)) \<and> stage (Lib R) V sp (after_poll (dk_Job d) d) True (world (snd (pass R req w)))"
proof (rule stage_pass [OF server api st])
  fix cr info and t :: "'a pass"
  assume spec: "cr_Spec cr = sp" and tr: "tracking (Lib R) cr (dk_Id d)" and info: "available_as sp d info"
    and t: "carries V cr (after_poll (dk_Job d) d) True t"
  let ?d = "after_poll (dk_Job d) d"
  have id: "dk_Id d \<noteq> []" using st by (simp add: stage_def)
  from t show "wp (poll_available R info) (\<lambda>r u. asks_again r \<and> stage (Lib R) V sp ?d True (world u)) t"
  proof (rule available_carries [OF server_clock [OF server]])
    fix u :: "'a pass"
    assume u: "carries V cr ?d True u"
    then have fields: "spec_of u = sp" "hasConditionTrue (sfsti u) ConditionExpanding"
      using spec by (simp_all add: carries_def)
    have "wp (patch_then R (State_Monad.return (\<lparr>RequeueAfter = requeueProvisioning\<rparr>, None)))
        (\<lambda>r u. asks_again r \<and> stage (Lib R) V sp ?d True (world u)) u"
      by (rule carries_patch [OF server u]) (use tr id spec in auto)
    then show "wp (poll_resize R info) (\<lambda>r. wp (case r of
       Some r \<Rightarrow> State_Monad.return r | None \<Rightarrow> poll_drift R info)
        (\<lambda>r u. asks_again r \<and> stage (Lib R) V sp ?d True (world u))) u"
      using info d fields
      by (simp add: poll_resize_def poll_grow_def available_as_def wp_bind wp_gets wp_if wp_return)
  qed
qed (use d in auto)

text \<open>The size is right: the Expanding condition is not True any more, and the drift parts follow.\<close>

lemma sized_resize:
  assumes clock: "calm (seen V) (\<lambda>_. True) (Now R)" and t: "carries V cr d e t" and info: "available_as (cr_Spec cr) d' info"
    and size: "dk_Size d' = sp_Size (cr_Spec cr)" "0 < sint (dk_Size d')"
  shows "wp (poll_resize R info) (\<lambda>r u. r = None \<and> carries V cr d False u) t"
proof -
  have "spec_of t = cr_Spec cr" "si_Size info = sp_Size (cr_Spec cr)" "0 < sint (si_Size info)"
    using t info size by (simp_all add: carries_def available_as_def)
  moreover have "hasConditionTrue (sfsti t) ConditionExpanding = e" using t by (simp add: carries_def)
  moreover have "wp (setCondition R ConditionExpanding ConditionFalse rs msg) (\<lambda>_. carries V cr d False) t" for rs msg
    using carries_set_expanding [OF clock t, of ConditionFalse rs msg] by (simp add: go_consts)
  ultimately show ?thesis
    using t by (auto simp: poll_resize_def wp_bind wp_gets wp_if wp_return)
qed

lemma sized_carries:
  assumes "calm (seen V) (\<lambda>_. True) (Now R)" and "carries V cr d e t" and "available_as (cr_Spec cr) d' info"
    and "dk_Size d' = sp_Size (cr_Spec cr)" "0 < sint (dk_Size d')"
    and "\<And>u. carries V cr d False u \<Longrightarrow> wp (poll_drift R info) Q u"
  shows "wp (poll_resize R info) (\<lambda>r. wp (case r of
       Some r \<Rightarrow> State_Monad.return r | None \<Rightarrow> poll_drift R info) Q) t"
  by (rule wp_mono [OF sized_resize [OF assms(1-5)]]) (simp add: assms(6))

definition group_drifts :: "SfsTurboInstanceSpec \<Rightarrow> disk \<Rightarrow> bool" where
  "group_drifts sp d \<longleftrightarrow> sp_SecurityGroupId sp \<noteq> [] \<and> sp_SecurityGroupId sp \<noteq> dk_Group d"

text \<open>Another group is asked for: the change is asked for once, and waited for.\<close>

lemma drifting_carries:
  assumes clock: "calm (seen V) (\<lambda>_. True) (Now R)" and u: "carries V cr d e u" and info: "available_as (cr_Spec cr) d' info"
    and drifts: "group_drifts (cr_Spec cr) d'"
    and change: "\<And>v. carries V cr d e v \<Longrightarrow> wp (poll_sg_drift R info) Q v"
  shows "wp (poll_drift R info) Q u"
proof -
  have "wp (poll_immutable R info) (\<lambda>_ v. carries V cr d e v) u" by (rule maintainsD [OF carries_parts(2) [OF clock] u])
  then show ?thesis
    unfolding poll_drift_def wp_bind wp_gets wp_if
    by (rule wp_mono) (use info drifts change in \<open>auto simp: carries_def available_as_def group_drifts_def\<close>)
qed

lemma switch_group:
  assumes server: "server_works R req V" and api: "api_changes R V" and st: "stage (Lib R) V sp d e w"
    and d: "dk_Job d = Steady" "dk_Size d = sp_Size sp" "group_drifts sp d" "0 < sint (dk_Size d)"
  shows "asks_again (fst (pass R req w))
    \<and> (\<exists>k. stage (Lib R) V sp (d\<lparr>dk_Job := Switching (sp_SecurityGroupId sp) k\<rparr>) False (world (snd (pass R req w))))"
proof (rule stage_pass [OF server api st])
  fix cr info and t :: "'a pass"
  assume spec: "cr_Spec cr = sp" and tr: "tracking (Lib R) cr (dk_Id d)" and info: "available_as sp d info"
    and t: "carries V cr (after_poll (dk_Job d) d) e t"
  let ?Q = "\<lambda>r u. asks_again r \<and> (\<exists>k. stage (Lib R) V sp (d\<lparr>dk_Job := Switching (sp_SecurityGroupId sp) k\<rparr>) False (world u))"
  note clock = server_clock [OF server]
  have id: "dk_Id d \<noteq> []" using st by (simp add: stage_def)
  have change: "wp (poll_sg_drift R info) ?Q v" if v: "carries V cr d False v" for v
  proof -
    obtain a w' where x: "ChangeSecurityGroup (Huawei R) (dk_Id d) (sp_SecurityGroupId sp) (world v) = (a, w')" by fastforce
    from v have look: "vw_cr V (world v) = cr" "vw_fs V (world v) = Some d" by (simp_all add: carries_def untouched_def seen_def)
    from api [unfolded api_changes_def, THEN conjunct2, THEN conjunct2, THEN conjunct1, rule_format, OF look(2) d(1) x] look(1) obtain k
      where a: "a = None" "vw_cr V w' = cr" "vw_fs V w' = Some (d\<lparr>dk_Job := Switching (sp_SecurityGroupId sp) k\<rparr>)" by auto
    let ?d = "d\<lparr>dk_Job := Switching (sp_SecurityGroupId sp) k\<rparr>"
    have fields: "spec_of v = sp" "st_FsId (status_of v) = dk_Id d" using v tr spec by (simp_all add: carries_def tracking_def)
    have moved: "carries V cr ?d False (v\<lparr>world := w', calls := cs\<rparr>)" for cs
      using v a by (simp add: carries_def seen_def)
    have "wp (set_status (\<lambda>st. st\<lparr>st_SecurityGroupId := g\<rparr>))
        (\<lambda>_. wp (patch_then R (State_Monad.return (\<lparr>RequeueAfter = requeueProvisioning\<rparr>, None))) ?Q) y"
      if y: "carries V cr ?d False y" for g y
      by (rule wp_mono [OF maintainsD [OF carries_update y]], simp, rule carries_patch [OF server, where d = ?d and e = False])
        (use tr id spec in auto)
    then have "wp (setCondition R ConditionUpdatingSecurityGroup ConditionTrue rs msg) (\<lambda>_. wp (set_status (\<lambda>st. st\<lparr>st_SecurityGroupId := g\<rparr>))
        (\<lambda>_. wp (patch_then R (State_Monad.return (\<lparr>RequeueAfter = requeueProvisioning\<rparr>, None))) ?Q)) (v\<lparr>world := w', calls := cs\<rparr>)"
      for rs msg g cs
      by (intro wp_mono [OF maintainsD [OF carries_setCondition [OF clock] moved]]) (simp_all add: go_consts)
    then show ?thesis
      using info d(1) fields x a(1)
      by (simp add: poll_sg_drift_def available_as_def wp_bind wp_gets wp_if wp_return wp_invoke_eq wp_case_option)
  qed
  from t have "carries V cr d e t" by (simp add: d(1))
  then show "wp (poll_available R info) ?Q t"
  proof (rule available_carries [OF clock])
    fix u :: "'a pass"
    assume u: "carries V cr d e u"
    show "wp (poll_resize R info) (\<lambda>r. wp (case r of
       Some r \<Rightarrow> State_Monad.return r | None \<Rightarrow> poll_drift R info) ?Q) u"
      by (rule sized_carries [OF clock u, of d], use info d(2,4) spec in simp_all)
        (rule drifting_carries [OF clock _ _ _ change, where d' = d and e = False], use info d(3) spec in simp_all)
  qed
qed (use d in auto)

lemma switch_goes_on:
  assumes server: "server_works R req V" and api: "api_changes R V" and st: "stage (Lib R) V sp d e w"
    and d: "dk_Job d = Switching g k" "dk_Size d = sp_Size sp" "group_drifts sp d" "0 < sint (dk_Size d)"
  shows "asks_again (fst (pass R req w)) \<and> (\<exists>e. stage (Lib R) V sp (after_poll (dk_Job d) d) e (world (snd (pass R req w))))"
proof (rule stage_pass [OF server api st])
  fix cr info and t :: "'a pass"
  assume spec: "cr_Spec cr = sp" and tr: "tracking (Lib R) cr (dk_Id d)" and info: "available_as sp d info"
    and t: "carries V cr (after_poll (dk_Job d) d) e t"
  let ?d = "after_poll (dk_Job d) d"
  let ?Q = "\<lambda>r u. asks_again r \<and> (\<exists>e. stage (Lib R) V sp ?d e (world u))"
  note clock = server_clock [OF server]
  have id: "dk_Id d \<noteq> []" using st by (simp add: stage_def)
  have change: "wp (poll_sg_drift R info) ?Q v" if v: "carries V cr ?d False v" for v
  proof -
    have "wp (set_status (\<lambda>st. st\<lparr>st_SecurityGroupId := g\<rparr>))
        (\<lambda>_. wp (patch_then R (State_Monad.return (\<lparr>RequeueAfter = requeueProvisioning\<rparr>, None))) ?Q) y"
      if y: "carries V cr ?d False y" for g y
      by (rule wp_mono [OF maintainsD [OF carries_update y]], simp, rule carries_patch [OF server, where d = ?d and e = False])
        (use tr id spec in auto)
    then have "wp (setCondition R ConditionUpdatingSecurityGroup ConditionTrue rs msg) (\<lambda>_. wp (set_status (\<lambda>st. st\<lparr>st_SecurityGroupId := g\<rparr>))
        (\<lambda>_. wp (patch_then R (State_Monad.return (\<lparr>RequeueAfter = requeueProvisioning\<rparr>, None))) ?Q)) v"
      for rs msg g
      by (intro wp_mono [OF maintainsD [OF carries_setCondition [OF clock] v]]) (simp_all add: go_consts)
    moreover have "IsSgChangeInFlight (si_SubStatus info)" using info d(1) by (simp add: available_as_def)
    ultimately show ?thesis
      by (simp add: poll_sg_drift_def wp_bind wp_gets wp_if wp_return wp_case_option)
  qed
  from t show "wp (poll_available R info) ?Q t"
  proof (rule available_carries [OF clock])
    fix u :: "'a pass"
    assume u: "carries V cr ?d e u"
    show "wp (poll_resize R info) (\<lambda>r. wp (case r of
       Some r \<Rightarrow> State_Monad.return r | None \<Rightarrow> poll_drift R info) ?Q) u"
      by (rule sized_carries [OF clock u, of d], use info d(2,4) spec in simp_all)
        (rule drifting_carries [OF clock _ _ _ change, where d' = d and e = False], use info d(3) spec in simp_all)
  qed
qed (use d in auto)

text \<open>The file system is what the spec asks for: the last pass.\<close>

definition grown :: "('w, disk) view \<Rightarrow> 'w \<Rightarrow> bool" where
  "grown V w \<longleftrightarrow> (\<exists>d. vw_fs V w = Some d \<and> dk_Job d = Steady \<and> dk_Id d = st_FsId (cr_Status (vw_cr V w))
       \<and> dk_Size d = sp_Size (cr_Spec (vw_cr V w)) \<and> \<not> group_drifts (cr_Spec (vw_cr V w)) d)
     \<and> st_Size (cr_Status (vw_cr V w)) = sp_Size (cr_Spec (vw_cr V w)) \<and> st_ExportPath (cr_Status (vw_cr V w)) \<noteq> []
     \<and> st_ObservedGeneration (cr_Status (vw_cr V w)) = cr_Generation (vw_cr V w)
     \<and> condition_status (vw_cr V w) ConditionReady = Some ConditionTrue
     \<and> \<not> hasConditionTrue (vw_cr V w) ConditionExpanding \<and> \<not> hasConditionTrue (vw_cr V w) ConditionUpdatingSecurityGroup"

text \<open>Nothing is being changed, as the conditions say.\<close>

definition idle :: "('w, disk) view \<Rightarrow> SfsTurboInstance \<Rightarrow> disk \<Rightarrow> 'w pass \<Rightarrow> bool" where
  "idle V cr d t \<longleftrightarrow> carries V cr d False t \<and> \<not> hasConditionTrue (sfsti t) ConditionUpdatingSecurityGroup"

lemma conditions_frame [simp]:
  "wf_conditions (x\<lparr>cr_Status := (cr_Status x)\<lparr>st_Tags := m\<rparr>\<rparr>) = wf_conditions x"
  "wf_conditions (x\<lparr>cr_Status := (cr_Status x)\<lparr>st_SecurityGroupId := g\<rparr>\<rparr>) = wf_conditions x"
  "hasConditionTrue (x\<lparr>cr_Status := (cr_Status x)\<lparr>st_Tags := m\<rparr>\<rparr>) t = hasConditionTrue x t"
  "hasConditionTrue (x\<lparr>cr_Status := (cr_Status x)\<lparr>st_SecurityGroupId := g\<rparr>\<rparr>) t = hasConditionTrue x t"
  by (simp_all add: wf_conditions_def hasConditionTrue_def)

lemma idle_keeps:
  assumes "calm (seen V) (\<lambda>_. True) (Now R)"
  shows "t \<noteq> ConditionExpanding \<Longrightarrow> t \<noteq> ConditionUpdatingSecurityGroup \<Longrightarrow> maintains (idle V cr d) (setCondition R t st rs msg)"
    and "maintains (idle V cr d) (set_status (\<lambda>st. st\<lparr>st_Tags := m\<rparr>))"
    and "calm (seen V) good op \<Longrightarrow> maintains (idle V cr d) (invoke op ev)"
  using assms
  by (auto simp: maintains_def wp_rules idle_def carries_def untouched_def dest: calmD)

lemma idle_tags:
  assumes "tag_calls_calm R V" and "calm (seen V) (\<lambda>_. True) (Now R)"
  shows "maintains (idle V cr d) (poll_tags R info)"
  by (rule maintains_poll_tags [OF assms(1)])
    (rule idle_keeps(3) [OF assms(2)], assumption, rule idle_keeps(3) [OF assms(2)], assumption,
      rule idle_keeps(1) [OF assms(2)], force simp: go_consts, force simp: go_consts, rule idle_keeps(2) [OF assms(2)])

lemma settled_idle:
  assumes clock: "calm (seen V) (\<lambda>_. True) (Now R)" and t: "carries V cr d False t"
  shows "wp (poll_sg_settled R info) (\<lambda>_. idle V cr d) t"
  using t
  by (auto simp: poll_sg_settled_def wp_rules idle_def carries_def untouched_def hasConditionTrue_iff dest: calmD [OF clock])

lemma finish_grown:
  assumes server: "server_works R req V" and tr: "tracking (Lib R) cr (dk_Id d)" "dk_Id d \<noteq> []" and info: "available_as (cr_Spec cr) d info"
    and d: "dk_Job d = Steady" "dk_Size d = sp_Size (cr_Spec cr)" "\<not> group_drifts (cr_Spec cr) d"
    and t: "recorded R f cr info (sfsti t)" "idle V cr d t"
  shows "wp (poll_finish R) (\<lambda>r u. r = (no_requeue, None) \<and> grown V (world u) \<and> stage (Lib R) V (cr_Spec cr) d False (world u)) t"
proof -
  obtain q where q: "ParseQuantity (Lib R) (pvc_size (Lib R) (cr_Spec cr)) = Inr q"
    using tr(1) by (auto simp: tracking_def wanted_def)
  have J: "untouched (seen V) (cr, Some d) t" using t(2) by (simp add: idle_def carries_def)
  have "st_FsId (cr_Status cr) \<noteq> []" "si_ExportLocation info \<noteq> []" using tr info by (simp_all add: tracking_def available_as_def)
  note fin = finish_works [OF server t(1) J this q]
  show ?thesis
  proof (rule wp_mono [OF fin], elim conjE)
    fix r and u :: "'a pass"
    let ?cr = "cr\<lparr>cr_Status := stored_status (cr_Status (sfsti t))\<rparr>"
    assume r: "r = (no_requeue, None)" and "untouched (seen V) (?cr, Some d) u"
    then have w: "vw_cr V (world u) = ?cr" "vw_fs V (world u) = Some d" by (simp_all add: untouched_def seen_def)
    have "condition_status ?cr ConditionReady = Some ConditionTrue" using t(1) by (simp add: recorded_def)
    then have "grown V (world u)"
      using t tr info d unfolding grown_def w
      by (auto simp: recorded_def idle_def carries_def tracking_def available_as_def)
    moreover have "stage (Lib R) V (cr_Spec cr) d False (world u)"
      using t tr unfolding stage_def w by (auto simp: idle_def carries_def wf_conditions_stored tracking_def)
    ultimately show "r = (no_requeue, None) \<and> grown V (world u) \<and> stage (Lib R) V (cr_Spec cr) d False (world u)"
      using r by simp
  qed
qed

lemma grown_pass:
  assumes server: "server_works R req V" and api: "api_changes R V" and st: "stage (Lib R) V sp d e w"
    and d: "dk_Job d = Steady" "dk_Size d = sp_Size sp" "\<not> group_drifts sp d" "0 < sint (dk_Size d)"
  shows "fst (pass R req w) = (no_requeue, None) \<and> grown V (world (snd (pass R req w)))
    \<and> stage (Lib R) V sp d False (world (snd (pass R req w)))"
proof (rule stage_pass [OF server api st])
  fix cr info and t :: "'a pass"
  assume spec: "cr_Spec cr = sp" and tr: "tracking (Lib R) cr (dk_Id d)" and info: "available_as sp d info"
    and s: "sfsti t = cr" "status_writes (calls t) = []" and "carries V cr (after_poll (dk_Job d) d) e t"
  then have t: "carries V cr d e t" by (simp add: d(1))
  let ?Q = "\<lambda>r u. r = (no_requeue, None) \<and> grown V (world u) \<and> stage (Lib R) V sp d False (world u)"
  note clock = server_clock [OF server]
  have calm: "tag_calls_calm R V" using api by (simp add: api_changes_def)
  have id: "dk_Id d \<noteq> []" using st by (simp add: stage_def)
  have wf: "wf_map (sp_Tags (cr_Spec cr))" using tr by (simp add: tracking_def wanted_def)
  have nodrift: "immutableDrift (cr_Spec cr) info = []" "\<not> growing cr info" "\<not> shrinking cr info"
    using info d(2) spec by (simp_all add: available_as_def growing_def shrinking_def)
  have finish: "wp (poll_finish R) ?Q u" if "recorded R g cr info (sfsti u)" "idle V cr d u" for u g
    using finish_grown [OF server tr id _ d(1) _ _ that] info d(2,3) spec by simp
  have tags: "wp (poll_tags R info) (\<lambda>_. wp (poll_finish R) ?Q) u" if "unwritten R g cr info u" "idle V cr d u" for u g
    by (rule wp_mono [OF wp_maintains [OF wp_poll_tags_written [OF that(1) wf] idle_tags [OF calm clock] that(2)]])
      (auto intro: finish)
  have settle: "wp (poll_sg_settled R info) (\<lambda>_. wp (poll_tags R info) (\<lambda>_. wp (poll_finish R) ?Q)) u"
    if "unwritten R g cr info u" "carries V cr d False u" for u g
  proof -
    have "wp (poll_sg_settled R info) (\<lambda>_ v. unwritten R g cr info v \<and> idle V cr d v) u"
      unfolding wp_conj using wp_poll_sg_settled_written [OF that(1)] settled_idle [OF clock that(2)] by blast
    then show ?thesis by (rule wp_mono) (blast intro: tags)
  qed
  have drift: "wp (poll_drift R info) ?Q u" if "unwritten R False cr info u" "carries V cr d False u" for u
    unfolding poll_drift_def wp_bind
  proof (rule wp_mono [OF wp_maintains [OF wp_poll_immutable_written [OF that(1)] carries_parts(2) [OF clock] that(2)]])
    fix a and v :: "'a pass"
    assume v: "unwritten R (False \<or> immutableDrift (cr_Spec cr) info \<noteq> []) cr info v \<and> carries V cr d False v"
    then have "spec_of v = sp" using spec by (simp add: carries_def)
    with v nodrift(1) d(3) info show "wp (gets sfsti) (\<lambda>x. wp (if sp_SecurityGroupId (cr_Spec x) \<noteq> []
         \<and> sp_SecurityGroupId (cr_Spec x) \<noteq> si_SecurityGroupId info
      then poll_sg_drift R info
      else do {
        poll_sg_settled R info;
        poll_tags R info;
        poll_finish R
      }) ?Q) v"
      using settle [of False v] by (auto simp: wp_gets wp_if wp_bind group_drifts_def available_as_def)
  qed
  have resize: "wp (poll_resize R info) (\<lambda>r v. r = None \<and> unwritten R False cr info v \<and> carries V cr d False v) u"
    if "unwritten R False cr info u" "carries V cr d e u" for u
  proof -
    have "wp (poll_resize R info) (\<lambda>r v. (case r of Some _ \<Rightarrow> growing cr info \<and> written R False cr info v
        | None \<Rightarrow> \<not> growing cr info \<and> unwritten R (shrinking cr info) cr info v) \<and> r = None \<and> carries V cr d False v) u"
      unfolding wp_conj [of "poll_resize R info" "\<lambda>r v. case r of Some _ \<Rightarrow> _ v | None \<Rightarrow> _ v"]
      using wp_poll_resize_written [OF that(1)] sized_resize [OF clock that(2), of d info] info d(2,4) spec by simp
    then show ?thesis by (rule wp_mono) (use nodrift(3) in auto)
  qed
  show "wp (poll_available R info) ?Q t"
    unfolding poll_available_def wp_bind
  proof (rule wp_mono [OF wp_maintains [OF wp_poll_record_unwritten [OF s] carries_parts(1) [OF clock] t]])
    fix a and u :: "'a pass"
    assume "(unwritten R False cr info u \<and> hasConditionTrue (sfsti u) ConditionExpanding = hasConditionTrue cr ConditionExpanding)
      \<and> carries V cr d e u"
    then show "wp (poll_resize R info) (\<lambda>r. wp (case r of None \<Rightarrow> poll_drift R info | Some r \<Rightarrow> State_Monad.return r) ?Q) u"
      by (intro wp_mono [OF resize]) (auto intro: drift)
  qed
qed (use d in auto)

section \<open>The spec is reached\<close>

lemma grown_settles:
  assumes "server_works R req V" and "api_changes R V" and "stage (Lib R) V sp d e w"
    and "dk_Job d = Steady" "dk_Size d = sp_Size sp" "\<not> group_drifts sp d" "0 < sint (dk_Size d)"
  shows "settled_at R req (grown V) w 0"
proof (rule settled_now [where I = "\<lambda>w. \<exists>e. stage (Lib R) V sp d e w"])
  fix w
  assume "\<exists>e. stage (Lib R) V sp d e w"
  then obtain e where "stage (Lib R) V sp d e w" ..
  from grown_pass [OF assms(1,2) this assms(4-7)]
  show "fst (pass R req w) = (no_requeue, None) \<and> grown V (world (snd (pass R req w)))
      \<and> (\<exists>e. stage (Lib R) V sp d e (world (snd (pass R req w))))" by blast
qed (use assms(3) in blast)

lemma switch_settles:
  assumes "server_works R req V" and "api_changes R V" and "stage (Lib R) V sp d e w"
    and "dk_Job d = Switching (sp_SecurityGroupId sp) k" "dk_Size d = sp_Size sp" "group_drifts sp d" "0 < sint (dk_Size d)"
  shows "\<exists>n. settled_at R req (grown V) w n"
  using assms(3-7)
proof (induction k arbitrary: d e w)
  case 0
  from switch_goes_on [OF assms(1,2) 0]
  obtain e' where p: "asks_again (fst (pass R req w))" "stage (Lib R) V sp (after_poll (dk_Job d) d) e' (world (snd (pass R req w)))" by blast
  from grown_settles [OF assms(1,2) p(2)] 0
  have "settled_at R req (grown V) (world (snd (pass R req w))) 0" by (simp add: group_drifts_def)
  then show ?case using settled_later [OF p(1)] by blast
next
  case (Suc k)
  from switch_goes_on [OF assms(1,2) Suc.prems]
  obtain e' where p: "asks_again (fst (pass R req w))" "stage (Lib R) V sp (after_poll (dk_Job d) d) e' (world (snd (pass R req w)))" by blast
  from Suc.IH [OF p(2)] Suc.prems obtain n where "settled_at R req (grown V) (world (snd (pass R req w))) n"
    by (auto simp: group_drifts_def)
  then show ?case using settled_later [OF p(1)] by blast
qed

lemma sized_settles:
  assumes "server_works R req V" and "api_changes R V" and "stage (Lib R) V sp d e w"
    and "dk_Job d = Steady" "dk_Size d = sp_Size sp" "0 < sint (dk_Size d)"
  shows "\<exists>n. settled_at R req (grown V) w n"
proof (cases "group_drifts sp d")
  case False
  then show ?thesis using grown_settles [OF assms(1-5) False assms(6)] by blast
next
  case True
  let ?w = "world (snd (pass R req w))"
  from switch_group [OF assms(1-5) True assms(6)] obtain k where p: "asks_again (fst (pass R req w))"
    and st: "stage (Lib R) V sp (d\<lparr>dk_Job := Switching (sp_SecurityGroupId sp) k\<rparr>) False ?w" by blast
  from switch_settles [OF assms(1,2) st] assms(5,6) True obtain n where "settled_at R req (grown V) ?w n"
    by (auto simp: group_drifts_def)
  then show ?thesis using settled_later [OF p] by blast
qed

lemma growth_settles:
  assumes "server_works R req V" and "api_changes R V" and "stage (Lib R) V sp d True w"
    and "dk_Job d = Growing (sp_Size sp) k" "0 < sint (dk_Size d)" "sint (dk_Size d) < sint (sp_Size sp)"
  shows "\<exists>n. settled_at R req (grown V) w n"
  using assms(3-6)
proof (induction k arbitrary: d w)
  case 0
  from growth_goes_on [OF assms(1,2) 0(1,3,4)]
  have p: "asks_again (fst (pass R req w))" "stage (Lib R) V sp (after_poll (dk_Job d) d) True (world (snd (pass R req w)))" by simp_all
  from sized_settles [OF assms(1,2) p(2)] 0 obtain n where "settled_at R req (grown V) (world (snd (pass R req w))) n" by auto
  then show ?case using settled_later [OF p(1)] by blast
next
  case (Suc k)
  from growth_goes_on [OF assms(1,2) Suc.prems(1,3,4)]
  have p: "asks_again (fst (pass R req w))" "stage (Lib R) V sp (after_poll (dk_Job d) d) True (world (snd (pass R req w)))" by simp_all
  from Suc.IH [OF p(2)] Suc.prems obtain n where "settled_at R req (grown V) (world (snd (pass R req w))) n" by auto
  then show ?case using settled_later [OF p(1)] by blast
qed

lemma reaches_spec:
  assumes "server_works R req V" and "api_changes R V" and "vw_fs V w = Some d" and "dk_Job d = Steady" and "dk_Id d \<noteq> []"
    and "wanted (Lib R) (vw_cr V w)" and "protected (Lib R) (vw_cr V w)" and "st_FsId (cr_Status (vw_cr V w)) = dk_Id d"
    and "wf_conditions (vw_cr V w)"
    and "0 < sint (dk_Size d)" and "sint (dk_Size d) \<le> sint (sp_Size (cr_Spec (vw_cr V w)))"
    and "sint (dk_Size d) = sint (sp_Size (cr_Spec (vw_cr V w))) \<or> \<not> hasConditionTrue (vw_cr V w) ConditionExpanding"
  shows "\<exists>n. (\<forall>k<n. asks_again (outcome_of R req w k))
    \<and> (\<forall>m\<ge>n. outcome_of R req w m = (no_requeue, None) \<and> grown V (world_after R req w (Suc m)))"
proof -
  let ?sp = "cr_Spec (vw_cr V w)" and ?e = "hasConditionTrue (vw_cr V w) ConditionExpanding"
  have st: "stage (Lib R) V ?sp d ?e w" using assms(3-9) by (simp add: stage_def tracking_def)
  have "\<exists>n. settled_at R req (grown V) w n"
  proof (cases "sint (dk_Size d) = sint (sp_Size ?sp)")
    case True
    then have "dk_Size d = sp_Size ?sp" by (simp add: signed_word_eqI)
    then show ?thesis using sized_settles [OF assms(1,2) st assms(4)] assms(10) by blast
  next
    case False
    let ?w = "world (snd (pass R req w))"
    from False assms(11,12) have less: "sint (dk_Size d) < sint (sp_Size ?sp)" and st': "stage (Lib R) V ?sp d False w"
      using st by simp_all
    from start_growth [OF assms(1,2) st' assms(4,10) less] obtain k where p: "asks_again (fst (pass R req w))"
      and "stage (Lib R) V ?sp (d\<lparr>dk_Job := Growing (sp_Size ?sp) k\<rparr>) True ?w" by blast
    from growth_settles [OF assms(1,2) this(2)] assms(10) less obtain n where "settled_at R req (grown V) ?w n" by auto
    then show ?thesis using settled_later [OF p] by blast
  qed
  then show ?thesis by (simp add: settled_at_def)
qed

text \<open>
  C5. A changed spec is reached. Take an API server that stores what it is sent and a Huawei API that shows an idle file system as it
  is and accepts an expansion of it, or a change of its group, and carries that out, reporting meanwhile any status that is not one of the errors (121, or
  200 with the old size). The operator tracks such a file system, its size positive and not above the one
  the spec asks for, its group any; unless the sizes agree, the CR does not say Expanding yet (with that mark and no expansion under way the size
  is never reached, see \<open>expanding_mark_blocks_growth\<close>). Then the passes
  reach a point where the file system has the size and the group of the spec and the CR is Ready, says so for its
  generation and is neither Expanding nor UpdatingSecurityGroup; every pass before asks to be called again and fails at nothing, and
  every later pass succeeds and changes nothing of that.
\<close>

theorem changed_spec_is_reached:
  assumes "server_works R req V" and "api_changes R V" and "vw_fs V w = Some d" and "dk_Job d = Steady" and "dk_Id d \<noteq> []"
    and "wanted (Lib R) (vw_cr V w)" and "protected (Lib R) (vw_cr V w)" and "st_FsId (cr_Status (vw_cr V w)) = dk_Id d"
    and "wf_conditions (vw_cr V w)"
    and "0 < sint (dk_Size d)" and "sint (dk_Size d) \<le> sint (sp_Size (cr_Spec (vw_cr V w)))"
    and "sint (dk_Size d) = sint (sp_Size (cr_Spec (vw_cr V w))) \<or> \<not> hasConditionTrue (vw_cr V w) ConditionExpanding"
  shows "\<exists>n. (\<forall>k<n. asks_again (outcome_of R req w k))
    \<and> (\<forall>m\<ge>n. outcome_of R req w m = (no_requeue, None) \<and> grown V (world_after R req w (Suc m)))"
  by (rule reaches_spec [OF assms])

text \<open>A cloud in which that happens: the world is the CR stored and the file system.\<close>

definition demo_changing :: "(SfsTurboInstance \<times> disk option) Reconciler" where
  "demo_changing = \<lparr>
     Client = \<lparr>
       kGetCR = (\<lambda>_ w. (Inr (fst w), w)),
       kUpdateCR = (\<lambda>x w. let y = x\<lparr>cr_Spec := stored_spec (cr_Spec x), cr_Status := cr_Status (fst w)\<rparr> in (Inr y, (y, snd w))),
       kStatusUpdate = (\<lambda>x w. let y = (fst w)\<lparr>cr_Status := stored_status (cr_Status x)\<rparr> in (Inr y, (y, snd w))),
       kGetPV = (\<lambda>_ w. (Inl not_found_error, w)), kCreatePV = (\<lambda>_ w. (None, w)), kUpdatePV = (\<lambda>_ w. (None, w)),
       kDeletePV = (\<lambda>_ w. (None, w)), kGetPVC = (\<lambda>_ w. (Inl not_found_error, w)),
       kCreatePVC = (\<lambda>_ w. (None, w)), kDeletePVC = (\<lambda>_ w. (None, w))\<rparr>,
     Huawei = \<lparr>
       Create = (\<lambda>_ w. (Inl ErrFsNotFound, w)),
       Get = (\<lambda>i w. case snd w of
           None \<Rightarrow> (Inl ErrFsNotFound, w)
         | Some d \<Rightarrow>
             let sp = cr_Spec (fst w) in (Inr (demo_info\<lparr>si_Status := (case dk_Job d of Growing n k \<Rightarrow> ''121'' | _ \<Rightarrow> ''200''), si_Size := dk_Size d,
               si_SubStatus := (case dk_Job d of Switching g k \<Rightarrow> SubStatusSgChanging | _ \<Rightarrow> []),
               si_AvailabilityZone := sp_AvailabilityZone sp, si_ShareType := sp_ShareType sp, si_CryptKeyId := sp_CryptKeyId sp,
               si_SubnetId := sp_SubnetId sp, si_VpcId := sp_VpcId sp, si_SecurityGroupId := dk_Group d\<rparr>),
               (fst w, Some (after_poll (dk_Job d) d)))),
       Delete = (\<lambda>_ w. (None, w)), FindByName = (\<lambda>_ w. (Inl ErrFsNotFound, w)),
       Expand = (\<lambda>_ n w. (None, (fst w, map_option (\<lambda>d. d\<lparr>dk_Job := Growing n 1\<rparr>) (snd w)))),
       ListTags = (\<lambda>_ w. (Inr [], w)), AddTag = (\<lambda>_ _ _ w. (None, w)), DeleteTag = (\<lambda>_ _ w. (None, w)),
       ChangeSecurityGroup = (\<lambda>_ g w. (None, (fst w, map_option (\<lambda>d. d\<lparr>dk_Job := Switching g 1\<rparr>) (snd w))))\<rparr>,
     Lib = demo_library,
     Now = (\<lambda>w. (demo_time, w))\<rparr>"

definition demo_disk :: disk where
  "demo_disk = \<lparr>dk_Id = ''fs-1'', dk_Size = 500, dk_Group = ''sg-old'', dk_Job = Steady\<rparr>"

definition demo_disk_view :: "(SfsTurboInstance \<times> disk option, disk) view" where
  "demo_disk_view = \<lparr>vw_cr = fst, vw_fs = snd\<rparr>"

text \<open>The tracked CR, asking for 1000 GiB in the group ''sg-new''.\<close>

definition demo_asking :: SfsTurboInstance where
  "demo_asking = demo_tracked\<lparr>cr_Spec := demo_spec\<lparr>sp_Size := 1000, sp_SecurityGroupId := ''sg-new'', sp_PvcName := ''data''\<rparr>\<rparr>"

lemma demo_changing_server: "server_works demo_changing req demo_disk_view"
  unfolding server_works_def
  by (auto simp: demo_changing_def demo_disk_view_def seen_def calm_def demo_library_def Let_def)

lemma demo_changing_api: "api_changes demo_changing demo_disk_view"
  unfolding api_changes_def tag_calls_calm_def
  by (auto simp: demo_changing_def demo_disk_view_def seen_def calm_def shows_disk_def available_as_def immutableDrift_def demo_info_def Let_def
      IsAvailable_def IsErrored_def IsSgChangeInFlight_def SubStatusSgChanging_def split: job.splits)

theorem changed_spec_is_reached_witness:
  "\<exists>n. grown demo_disk_view (world_after demo_changing demo_req (demo_asking, Some demo_disk) n)
     \<and> sint (dk_Size demo_disk) < sint (sp_Size (cr_Spec demo_asking)) \<and> group_drifts (cr_Spec demo_asking) demo_disk"
proof -
  let ?w = "(demo_asking, Some demo_disk)"
  have view: "vw_fs demo_disk_view ?w = Some demo_disk" "vw_cr demo_disk_view ?w = demo_asking"
    by (simp_all add: demo_disk_view_def)
  have d: "dk_Job demo_disk = Steady" "dk_Id demo_disk \<noteq> []" "0 < sint (dk_Size demo_disk)"
    by (simp_all add: demo_disk_def)
  have sizes: "sint (dk_Size demo_disk) < sint (sp_Size (cr_Spec demo_asking))"
    by (simp add: demo_disk_def demo_asking_def)
  have "wanted (Lib demo_changing) demo_asking" "protected (Lib demo_changing) demo_asking"
    by (simp_all add: demo_changing_def demo_asking_def demo_defs wanted_def protected_def deleting_def timestamp_IsZero_def wf_map_def)
  moreover have "st_FsId (cr_Status demo_asking) = dk_Id demo_disk" "wf_conditions demo_asking"
    "\<not> hasConditionTrue demo_asking ConditionExpanding"
    by (simp_all add: demo_asking_def demo_disk_def demo_defs wf_conditions_def hasConditionTrue_def)
  ultimately have "\<exists>n. \<forall>m\<ge>n. grown demo_disk_view (world_after demo_changing demo_req ?w (Suc m))"
    using changed_spec_is_reached [OF demo_changing_server demo_changing_api view(1) d(1,2), unfolded view(2), of demo_req] d(3) sizes
    by auto
  moreover have "group_drifts (cr_Spec demo_asking) demo_disk"
    by (simp add: group_drifts_def demo_asking_def demo_disk_def)
  ultimately show ?thesis using sizes by blast
qed

end
