(* ===== verification/Teardown.thy ===== *)
theory Teardown
  imports Passes
begin

text \<open>
  The deletion of a CR over many passes: under an API server and a Huawei API that work, the file system is
  deleted and the finalizer is removed after it is gone.
\<close>

section \<open>An environment that works\<close>

text \<open>The file system is there, or it is on its way out and still found a number of times; or nothing is said of it.\<close>

datatype share_state = Present | Going nat | Untold

text \<open>The CR, until the server has removed it, and the file system.\<close>

record 'w doom =
  dm_cr :: "'w \<Rightarrow> SfsTurboInstance option"
  dm_fs :: "'w \<Rightarrow> share_state"

definition doom_of :: "'w doom \<Rightarrow> 'w \<Rightarrow> SfsTurboInstance option \<times> share_state" where
  "doom_of D w = (dm_cr D w, dm_fs D w)"

text \<open>
  The API server as before; it removes a CR under deletion with its last finalizer. The calls for PVs and
  PVCs may fail.
\<close>

definition server_releases :: "'w Reconciler \<Rightarrow> NamespacedName \<Rightarrow> 'w doom \<Rightarrow> bool" where
  "server_releases R req D \<longleftrightarrow>
     (\<forall>w r w'. kGetCR (Client R) req w = (r, w') \<longrightarrow> doom_of D w' = doom_of D w
        \<and> (case dm_cr D w of Some cr \<Rightarrow> r = Inr cr | None \<Rightarrow> (\<exists>e. r = Inl e \<and> IsNotFound (Lib R) e)))
   \<and> (\<forall>x cr w r w'. dm_cr D w = Some cr \<longrightarrow> kStatusUpdate (Client R) x w = (r, w') \<longrightarrow>
        r = Inr (cr\<lparr>cr_Status := stored_status (cr_Status x)\<rparr>) \<and> doom_of D w' = (Some (cr\<lparr>cr_Status := stored_status (cr_Status x)\<rparr>), dm_fs D w))
   \<and> (\<forall>cr fs w r w'. dm_cr D w = Some cr \<longrightarrow> kUpdateCR (Client R) (cr\<lparr>cr_Finalizers := fs\<rparr>) w = (r, w') \<longrightarrow>
        (let y = cr\<lparr>cr_Finalizers := fs, cr_Spec := stored_spec (cr_Spec cr)\<rparr>
         in r = Inr y \<and> doom_of D w' = (if fs = [] then None else Some y, dm_fs D w)))
   \<and> (\<forall>n. calm (doom_of D) (\<lambda>_. True) (kGetPV (Client R) n)) \<and> (\<forall>k. calm (doom_of D) (\<lambda>_. True) (kGetPVC (Client R) k))
   \<and> (\<forall>x. calm (doom_of D) (\<lambda>_. True) (kDeletePV (Client R) x)) \<and> (\<forall>x. calm (doom_of D) (\<lambda>_. True) (kDeletePVC (Client R) x))
   \<and> calm (doom_of D) (\<lambda>_. True) (Now R)"

text \<open>The Huawei API: a deletion that is accepted is carried out after some polls, and not before it is asked for.\<close>

definition api_deletes :: "'w Reconciler \<Rightarrow> string \<Rightarrow> 'w doom \<Rightarrow> bool" where
  "api_deletes R i D \<longleftrightarrow>
     (\<forall>w r w'. Get (Huawei R) i w = (r, w') \<longrightarrow> dm_cr D w' = dm_cr D w \<and> (case dm_fs D w of
          Present \<Rightarrow> (\<exists>info. r = Inr info) \<and> dm_fs D w' = Present
        | Going 0 \<Rightarrow> (\<exists>e. r = Inl e \<and> is_ErrFsNotFound e) \<and> dm_fs D w' = Going 0
        | Going (Suc n) \<Rightarrow> (\<exists>info. r = Inr info) \<and> dm_fs D w' = Going n
        | Untold \<Rightarrow> True))
   \<and> (\<forall>w r w'. dm_fs D w = Present \<longrightarrow> Delete (Huawei R) i w = (r, w') \<longrightarrow>
        r = None \<and> dm_cr D w' = dm_cr D w \<and> (\<exists>n. dm_fs D w' = Going n))"

section \<open>The passes\<close>

lemma releases_clock: "server_releases R req D \<Longrightarrow> calm (doom_of D) (\<lambda>_. True) (Now R)"
  by (simp add: server_releases_def)

lemma releases_read:
  assumes "server_releases R req D"
  obtains r w1 where "kGetCR (Client R) req w = (r, w1)" "doom_of D w1 = doom_of D w"
    "case dm_cr D w of Some cr \<Rightarrow> r = Inr cr | None \<Rightarrow> (\<exists>e. r = Inl e \<and> IsNotFound (Lib R) e)"
proof -
  obtain r w1 where k: "kGetCR (Client R) req w = (r, w1)" by fastforce
  from assms [unfolded server_releases_def, THEN conjunct1, rule_format, OF k] k that show ?thesis by blast
qed

lemma releases_status:
  "server_releases R req D \<Longrightarrow> doom_of D w = (Some cr, f) \<Longrightarrow> kStatusUpdate (Client R) x w = (r, w') \<Longrightarrow>
     r = Inr (cr\<lparr>cr_Status := stored_status (cr_Status x)\<rparr>) \<and> doom_of D w' = (Some (cr\<lparr>cr_Status := stored_status (cr_Status x)\<rparr>), f)"
  unfolding server_releases_def by (auto simp: doom_of_def)

lemma releases_update:
  assumes "server_releases R req D" and "doom_of D w = (Some cr, f)" and "kUpdateCR (Client R) (cr\<lparr>cr_Finalizers := fs\<rparr>) w = (r, w')"
  shows "r = Inr (cr\<lparr>cr_Finalizers := fs, cr_Spec := stored_spec (cr_Spec cr)\<rparr>)
    \<and> doom_of D w' = (if fs = [] then None else Some (cr\<lparr>cr_Finalizers := fs, cr_Spec := stored_spec (cr_Spec cr)\<rparr>), f)"
  using assms(1) [unfolded server_releases_def, THEN conjunct2, THEN conjunct2, THEN conjunct1, rule_format, OF _ assms(3)]
    assms(2) by (auto simp: doom_of_def Let_def)

lemma untouched_cascade:
  assumes "server_releases R req D"
  shows "maintains (untouched (doom_of D) v) (cascadeDeletePVPVC R)"
proof -
  have "maintains (untouched (doom_of D) v) (invoke (kGetPV (Client R) n) ev)"
    "maintains (untouched (doom_of D) v) (invoke (kGetPVC (Client R) k) ev')"
    "maintains (untouched (doom_of D) v) (invoke (kDeletePV (Client R) x) ev'')"
    "maintains (untouched (doom_of D) v) (invoke (kDeletePVC (Client R) y) ev''')" for n k x y ev ev' ev'' ev'''
    by (rule untouched_invoke [where good = "\<lambda>_. True"]; use assms in \<open>simp add: server_releases_def\<close>)+
  then show ?thesis
    unfolding cascadeDeletePVPVC_def cascadeDeletePVC_def cascadeDeletePV_def by (intro maintains_rules)
qed

text \<open>The CR of the deletion: to be torn down, with the file system \<open>i\<close>; and that its deletion was recorded.\<close>

definition doomed :: "Library \<Rightarrow> SfsTurboInstance \<Rightarrow> string \<Rightarrow> bool" where
  "doomed L cr i \<longleftrightarrow> tearing_down L cr \<and> st_FsId (cr_Status cr) = i"

lemma doomed_status: "doomed L (cr\<lparr>cr_Status := st\<rparr>) i \<longleftrightarrow> doomed L (cr\<lparr>cr_Status := (cr_Status cr)\<lparr>st_FsId := st_FsId st\<rparr>\<rparr>) i"
  by (auto simp: doomed_def tearing_down_def deleting_def protected_def)

lemmas doom_branch = reconcile_body_def reconcileDelete_def wp_bind wp_gets wp_modify wp_invoke_eq wp_case_sum wp_if wp_return
  doomed_def tearing_down_def deleting_def protected_def

definition accepted_deletion :: "Library \<Rightarrow> 'w doom \<Rightarrow> string \<Rightarrow> outcome \<Rightarrow> 'w \<Rightarrow> bool" where
  "accepted_deletion L D i r w \<longleftrightarrow> asks_again r \<and> (\<exists>cr n. doom_of D w = (Some cr, Going n)
     \<and> doomed L cr i \<and> hasConditionTrue cr ConditionDeleting)"

lemma deleting_pass:
  assumes server: "server_releases R req D" and api: "api_deletes R i D"
    and look: "doom_of D w = (Some cr, Present)" and dm: "doomed (Lib R) cr i" and "\<not> hasConditionTrue cr ConditionDeleting"
  shows "accepted_deletion (Lib R) D i (fst (pass R req w)) (world (snd (pass R req w)))"
proof -
  obtain w1 where k: "kGetCR (Client R) req w = (Inr cr, w1)" and w1: "doom_of D w1 = (Some cr, Present)"
    using releases_read [OF server, of w] look by (auto simp: doom_of_def)
  obtain r w2 where "Get (Huawei R) i w1 = (r, w2)" by fastforce
  with api [unfolded api_deletes_def, THEN conjunct1, rule_format, OF this] w1
  obtain info where g: "Get (Huawei R) i w1 = (Inr info, w2)" and w2: "doom_of D w2 = (Some cr, Present)"
    by (auto simp: doom_of_def)
  let ?Q = "\<lambda>r t. accepted_deletion (Lib R) D i r (world t)"
  have share: "wp (delete_share R) ?Q t" if t: "sfsti t = cr" "untouched (doom_of D) (Some cr, Present) t" for t
  proof -
    obtain r v where d: "Delete (Huawei R) i (world t) = (r, v)" by fastforce
    with api [unfolded api_deletes_def, THEN conjunct2, rule_format, OF _ d] t(2)
    obtain n where r: "r = None" and v: "doom_of D v = (Some cr, Going n)" by (auto simp: doom_of_def untouched_def)
    let ?after = "\<lambda>u. untouched (doom_of D) (Some cr, Going n) u"
    have cond: "wp (setCondition R ty st rs msg) (\<lambda>_ u. ?after u \<and> (\<exists>m. sfsti u = with_condition m ty st rs msg x)) u"
      if "?after u" "sfsti u = x" for ty st rs msg u x
      using that releases_clock [OF server] by (auto simp: wp_rules untouched_def dest: calmD)
    have fin: "wp (patch_then R (State_Monad.return (\<lparr>RequeueAfter = requeueDeleting\<rparr>, None))) ?Q u"
      if "?after u" and x: "sfsti u = with_condition m' ConditionReady st' rs' msg' (with_condition m ConditionDeleting ConditionTrue rs msg cr)"
      for u m' st' rs' msg' m rs msg
    proof -
      obtain a v' where p: "kStatusUpdate (Client R) (sfsti u) (world u) = (a, v')" by fastforce
      have "a = Inr (cr\<lparr>cr_Status := stored_status (cr_Status (sfsti u))\<rparr>)" "doom_of D v' = (Some (cr\<lparr>cr_Status := stored_status (cr_Status (sfsti u))\<rparr>), Going n)"
        using releases_status [OF server _ p, of cr "Going n"] that(1) by (auto simp: untouched_def)
      moreover have "hasConditionTrue (cr\<lparr>cr_Status := stored_status (cr_Status (sfsti u))\<rparr>) ConditionDeleting"
      proof -
        have "hasConditionTrue (sfsti u) ConditionDeleting" unfolding x
          by (simp add: hasConditionTrue_set)
        then show ?thesis by simp
      qed
      moreover have "doomed (Lib R) (cr\<lparr>cr_Status := stored_status (cr_Status (sfsti u))\<rparr>) i"
        using dm by (auto simp: x doomed_def tearing_down_def deleting_def protected_def)
      ultimately show ?thesis
        by (simp add: wp_patch_then_return p after_patch_def accepted_deletion_def asks_again_def requeueDeleting_def second_def)
    qed
    have id: "st_FsId (cr_Status cr) = i" using dm by (simp add: doomed_def)
    have "?after (t\<lparr>world := v, calls := cs\<rparr>)" for cs using v by (simp add: untouched_def)
    moreover have second: "wp (setCondition R ConditionReady st' rs' msg')
        (\<lambda>_. wp (patch_then R (State_Monad.return (\<lparr>RequeueAfter = requeueDeleting\<rparr>, None))) ?Q) u"
      if "?after u" "sfsti u = with_condition m ConditionDeleting ConditionTrue rs msg cr" for u st' rs' msg' m rs msg
      by (rule wp_mono [OF cond [OF that]]) (use fin in blast)
    moreover have "wp (setCondition R ConditionDeleting ConditionTrue rs msg) (\<lambda>_. wp (setCondition R ConditionReady st' rs' msg')
        (\<lambda>_. wp (patch_then R (State_Monad.return (\<lparr>RequeueAfter = requeueDeleting\<rparr>, None))) ?Q)) u"
      if "?after u" "sfsti u = cr" for u rs msg st' rs' msg'
      by (rule wp_mono [OF cond [OF that]]) (use second in blast)
    ultimately show ?thesis unfolding delete_share_def
      by (simp add: wp_bind wp_gets wp_invoke_eq t id d r)
  qed
  have cascade: "wp (cascadeDeletePVPVC R) (\<lambda>_ t. sfsti t = cr \<and> untouched (doom_of D) (Some cr, Present) t) t"
    if "sfsti t = cr" "untouched (doom_of D) (Some cr, Present) t" for t
    by (rule wp_maintains [OF wp_cascade untouched_cascade [OF server] that(2)]) (simp add: that(1))
  have live: "wp (delete_live R) ?Q t" if "sfsti t = cr" "untouched (doom_of D) (Some cr, Present) t" for t
    using that assms(5) by (auto simp: delete_live_def wp_bind wp_gets wp_if wp_return intro!: share wp_mono [OF cascade])
  have td: "tearing_down (Lib R) cr" and id: "st_FsId (cr_Status cr) = i" and i: "i \<noteq> []"
    using dm by (auto simp: doomed_def tearing_down_def)
  have "wp (reconcile_body R req) ?Q (start w)"
    using td by (simp add: doom_branch k id i g) (rule live, simp_all add: untouched_def w2)
  then show ?thesis by (rule pass_world)
qed

lemma going_pass:
  assumes server: "server_releases R req D" and api: "api_deletes R i D"
    and look: "doom_of D w = (Some cr, Going (Suc n))" and dm: "doomed (Lib R) cr i" and "hasConditionTrue cr ConditionDeleting"
  shows "asks_again (fst (pass R req w)) \<and> doom_of D (world (snd (pass R req w))) = (Some cr, Going n)"
proof -
  obtain w1 where k: "kGetCR (Client R) req w = (Inr cr, w1)" and w1: "doom_of D w1 = (Some cr, Going (Suc n))"
    using releases_read [OF server, of w] look by (auto simp: doom_of_def)
  obtain r w2 where "Get (Huawei R) i w1 = (r, w2)" by fastforce
  with api [unfolded api_deletes_def, THEN conjunct1, rule_format, OF this] w1
  obtain info where g: "Get (Huawei R) i w1 = (Inr info, w2)" and w2: "doom_of D w2 = (Some cr, Going n)"
    by (auto simp: doom_of_def)
  have "wp (reconcile_body R req) (\<lambda>r t. asks_again r \<and> doom_of D (world t) = (Some cr, Going n)) (start w)"
    using dm assms(5) g w2 by (auto simp: doom_branch k delete_live_def asks_again_def requeueDeleting_def second_def)
  then show ?thesis by (rule pass_world)
qed

text \<open>The end: the file system is gone, and the CR with it or without the operator's finalizer.\<close>

definition released :: "'w doom \<Rightarrow> 'w \<Rightarrow> bool" where
  "released D w \<longleftrightarrow> dm_fs D w = Going 0
     \<and> (\<forall>cr. dm_cr D w = Some cr \<longrightarrow> deleting cr \<and> Finalizer \<notin> set (cr_Finalizers cr))"

lemma released_pass:
  assumes server: "server_releases R req D" and api: "api_deletes R i D" and laws: "finalizer_laws (Lib R)"
    and look: "doom_of D w = (Some cr, Going 0)" and dm: "doomed (Lib R) cr i"
  shows "fst (pass R req w) = (no_requeue, None) \<and> released D (world (snd (pass R req w)))"
proof -
  obtain w1 where k: "kGetCR (Client R) req w = (Inr cr, w1)" and w1: "doom_of D w1 = (Some cr, Going 0)"
    using releases_read [OF server, of w] look by (auto simp: doom_of_def)
  obtain r w2 where "Get (Huawei R) i w1 = (r, w2)" by fastforce
  with api [unfolded api_deletes_def, THEN conjunct1, rule_format, OF this] w1
  obtain e where g: "Get (Huawei R) i w1 = (Inl e, w2)" "is_ErrFsNotFound e" and w2: "doom_of D w2 = (Some cr, Going 0)"
    by (auto simp: doom_of_def)
  let ?Q = "\<lambda>r t. r = (no_requeue, None) \<and> released D (world t)"
  have remove: "wp (removeFinalizer R) ?Q t" if t: "sfsti t = cr\<lparr>cr_Status := st\<rparr>" "doom_of D (world t) = (Some (cr\<lparr>cr_Status := st\<rparr>), Going 0)"
    for t st
  proof -
    let ?fs = "RemoveFinalizer (Lib R) (cr_Finalizers cr) Finalizer"
    let ?cr = "cr\<lparr>cr_Status := st\<rparr>"
    obtain a v where u: "kUpdateCR (Client R) (?cr\<lparr>cr_Finalizers := ?fs\<rparr>) (world t) = (a, v)" by fastforce
    note releases_update [OF server t(2) u]
    moreover have "Finalizer \<notin> set ?fs" using laws by (simp add: finalizer_laws_def)
    moreover have "deleting cr" using dm by (simp add: doomed_def tearing_down_def)
    ultimately show ?thesis
      using u by (auto simp: removeFinalizer_def wp_rules t(1) released_def doom_of_def deleting_def split: if_splits)
  qed
  have gone: "wp (setCondition R ty st rs msg) (\<lambda>_. wp (patch_then R (removeFinalizer R)) ?Q) t"
    if t: "sfsti t = cr" "doom_of D (world t) = (Some cr, Going 0)" for t ty st rs msg
  proof -
    have "wp (patch_then R (removeFinalizer R)) ?Q u"
      if u: "doom_of D (world u) = (Some cr, Going 0)" for u
    proof -
      obtain a v where p: "kStatusUpdate (Client R) (sfsti u) (world u) = (a, v)" by fastforce
      from releases_status [OF server u p] show ?thesis
        by (simp add: patch_then_def wp_bind wp_patchStatus p) (rule remove, simp_all)
    qed
    then show ?thesis
      using t releases_clock [OF server] by (auto simp: wp_setCondition dest: calmD)
  qed
  have "wp (reconcile_body R req) ?Q (start w)"
    using dm g w2 by (auto simp: doom_branch k intro!: gone)
  then show ?thesis by (rule pass_world)
qed

lemma idle_pass:
  assumes server: "server_releases R req D" and laws: "finalizer_laws (Lib R)" and rel: "released D w"
  shows "fst (pass R req w) = (no_requeue, None) \<and> released D (world (snd (pass R req w)))"
proof -
  obtain r w1 where k: "kGetCR (Client R) req w = (r, w1)" and w1: "doom_of D w1 = doom_of D w"
    and r: "case dm_cr D w of Some cr \<Rightarrow> r = Inr cr | None \<Rightarrow> (\<exists>e. r = Inl e \<and> IsNotFound (Lib R) e)"
    by (rule releases_read [OF server])
  have rel1: "released D w1" using rel w1 by (simp add: released_def doom_of_def)
  have "wp (reconcile_body R req) (\<lambda>r t. r = (no_requeue, None) \<and> released D (world t)) (start w)"
  proof (cases "dm_cr D w")
    case None
    with r rel1 show ?thesis by (auto simp: doom_branch k)
  next
    case (Some cr)
    then have "deleting cr" "\<not> ContainsFinalizer (Lib R) (cr_Finalizers cr) Finalizer"
      using rel laws by (auto simp: released_def finalizer_laws_def)
    with Some r rel1 show ?thesis by (auto simp: doom_branch k)
  qed
  then show ?thesis by (rule pass_world)
qed

text \<open>
  The teardown ends. Take an API server that stores what it is sent and a Huawei API that carries out an
  accepted deletion after some (any) number of polls. From a CR under deletion with policy Delete, whose file
  system is there and whose deletion is not recorded, the passes reach a point where the file system
  is gone and the CR has lost the operator's finalizer (or is gone too); every pass before asks to be called again
  and fails at nothing, whatever happens to the PV and the PVC, and every later pass finds nothing to do.
\<close>

lemma tears_down:
  assumes "server_releases R req D" and "api_deletes R (st_FsId (cr_Status cr)) D" and "finalizer_laws (Lib R)"
    and "dm_cr D w = Some cr" and "dm_fs D w = Present" and "tearing_down (Lib R) cr"
    and "\<not> hasConditionTrue cr ConditionDeleting"
  shows "\<exists>n. (\<forall>k<n. asks_again (outcome_of R req w k))
    \<and> (\<forall>m\<ge>n. outcome_of R req w m = (no_requeue, None) \<and> released D (world_after R req w (Suc m)))"
proof -
  let ?i = "st_FsId (cr_Status cr)" and ?w = "world (snd (pass R req w))"
  let ?W = "\<lambda>n w. (\<exists>cr. doom_of D w = (Some cr, Going n) \<and> doomed (Lib R) cr ?i \<and> hasConditionTrue cr ConditionDeleting)
    \<or> n = 0 \<and> released D w"
  have "doom_of D w = (Some cr, Present)" "doomed (Lib R) cr ?i"
    using assms(4-6) by (simp_all add: doom_of_def doomed_def)
  from deleting_pass [OF assms(1,2) this assms(7)] obtain n where "asks_again (fst (pass R req w))" and W: "?W n ?w"
    unfolding accepted_deletion_def by blast
  moreover have "settled_at R req (released D) ?w n"
  proof (rule settled_countdown [where W = ?W, OF _ _ W])
    fix n v
    assume "?W (Suc n) v"
    with going_pass [OF assms(1,2)] show "asks_again (fst (pass R req v)) \<and> ?W n (world (snd (pass R req v)))" by blast
  next
    fix v
    assume "?W 0 v"
    with released_pass [OF assms(1-3)] idle_pass [OF assms(1,3)]
    show "fst (pass R req v) = (no_requeue, None) \<and> released D (world (snd (pass R req v))) \<and> ?W 0 (world (snd (pass R req v)))"
      by blast
  qed
  ultimately have "settled_at R req (released D) w (Suc n)" by (intro settled_later)
  then show ?thesis unfolding settled_at_def by blast
qed

text \<open>A cluster and a cloud in which that happens: the deletion takes three polls; the PV cannot be read.\<close>

definition demo_deletion :: "(SfsTurboInstance option \<times> share_state) Reconciler" where
  "demo_deletion = \<lparr>
     Client = \<lparr>
       kGetCR = (\<lambda>_ w. (case fst w of Some cr \<Rightarrow> Inr cr | None \<Rightarrow> Inl not_found_error, w)),
       kUpdateCR = (\<lambda>x w. let y = x\<lparr>cr_Spec := stored_spec (cr_Spec x)\<rparr> in
         (Inr y, (if cr_Finalizers x = [] then None else Some y, snd w))),
       kStatusUpdate = (\<lambda>x w. case fst w of
           Some cr \<Rightarrow> (Inr (cr\<lparr>cr_Status := stored_status (cr_Status x)\<rparr>), (Some (cr\<lparr>cr_Status := stored_status (cr_Status x)\<rparr>), snd w))
         | None \<Rightarrow> (Inl not_found_error, w)),
       kGetPV = (\<lambda>_ w. (Inl (OtherError ''down''), w)), kCreatePV = (\<lambda>_ w. (None, w)), kUpdatePV = (\<lambda>_ w. (None, w)),
       kDeletePV = (\<lambda>_ w. (None, w)), kGetPVC = (\<lambda>_ w. (Inl not_found_error, w)),
       kCreatePVC = (\<lambda>_ w. (None, w)), kDeletePVC = (\<lambda>_ w. (None, w))\<rparr>,
     Huawei = \<lparr>
       Create = (\<lambda>_ w. (Inr ''fs-2'', w)),
       Get = (\<lambda>_ w. case snd w of
           Present \<Rightarrow> (Inr demo_info, w)
         | Going 0 \<Rightarrow> (Inl ErrFsNotFound, w)
         | Going (Suc n) \<Rightarrow> (Inr demo_info, (fst w, Going n))
         | Untold \<Rightarrow> (Inl ErrFsNotFound, w)),
       Delete = (\<lambda>_ w. (None, (fst w, Going 3))), FindByName = (\<lambda>_ w. (Inl ErrFsNotFound, w)), Expand = (\<lambda>_ _ w. (None, w)),
       ListTags = (\<lambda>_ w. (Inr [], w)), AddTag = (\<lambda>_ _ _ w. (None, w)), DeleteTag = (\<lambda>_ _ w. (None, w)),
       ChangeSecurityGroup = (\<lambda>_ _ w. (None, w))\<rparr>,
     Lib = demo_library,
     Now = (\<lambda>w. (demo_time, w))\<rparr>"

definition demo_doom :: "(SfsTurboInstance option \<times> share_state) doom" where
  "demo_doom = \<lparr>dm_cr = fst, dm_fs = snd\<rparr>"

lemma demo_releases: "server_releases demo_deletion req demo_doom"
  unfolding server_releases_def
  by (auto simp: demo_deletion_def demo_doom_def doom_of_def calm_def demo_library_def Let_def split: option.split)

lemma demo_deletes: "api_deletes demo_deletion i demo_doom"
  unfolding api_deletes_def
  by (auto simp: demo_deletion_def demo_doom_def split: share_state.splits nat.splits)

lemma tears_down_example:
  "\<exists>n. outcome_of demo_deletion demo_req (Some demo_doomed, Present) n = (no_requeue, None)
     \<and> released demo_doom (world_after demo_deletion demo_req (Some demo_doomed, Present) (Suc n))"
proof -
  have "finalizer_laws (Lib demo_deletion)" using demo_library_laws by (simp add: demo_deletion_def)
  moreover have "tearing_down (Lib demo_deletion) demo_doomed" and "\<not> hasConditionTrue demo_doomed ConditionDeleting"
    by (simp_all add: demo_deletion_def demo_defs demo_time_def tearing_down_def deleting_def protected_def
        timestamp_IsZero_def time_IsZero_def second_def hasConditionTrue_def)
  ultimately show ?thesis
    using tears_down [where w = "(Some demo_doomed, Present)" and cr = demo_doomed and req = demo_req,
        OF demo_releases demo_deletes]
    by (auto simp: demo_doom_def)
qed

end
