(* ===== verification/EndToEnd.thy ===== *)
theory EndToEnd
  imports Growth Teardown Client
begin

text \<open>
  The operator as cmd/main.go puts it together: the reconciler over the API client over the SDK, with credentials that
  are static or come from the metadata service. What the reconciler's convergence asks of the Huawei API is derived
  here from what the SDK's calls and the metadata service do.
\<close>

section \<open>The reconciler over the client\<close>

text \<open>
  The reconciler of cmd/main.go: its Huawei interface is the API client, so its world is the client
  with what is outside of it.
\<close>

definition wired :: "('w, 'r, 'c, 'h) SDK \<Rightarrow> 'w Metadata \<Rightarrow> ('w, 'r, 'h) site Reconciler \<Rightarrow> bool" where
  "wired S M R \<longleftrightarrow> Huawei R = client_interface S M"

text \<open>
  A reconciler with the client for its Huawei interface: the Kubernetes client and the clock act on what is
  outside.
\<close>

definition operator :: "'w Reconciler \<Rightarrow> ('w, 'r, 'c, 'h) SDK \<Rightarrow> 'w Metadata \<Rightarrow> ('w, 'r, 'h) site Reconciler" where
  "operator R S M = \<lparr>
     Client = \<lparr>
       kGetCR = (\<lambda>n. run_state (ask (kGetCR (Reconciler.Client R) n))),
       kUpdateCR = (\<lambda>x. run_state (ask (kUpdateCR (Reconciler.Client R) x))),
       kStatusUpdate = (\<lambda>x. run_state (ask (kStatusUpdate (Reconciler.Client R) x))),
       kGetPV = (\<lambda>n. run_state (ask (kGetPV (Reconciler.Client R) n))),
       kCreatePV = (\<lambda>x. run_state (ask (kCreatePV (Reconciler.Client R) x))),
       kUpdatePV = (\<lambda>x. run_state (ask (kUpdatePV (Reconciler.Client R) x))),
       kDeletePV = (\<lambda>x. run_state (ask (kDeletePV (Reconciler.Client R) x))),
       kGetPVC = (\<lambda>n. run_state (ask (kGetPVC (Reconciler.Client R) n))),
       kCreatePVC = (\<lambda>x. run_state (ask (kCreatePVC (Reconciler.Client R) x))),
       kDeletePVC = (\<lambda>x. run_state (ask (kDeletePVC (Reconciler.Client R) x)))\<rparr>,
     Huawei = client_interface S M,
     Lib = Lib R,
     Now = run_state (ask (Now R))\<rparr>"

lemma operator_wired: "wired S M (operator R S M)"
  by (simp add: wired_def operator_def)

lemma operator_lib [simp]: "Lib (operator R S M) = Lib R"
  by (simp add: operator_def)

section \<open>A cloud that works\<close>

text \<open>The metadata service answers every request with credentials; how long they last is left open.\<close>

definition metadata_works :: "'w Metadata \<Rightarrow> ('w \<Rightarrow> 'v) \<Rightarrow> bool" where
  "metadata_works M look \<longleftrightarrow> (\<forall>u. NewRequest M u = None) \<and> calm look (\<lambda>_. True) (Clock M)
     \<and> (\<forall>t u. calm look (\<lambda>r. \<exists>b cred e. r = Inr (200, Inr b) \<and> Unmarshal b = Some cred \<and> mp_Access cred \<noteq> []
          \<and> mp_Secret cred \<noteq> [] \<and> parseExpiresAt M (mp_ExpiresAt cred) = Inr e) (Do M t u))"

text \<open>The SDK's builders accept what they are given.\<close>

definition sdk_builds :: "('w, 'r, 'c, 'h) SDK \<Rightarrow> bool" where
  "sdk_builds S \<longleftrightarrow> (\<forall>ak sk p t. \<exists>c. sdk_BuildCredentials S ak sk p t = Inr c) \<and> (\<forall>r c. \<exists>h. sdk_Build S r c = Inr h)"

text \<open>A response that shows a share with the fields of a spec and this size, in decimal with or without a fraction.\<close>

definition shows_share :: "SfsTurboInstanceSpec \<Rightarrow> int32 \<Rightarrow> ShowShareResponse \<Rightarrow> bool" where
  "shows_share sp n resp \<longleftrightarrow>
     (\<exists>rest. rs_Size resp = Some (format_d (sint n) @ rest) \<and> (rest = [] \<or> \<not> is_digit (hd rest)))
   \<and> (\<exists>e. rs_ExportLocation resp = Some e \<and> e \<noteq> [])
   \<and> value_or_zero (rs_CryptKeyId resp) [] = sp_CryptKeyId sp
   \<and> value_or_zero (rs_ShareType resp) [] \<in> {[], sp_ShareType sp}
   \<and> value_or_zero (rs_AvailabilityZone resp) [] \<in> {[], sp_AvailabilityZone sp}
   \<and> value_or_zero (rs_VpcId resp) [] \<in> {[], sp_VpcId sp}
   \<and> value_or_zero (rs_SubnetId resp) [] \<in> {[], sp_SubnetId sp}"

definition shows_as_asked :: "SfsTurboInstanceSpec \<Rightarrow> ShowShareResponse \<Rightarrow> bool" where
  "shows_as_asked sp resp \<longleftrightarrow> shows_share sp (sp_Size sp) resp
     \<and> (sp_SecurityGroupId sp = [] \<or> rs_SecurityGroupId resp = Some (sp_SecurityGroupId sp))"

text \<open>
  The SDK's calls for one share: it is made, or refused for its name and listed under it; shown under its id, for some
  polls as in the making and then as it was asked for; another id that the CR has is a 404.
\<close>

definition cloud_works :: "('w, 'r, 'c, 'h) SDK \<Rightarrow> ('w, string \<times> nat) view \<Rightarrow> bool" where
  "cloud_works S U \<longleftrightarrow>
     (\<forall>h w r w'. vw_fs U w = None \<longrightarrow>
        sdk_CreateShare S h (create_share_request (create_input (cr_Spec (vw_cr U w)))) w = (r, w') \<longrightarrow>
        (\<exists>i n. i \<noteq> [] \<and> r = Inr (Some i) \<and> vw_fs U w' = Some (i, n)) \<and> vw_cr U w' = vw_cr U w)
   \<and> (\<forall>h i n w r w'. vw_fs U w = Some (i, n) \<longrightarrow>
        sdk_CreateShare S h (create_share_request (create_input (cr_Spec (vw_cr U w)))) w = (r, w') \<longrightarrow>
        (\<exists>e. r = Inl e \<and> isNameAlreadyExists e) \<and> seen U w' = seen U w)
   \<and> (\<forall>h i n w r w'. vw_fs U w = Some (i, n) \<longrightarrow> sdk_ListShares S h w = (r, w') \<longrightarrow>
        (\<exists>shares x. r = Inr (Some shares) \<and> find_share (sp_FsName (cr_Spec (vw_cr U w))) shares = Some x \<and> ls_Id x = Some i)
        \<and> seen U w' = seen U w)
   \<and> (\<forall>h j w r w'. missing_id U w j \<longrightarrow> sdk_ShowShare S h j w = (r, w') \<longrightarrow>
        (\<exists>e. r = Inl e \<and> isNotFound e) \<and> seen U w' = seen U w)
   \<and> (\<forall>h i n w r w'. vw_fs U w = Some (i, n) \<longrightarrow> sdk_ShowShare S h i w = (r, w') \<longrightarrow>
        vw_cr U w' = vw_cr U w \<and> vw_fs U w' = Some (i, n - 1)
        \<and> (\<exists>resp st. r = Inr (Some resp) \<and> rs_Status resp = Some st \<and> IsAvailable st = (n = 0) \<and> \<not> IsErrored st
             \<and> (n = 0 \<longrightarrow> shows_as_asked (cr_Spec (vw_cr U w)) resp)))
   \<and> (\<forall>h i. calm (seen U) (\<lambda>_. True) (sdk_ShowSharedTags S h i))
   \<and> (\<forall>h i k v. calm (seen U) (\<lambda>_. True) (sdk_CreateSharedTag S h i k v))
   \<and> (\<forall>h i k. calm (seen U) (\<lambda>_. True) (sdk_DeleteSharedTag S h i k))"

text \<open>
  A view through the client. A client that was not constructed gives no view, which \<open>z\<close> stands for: for a
  creation the pair with the empty id, which the reconciler never asks for, and for a change no share at all.
\<close>

definition through :: "'f option \<Rightarrow> ('w, 'f) view \<Rightarrow> (('w, 'r, 'h) site, 'f) view" where
  "through z U = \<lparr>vw_cr = (\<lambda>s. vw_cr U (outside s)), vw_fs = (\<lambda>s. if client_ok s then vw_fs U (outside s) else z)\<rparr>"

abbreviation site_view :: "('w, string \<times> nat) view \<Rightarrow> (('w, 'r, 'h) site, string \<times> nat) view" where
  "site_view \<equiv> through (Some ([], 0))"

abbreviation disk_view :: "('w, disk) view \<Rightarrow> (('w, 'r, 'h) site, disk) view" where
  "disk_view \<equiv> through None"

section \<open>What the methods do in it\<close>

lemma fetch_works:
  assumes "metadata_works M look" and "fetch M p w = (r, w')"
  shows "(\<exists>k. r = Inr k) \<and> look w' = look w"
proof -
  obtain a w1 where d: "Do M (pp_Timeout p) (pp_url p) w = (a, w1)" by fastforce
  from assms(1) have req: "NewRequest M u = None" and clock: "calm look (\<lambda>_. True) (Clock M)"
    and "calm look (\<lambda>r. \<exists>b cred e. r = Inr (200, Inr b) \<and> Unmarshal b = Some cred \<and> mp_Access cred \<noteq> []
          \<and> mp_Secret cred \<noteq> [] \<and> parseExpiresAt M (mp_ExpiresAt cred) = Inr e) (Do M t u)" for t u
    by (simp_all add: metadata_works_def)
  from calmD [OF this(3) d] obtain b cred e where "a = Inr (200, Inr b)" "Unmarshal b = Some cred" "mp_Access cred \<noteq> []"
    "mp_Secret cred \<noteq> []" "parseExpiresAt M (mp_ExpiresAt cred) = Inr e" "look w1 = look w" by blast
  with assms(2) req d show ?thesis
    by (auto simp: fetch_def credsOf_def split: prod.splits dest: calmD [OF clock])
qed

lemma agency_works:
  assumes "metadata_works M look" and "PodAgency_Get M p w = ((creds, e), p', w')"
  shows "creds \<noteq> None \<and> e = None \<and> look w' = look w"
proof -
  obtain t w1 where t: "Clock M w = (t, w1)" by fastforce
  obtain r w2 where f: "fetch M p w1 = (r, w2)" by fastforce
  have "look w1 = look w"
    using assms(1) t unfolding metadata_works_def by (blast dest: calmD)
  moreover obtain k where "r = Inr k" "look w2 = look w1" using fetch_works [OF assms(1) f] by blast
  ultimately show ?thesis
    using assms(2) t f
    by (cases "pp_cache p"; cases "pp_cache p'") (auto simp: PodAgency_Get_def Let_def split: if_splits)
qed

text \<open>So \<open>ensureSDK\<close> gives a handle.\<close>

lemma handle_comes:
  assumes "metadata_works M look" and "sdk_builds S" and "client_ok s"
  obtains h s' where "run_state (ensureSDK S M) s = (Inr h, s')" "client_ok s'" "look (outside s') = look (outside s)"
proof -
  obtain r s' where run: "run_state (ensureSDK S M) s = (r, s')" by fastforce
  have ok: "client_ok s'" using ensureSDK_keeps_ok(1) [OF assms(3), of S M] run by simp
  have builds: "\<exists>h. build_sdk S pre r (staticCredentialsFor (sdk_BuildCredentials S) cfg ak sk t) = Inr h" for pre r cfg ak sk t
  proof -
    from assms(2) obtain c h where "sdk_BuildCredentials S ak sk (cf_ProjectId cfg) (if t \<noteq> [] then Some t else None) = Inr c"
      "sdk_Build S r c = Inr h" unfolding sdk_builds_def by blast
    then show ?thesis by (simp add: build_sdk_def staticCredentialsFor_def)
  qed
  have "r \<noteq> Inl nil_pointer" using ensureSDK_keeps_ok(2) [OF assms(3), of S M] run by simp
  have "(\<exists>h. r = Inr h) \<and> look (outside s') = look (outside s)"
  proof (cases "cl_podAgency (client s)")
    case None
    then show ?thesis using run assms(3) by (auto simp: ensureSDK_def client_ok_def)
  next
    case (Some p)
    obtain creds e p' w where g: "PodAgency_Get M p (outside s) = ((creds, e), p', w)" by (metis prod.collapse)
    from agency_works [OF assms(1) g] obtain k where k: "creds = Some k" "e = None" "look w = look (outside s)" by auto
    obtain h where h: "build_sdk S ''build pod-agency credentials: '' (cl_region (client s)) (staticCredentialsFor
        (sdk_BuildCredentials S) (cl_cfg (client s)) (pc_AccessKey k) (pc_SecretKey k) (pc_SecurityToken k)) = Inr h"
      using builds by blast
    then show ?thesis
      using run Some g k by (auto simp: h ensureSDK_def must_rebuild_def split: if_splits option.splits)
  qed
  with run ok that show ?thesis by blast
qed

text \<open>A method is the SDK's call, in a world that looks as the one it was called in.\<close>

lemma method_runs:
  assumes "metadata_works M look" and "sdk_builds S" and "client_ok s"
    and "run_state (with_sdk S M fail (\<lambda>h. State_Monad.bind (ask (op h)) (\<lambda>r. State_Monad.return (f r)))) s = (r, s')"
  obtains h v a where "op h v = (a, outside s')" "look v = look (outside s)" "r = f a" "client_ok s'"
proof -
  from handle_comes [OF assms(1-3)] obtain h s1 where h: "run_state (ensureSDK S M) s = (Inr h, s1)" "client_ok s1"
    "look (outside s1) = look (outside s)" by blast
  obtain a w where a: "op h (outside s1) = (a, w)" by fastforce
  with assms(4) have s': "r = f a" "s' = s1\<lparr>outside := w\<rparr>" by (simp_all add: run_with_sdk [OF h(1)])
  show ?thesis
    by (rule that [of h "outside s1" a]) (use h a s' in \<open>simp_all add: client_ok_def\<close>)
qed

lemma no_client: "\<not> client_ok s \<Longrightarrow> run_state (with_sdk S M fail k) s = (fail nil_pointer, s)"
  by (auto simp: client_ok_def ensureSDK_def with_sdk_def)

lemmas method_defs = Client_Get_def Client_Delete_def Client_Expand_def Client_ListTags_def Client_AddTag_def
  Client_DeleteTag_def Client_ChangeSecurityGroup_def

text \<open>A method whose SDK call does not change the view does not change it either.\<close>

lemma method_calm:
  assumes "metadata_works M (seen U)" and "sdk_builds S" and "\<And>h. calm (seen U) (\<lambda>_. True) (op h)"
    and look: "\<And>s s'. client_ok s' = client_ok s \<Longrightarrow> seen U (outside s') = seen U (outside s) \<Longrightarrow> look s' = look s"
  shows "calm look (\<lambda>_. True) (run_state (with_sdk S M fail (\<lambda>h. State_Monad.bind (ask (op h)) (\<lambda>r. State_Monad.return (f r)))))"
  unfolding calm_def
proof (intro allI impI conjI TrueI)
  fix s r s'
  assume run: "run_state (with_sdk S M fail (\<lambda>h. State_Monad.bind (ask (op h)) (\<lambda>r. State_Monad.return (f r)))) s = (r, s')"
  show "look s' = look s"
  proof (cases "client_ok s")
    case True
    obtain h v a where m: "op h v = (a, outside s')" "seen U v = seen U (outside s)" "client_ok s'"
      by (rule method_runs [OF assms(1,2) True run])
    with True show ?thesis using calmD [OF assms(3) m(1)] by (intro look) simp_all
  next
    case False
    then show ?thesis using run by (simp add: no_client)
  qed
qed

text \<open>What the client reads from such a response.\<close>

lemma share_shown:
  assumes "shows_share sp n resp"
  shows "si_Size (share_info i resp) = n" and "immutableDrift sp (share_info i resp) = []"
    and "si_ExportLocation (share_info i resp) \<noteq> []"
proof -
  from assms obtain rest where rest: "rs_Size resp = Some (format_d (sint n) @ rest)" "rest = [] \<or> \<not> is_digit (hd rest)"
    by (auto simp: shows_share_def)
  have "- (2 ^ 31) \<le> sint n" "sint n < 2 ^ 31" using sint_ge [of n] sint_lt [of n] by simp_all
  from Sscanf_format [OF this rest(2)] show "si_Size (share_info i resp) = n"
    by (simp add: share_info_def parse_size_def rest(1))
  have fields: "si_ShareType (share_info i resp) = value_or_zero (rs_ShareType resp) []"
    "si_AvailabilityZone (share_info i resp) = value_or_zero (rs_AvailabilityZone resp) []"
    "si_VpcId (share_info i resp) = value_or_zero (rs_VpcId resp) []"
    "si_SubnetId (share_info i resp) = value_or_zero (rs_SubnetId resp) []"
    "si_CryptKeyId (share_info i resp) = value_or_zero (rs_CryptKeyId resp) []"
    by (simp_all add: share_info_def)
  show "immutableDrift sp (share_info i resp) = []"
    using assms unfolding immutableDrift_def fields shows_share_def insert_iff empty_iff by (elim conjE disjE; simp)
  show "si_ExportLocation (share_info i resp) \<noteq> []"
    using assms by (auto simp: shows_share_def share_info_def value_or_zero_def)
qed

lemma share_as_asked:
  assumes "shows_as_asked sp resp"
  shows "as_asked sp (share_info i resp)"
  using assms share_shown [of sp "sp_Size sp" resp]
  by (auto simp: as_asked_def shows_as_asked_def) (simp_all add: share_info_def value_or_zero_def)

lemma client_tags_calm:
  assumes "wired S M R" and "metadata_works M (seen U)" and "sdk_builds S"
    and "\<And>h i. calm (seen U) (\<lambda>_. True) (sdk_ShowSharedTags S h i)"
    and "\<And>h i k v. calm (seen U) (\<lambda>_. True) (sdk_CreateSharedTag S h i k v)"
    and "\<And>h i k. calm (seen U) (\<lambda>_. True) (sdk_DeleteSharedTag S h i k)"
    and "\<And>s s'. client_ok s' = client_ok s \<Longrightarrow> seen U (outside s') = seen U (outside s) \<Longrightarrow> seen V s' = seen V s"
  shows "tag_calls_calm R V"
  using assms(1) unfolding tag_calls_calm_def wired_def client_interface_def method_defs
  by (auto intro!: method_calm [OF assms(2,3)] assms(4-7))

lemma client_api_works:
  assumes wired: "wired S M R" and cloud: "cloud_works S U" and meta: "metadata_works M (seen U)" and builds: "sdk_builds S"
  shows "api_works R (site_view U)"
proof -
  have H: "Huawei R = client_interface S M" using wired by (simp add: wired_def)
  have seen_eq: "vw_cr U w' = vw_cr U w \<and> vw_fs U w' = vw_fs U w" if "seen U w' = seen U w" for w w'
    using that by (simp add: seen_def)
  have create: "(\<exists>i n. i \<noteq> [] \<and> r = Inr i \<and> vw_fs (site_view U) s' = Some (i, n)) \<and> vw_cr (site_view U) s' = vw_cr (site_view U) s"
    if none: "vw_fs (site_view U) s = None"
      and run: "run_state (Client_Create S M (create_input (cr_Spec (vw_cr (site_view U) s)))) s = (r, s')" for s r s'
  proof -
    have ok: "client_ok s" "vw_fs U (outside s) = None" using none by (auto simp: through_def split: if_splits)
    from handle_comes [OF meta builds ok(1)] obtain h s1 where h: "run_state (ensureSDK S M) s = (Inr h, s1)" "client_ok s1"
      "seen U (outside s1) = seen U (outside s)" by blast
    let ?q = "create_share_request (create_input (cr_Spec (vw_cr U (outside s))))"
    obtain a w where a: "sdk_CreateShare S h ?q (outside s1) = (a, w)" by fastforce
    from cloud [unfolded cloud_works_def, THEN conjunct1, rule_format, of "outside s1" h a w] seen_eq [OF h(3)] a ok(2)
    obtain i n where "a = Inr (Some i)" "i \<noteq> []" "vw_fs U w = Some (i, n)" "vw_cr U w = vw_cr U (outside s)" by auto
    moreover have "client_ok (s1\<lparr>outside := w\<rparr>)" using h(2) by (simp add: client_ok_def)
    ultimately show ?thesis
      using run a by (auto simp: through_def Client_Create_def run_with_sdk [OF h(1)])
  qed
  have adopt: "r = Inr i \<and> seen (site_view U) s' = seen (site_view U) s"
    if fs: "vw_fs (site_view U) s = Some (i, n)" "i \<noteq> []"
      and run: "run_state (Client_Create S M (create_input (cr_Spec (vw_cr (site_view U) s)))) s = (r, s')" for s r s' i n
  proof -
    have ok: "client_ok s" "vw_fs U (outside s) = Some (i, n)" using fs by (auto simp: through_def split: if_splits)
    from handle_comes [OF meta builds ok(1)] obtain h s1 where h: "run_state (ensureSDK S M) s = (Inr h, s1)" "client_ok s1"
      "seen U (outside s1) = seen U (outside s)" by blast
    let ?in = "create_input (cr_Spec (vw_cr U (outside s)))"
    obtain a w where a: "sdk_CreateShare S h (create_share_request ?in) (outside s1) = (a, w)" by fastforce
    from cloud [unfolded cloud_works_def, THEN conjunct2, THEN conjunct1, rule_format, of "outside s1" i n h a w] seen_eq [OF h(3)] a ok(2)
    obtain e where e: "a = Inl e" "isNameAlreadyExists e" and w: "seen U w = seen U (outside s)" using h(3) by auto
    have "client_ok (s1\<lparr>outside := w\<rparr>)" using h(2) by (simp add: client_ok_def)
    from handle_comes [OF meta builds this] obtain h' s2 where h': "run_state (ensureSDK S M) (s1\<lparr>outside := w\<rparr>) = (Inr h', s2)"
      "client_ok s2" and "seen U (outside s2) = seen U (outside (s1\<lparr>outside := w\<rparr>))" by blast
    with w have s2: "seen U (outside s2) = seen U (outside s)" by simp
    obtain b v where b: "sdk_ListShares S h' (outside s2) = (b, v)" by fastforce
    from cloud [unfolded cloud_works_def, THEN conjunct2, THEN conjunct2, THEN conjunct1, rule_format, OF _ b, of i n]
      seen_eq [OF s2] ok(2) s2
    obtain shares x where x: "b = Inr (Some shares)" "find_share (in_Name ?in) shares = Some x" "ls_Id x = Some i"
      and v: "seen U v = seen U (outside s)" by (auto simp: create_input_def)
    from Create_adopts [OF h(1) a [unfolded e(1)] e(2) h'(1) b [unfolded x(1)] x(2,3) fs(2)]
    have "r = Inr i" "s' = s2\<lparr>outside := v\<rparr>" using run by (simp_all add: through_def)
    with h'(2) ok(1) seen_eq [OF v] show ?thesis by (simp add: seen_def through_def client_ok_def)
  qed
  have missing: "(\<exists>e. r = Inl e \<and> is_ErrFsNotFound e) \<and> seen (site_view U) s' = seen (site_view U) s"
    if j: "missing_id (site_view U) s j" and run: "run_state (Client_Get S M j) s = (r, s')" for s r s' j
  proof -
    have ok: "client_ok s" "missing_id U (outside s) j" using j by (auto simp: missing_id_def through_def split: if_splits)
    obtain h v a where m: "sdk_ShowShare S h j v = (a, outside s')" "seen U v = seen U (outside s)" "client_ok s'"
      and r: "r = (case a of Inl e \<Rightarrow> Inl (Errorf (''ShowShare('' @ j @ ''): '') (classify e) [])
        | Inr None \<Rightarrow> Inl (OtherError ''ShowShare returned nil response'') | Inr (Some resp) \<Rightarrow> Inr (share_info j resp))"
      by (rule method_runs [OF meta builds ok(1) run [unfolded method_defs]])
    have "missing_id U v j" by (rule missing_same [OF m(2) ok(2)])
    from cloud [unfolded cloud_works_def, THEN conjunct2, THEN conjunct2, THEN conjunct2, THEN conjunct1, rule_format, OF this m(1)] m(2)
    obtain e where e: "a = Inl e" "isNotFound e" and w: "seen U (outside s') = seen U (outside s)" by auto
    show ?thesis
      using e m(3) ok(1) seen_eq [OF w] by (simp add: r is_ErrFsNotFound_classify seen_def through_def)
  qed
  have get: "vw_cr (site_view U) s' = vw_cr (site_view U) s \<and> vw_fs (site_view U) s' = Some (i, n - 1)
      \<and> (\<exists>info. r = Inr info \<and> IsAvailable (si_Status info) = (n = 0) \<and> \<not> IsErrored (si_Status info)
           \<and> (n = 0 \<longrightarrow> as_asked (cr_Spec (vw_cr (site_view U) s)) info))"
    if fs: "vw_fs (site_view U) s = Some (i, n)" "i \<noteq> []" and run: "run_state (Client_Get S M i) s = (r, s')" for s r s' i n
  proof -
    have ok: "client_ok s" "vw_fs U (outside s) = Some (i, n)" using fs by (auto simp: through_def split: if_splits)
    obtain h v a where m: "sdk_ShowShare S h i v = (a, outside s')" "seen U v = seen U (outside s)" "client_ok s'"
      and r: "r = (case a of Inl e \<Rightarrow> Inl (Errorf (''ShowShare('' @ i @ ''): '') (classify e) [])
        | Inr None \<Rightarrow> Inl (OtherError ''ShowShare returned nil response'') | Inr (Some resp) \<Rightarrow> Inr (share_info i resp))"
      by (rule method_runs [OF meta builds ok(1) run [unfolded method_defs]])
    from cloud [unfolded cloud_works_def, THEN conjunct2, THEN conjunct2, THEN conjunct2, THEN conjunct2, THEN conjunct1, rule_format,
        OF _ m(1), of n] seen_eq [OF m(2)] ok(2)
    obtain resp st where resp: "a = Inr (Some resp)" "rs_Status resp = Some st" "IsAvailable st = (n = 0)" "\<not> IsErrored st"
      "n = 0 \<longrightarrow> shows_as_asked (cr_Spec (vw_cr U (outside s))) resp"
      and w: "vw_cr U (outside s') = vw_cr U (outside s)" "vw_fs U (outside s') = Some (i, n - 1)" by auto
    moreover have "si_Status (share_info i resp) = st" using resp(2) by (simp add: share_info_def value_or_zero_def)
    ultimately show ?thesis using m(3) by (auto simp: r through_def intro: share_as_asked)
  qed
  have calls: "calm (seen U) (\<lambda>_. True) (sdk_ShowSharedTags S h i)" "calm (seen U) (\<lambda>_. True) (sdk_CreateSharedTag S h i k v)"
    "calm (seen U) (\<lambda>_. True) (sdk_DeleteSharedTag S h i k)" for h i k v
    using cloud unfolding cloud_works_def by blast+
  have tags: "tag_calls_calm R (site_view U)"
    by (rule client_tags_calm [OF wired meta builds calls]) (simp_all add: through_def seen_def)
  show ?thesis
    unfolding api_works_def H client_interface_def Interface.select_convs
    by (intro conjI tags; intro allI impI; (erule (1) create | erule (2) adopt | erule (2) get | erule (1) missing))
qed

section \<open>A changed spec and a deletion through the client\<close>

text \<open>The SDK's calls for a share that changes, and for one that is deleted, as Growth and Teardown have them of the API.\<close>

definition cloud_changes :: "('w, 'r, 'c, 'h) SDK \<Rightarrow> ('w, disk) view \<Rightarrow> bool" where
  "cloud_changes S U \<longleftrightarrow>
     (\<forall>h d w r w'. vw_fs U w = Some d \<longrightarrow> sdk_ShowShare S h (dk_Id d) w = (r, w') \<longrightarrow>
        vw_cr U w' = vw_cr U w \<and> vw_fs U w' = Some (after_poll (dk_Job d) d)
        \<and> (\<exists>resp st. r = Inr (Some resp) \<and> rs_Status resp = Some st \<and> \<not> IsErrored st \<and> (dk_Job d = Steady \<longrightarrow> IsAvailable st)
             \<and> (IsAvailable st \<longrightarrow> shows_share (cr_Spec (vw_cr U w)) (dk_Size d) resp
                  \<and> value_or_zero (rs_SecurityGroupId resp) [] = dk_Group d
                  \<and> (IsSgChangeInFlight (value_or_zero (rs_SubStatus resp) []) \<longleftrightarrow> (\<exists>g k. dk_Job d = Switching g k)))))
   \<and> (\<forall>h d n w r w'. vw_fs U w = Some d \<longrightarrow> dk_Job d = Steady \<longrightarrow> sint (dk_Size d) < sint n \<longrightarrow>
        sdk_ExpandShare S h (dk_Id d) n w = (r, w') \<longrightarrow>
        r = None \<and> vw_cr U w' = vw_cr U w \<and> (\<exists>k. vw_fs U w' = Some (d\<lparr>dk_Job := Growing n k\<rparr>)))
   \<and> (\<forall>h d g w r w'. vw_fs U w = Some d \<longrightarrow> dk_Job d = Steady \<longrightarrow> sdk_ChangeSecurityGroup S h (dk_Id d) g w = (r, w') \<longrightarrow>
        r = None \<and> vw_cr U w' = vw_cr U w \<and> (\<exists>k. vw_fs U w' = Some (d\<lparr>dk_Job := Switching g k\<rparr>)))
   \<and> (\<forall>h i. calm (seen U) (\<lambda>_. True) (sdk_ShowSharedTags S h i))
   \<and> (\<forall>h i k v. calm (seen U) (\<lambda>_. True) (sdk_CreateSharedTag S h i k v))
   \<and> (\<forall>h i k. calm (seen U) (\<lambda>_. True) (sdk_DeleteSharedTag S h i k))"

definition cloud_deletes :: "('w, 'r, 'c, 'h) SDK \<Rightarrow> string \<Rightarrow> 'w doom \<Rightarrow> bool" where
  "cloud_deletes S i D \<longleftrightarrow>
     (\<forall>h w r w'. sdk_ShowShare S h i w = (r, w') \<longrightarrow> dm_cr D w' = dm_cr D w \<and> (case dm_fs D w of
          Present \<Rightarrow> (\<exists>resp. r = Inr (Some resp)) \<and> dm_fs D w' = Present
        | Going 0 \<Rightarrow> (\<exists>e. r = Inl e \<and> isNotFound e) \<and> dm_fs D w' = Going 0
        | Going (Suc n) \<Rightarrow> (\<exists>resp. r = Inr (Some resp)) \<and> dm_fs D w' = Going n
        | Untold \<Rightarrow> True))
   \<and> (\<forall>h w r w'. dm_fs D w = Present \<longrightarrow> sdk_DeleteShare S h i w = (r, w') \<longrightarrow>
        r = None \<and> dm_cr D w' = dm_cr D w \<and> (\<exists>n. dm_fs D w' = Going n))"

definition site_doom :: "'w doom \<Rightarrow> ('w, 'r, 'h) site doom" where
  "site_doom D = \<lparr>dm_cr = (\<lambda>s. dm_cr D (outside s)), dm_fs = (\<lambda>s. if client_ok s then dm_fs D (outside s) else Untold)\<rparr>"

lemma client_api_changes:
  assumes wired: "wired S M R" and cloud: "cloud_changes S U" and meta: "metadata_works M (seen U)" and builds: "sdk_builds S"
  shows "api_changes R (disk_view U)"
proof -
  have H: "Huawei R = client_interface S M" using wired by (simp add: wired_def)
  have same: "vw_cr U w' = vw_cr U w \<and> vw_fs U w' = vw_fs U w" if "seen U w' = seen U w" for w w'
    using that by (simp add: seen_def)
  have ok: "client_ok s \<and> vw_fs U (outside s) = Some d" if "vw_fs (disk_view U) s = Some d" for s :: "('a, 'b, 'd) site" and d
    using that by (auto simp: through_def split: if_splits)
  have get: "vw_cr (disk_view U) s' = vw_cr (disk_view U) s \<and> vw_fs (disk_view U) s' = Some (after_poll (dk_Job d) d)
      \<and> (\<exists>info. r = Inr info \<and> shows_disk (cr_Spec (vw_cr (disk_view U) s)) d info)"
    if fs: "vw_fs (disk_view U) s = Some d" and run: "run_state (Client_Get S M (dk_Id d)) s = (r, s')" for s r s' d
  proof -
    obtain h v a where m: "sdk_ShowShare S h (dk_Id d) v = (a, outside s')" "seen U v = seen U (outside s)" "client_ok s'"
      and r: "r = (case a of Inl e \<Rightarrow> Inl (Errorf (''ShowShare('' @ dk_Id d @ ''): '') (classify e) [])
        | Inr None \<Rightarrow> Inl (OtherError ''ShowShare returned nil response'') | Inr (Some resp) \<Rightarrow> Inr (share_info (dk_Id d) resp))"
      by (rule method_runs [OF meta builds _ run [unfolded method_defs]]) (use ok [OF fs] in simp)
    from cloud [unfolded cloud_changes_def, THEN conjunct1, rule_format, OF _ m(1)] same [OF m(2)] ok [OF fs]
    obtain resp st where resp: "a = Inr (Some resp)" "rs_Status resp = Some st" "\<not> IsErrored st" "dk_Job d = Steady \<longrightarrow> IsAvailable st"
      and shown: "IsAvailable st \<Longrightarrow> shows_share (cr_Spec (vw_cr U (outside s))) (dk_Size d) resp
        \<and> value_or_zero (rs_SecurityGroupId resp) [] = dk_Group d
        \<and> (IsSgChangeInFlight (value_or_zero (rs_SubStatus resp) []) \<longleftrightarrow> (\<exists>g k. dk_Job d = Switching g k))"
      and w: "vw_cr U (outside s') = vw_cr U (outside s)" "vw_fs U (outside s') = Some (after_poll (dk_Job d) d)" by auto
    have st: "si_Status (share_info (dk_Id d) resp) = st"
      "si_SecurityGroupId (share_info (dk_Id d) resp) = value_or_zero (rs_SecurityGroupId resp) []"
      "si_SubStatus (share_info (dk_Id d) resp) = value_or_zero (rs_SubStatus resp) []"
      using resp(2) by (simp_all add: share_info_def value_or_zero_def)
    have "shows_disk (cr_Spec (vw_cr U (outside s))) d (share_info (dk_Id d) resp)"
    proof (cases "IsAvailable st")
      case True
      from shown [OF True] have "shows_share (cr_Spec (vw_cr U (outside s))) (dk_Size d) resp" by blast
      from shown [OF True] share_shown [OF this] st True show ?thesis by (simp add: shows_disk_def available_as_def)
    next
      case False
      with resp(3,4) st(1) show ?thesis by (auto simp: shows_disk_def)
    qed
    with w m(3) resp(1) show ?thesis by (simp add: r through_def)
  qed
  have expand: "r = None \<and> vw_cr (disk_view U) s' = vw_cr (disk_view U) s
      \<and> (\<exists>k. vw_fs (disk_view U) s' = Some (d\<lparr>dk_Job := Growing n k\<rparr>))"
    if fs: "vw_fs (disk_view U) s = Some d" "dk_Job d = Steady" "sint (dk_Size d) < sint n"
      and run: "run_state (Client_Expand S M (dk_Id d) n) s = (r, s')" for s r s' d n
  proof -
    obtain h v a where m: "sdk_ExpandShare S h (dk_Id d) n v = (a, outside s')" "seen U v = seen U (outside s)" "client_ok s'"
      and r: "r = wrapped (''ExpandShare('' @ dk_Id d @ '', '' @ format_d (sint n) @ '' GiB): '') a"
      by (rule method_runs [OF meta builds _ run [unfolded method_defs]]) (use ok [OF fs(1)] in simp)
    from cloud [unfolded cloud_changes_def, THEN conjunct2, THEN conjunct1, rule_format, OF _ fs(2,3) m(1)] same [OF m(2)] ok [OF fs(1)]
    show ?thesis using m(3) by (auto simp: r wrapped_def through_def)
  qed
  have switch: "r = None \<and> vw_cr (disk_view U) s' = vw_cr (disk_view U) s
      \<and> (\<exists>k. vw_fs (disk_view U) s' = Some (d\<lparr>dk_Job := Switching g k\<rparr>))"
    if fs: "vw_fs (disk_view U) s = Some d" "dk_Job d = Steady"
      and run: "run_state (Client_ChangeSecurityGroup S M (dk_Id d) g) s = (r, s')" for s r s' d g
  proof -
    obtain h v a where m: "sdk_ChangeSecurityGroup S h (dk_Id d) g v = (a, outside s')" "seen U v = seen U (outside s)" "client_ok s'"
      and r: "r = wrapped (''ChangeSecurityGroup('' @ dk_Id d @ '', '' @ g @ ''): '') a"
      by (rule method_runs [OF meta builds _ run [unfolded method_defs]]) (use ok [OF fs(1)] in simp)
    from cloud [unfolded cloud_changes_def, THEN conjunct2, THEN conjunct2, THEN conjunct1, rule_format, OF _ fs(2) m(1)]
      same [OF m(2)] ok [OF fs(1)]
    show ?thesis using m(3) by (auto simp: r wrapped_def through_def)
  qed
  have "tag_calls_calm R (disk_view U)"
    by (rule client_tags_calm [OF wired meta builds]) (use cloud in \<open>simp_all add: cloud_changes_def through_def seen_def\<close>)
  then show ?thesis
    unfolding api_changes_def using get expand switch by (simp add: H client_interface_def)
qed

lemma client_api_deletes:
  assumes wired: "wired S M R" and cloud: "cloud_deletes S i D" and meta: "metadata_works M (doom_of D)" and builds: "sdk_builds S"
  shows "api_deletes R i (site_doom D)"
proof -
  have H: "Huawei R = client_interface S M" using wired by (simp add: wired_def)
  have same: "dm_cr D w' = dm_cr D w \<and> dm_fs D w' = dm_fs D w" if "doom_of D w' = doom_of D w" for w w'
    using that by (simp add: doom_of_def)
  have get: "dm_cr (site_doom D) s' = dm_cr (site_doom D) s \<and> (case dm_fs (site_doom D) s of
          Present \<Rightarrow> (\<exists>info. r = Inr info) \<and> dm_fs (site_doom D) s' = Present
        | Going 0 \<Rightarrow> (\<exists>e. r = Inl e \<and> is_ErrFsNotFound e) \<and> dm_fs (site_doom D) s' = Going 0
        | Going (Suc n) \<Rightarrow> (\<exists>info. r = Inr info) \<and> dm_fs (site_doom D) s' = Going n
        | Untold \<Rightarrow> True)"
    if run: "run_state (Client_Get S M i) s = (r, s')" for s r s'
  proof (cases "client_ok s")
    case True
    obtain h v a where m: "sdk_ShowShare S h i v = (a, outside s')" "doom_of D v = doom_of D (outside s)" "client_ok s'"
      and r: "r = (case a of Inl e \<Rightarrow> Inl (Errorf (''ShowShare('' @ i @ ''): '') (classify e) [])
        | Inr None \<Rightarrow> Inl (OtherError ''ShowShare returned nil response'') | Inr (Some resp) \<Rightarrow> Inr (share_info i resp))"
      by (rule method_runs [OF meta builds True run [unfolded method_defs]])
    from cloud [unfolded cloud_deletes_def, THEN conjunct1, rule_format, OF m(1)] same [OF m(2)] True m(3)
    show ?thesis
      by (auto simp: r site_doom_def is_ErrFsNotFound_classify split: share_state.splits nat.splits)
  next
    case False
    with run show ?thesis by (simp add: method_defs no_client site_doom_def)
  qed
  have delete: "r = None \<and> dm_cr (site_doom D) s' = dm_cr (site_doom D) s \<and> (\<exists>n. dm_fs (site_doom D) s' = Going n)"
    if fs: "dm_fs (site_doom D) s = Present" and run: "run_state (Client_Delete S M i) s = (r, s')" for s r s'
  proof -
    have ok: "client_ok s" "dm_fs D (outside s) = Present" using fs by (auto simp: site_doom_def split: if_splits)
    obtain h v a where m: "sdk_DeleteShare S h i v = (a, outside s')" "doom_of D v = doom_of D (outside s)" "client_ok s'"
      and r: "r = wrapped (''DeleteShare('' @ i @ ''): '') a"
      by (rule method_runs [OF meta builds ok(1) run [unfolded method_defs]])
    from cloud [unfolded cloud_deletes_def, THEN conjunct2, rule_format, OF _ m(1)] same [OF m(2)] ok(2)
    show ?thesis using m(3) by (auto simp: r wrapped_def site_doom_def)
  qed
  show ?thesis
    unfolding api_deletes_def using get delete by (simp add: H client_interface_def)
qed

section \<open>The operator\<close>

text \<open>What the Kubernetes client promises of the world outside, it promises through the client.\<close>

lemma run_askD: "run_state (ask op) s = (r, s') \<Longrightarrow> op (outside s) = (r, outside s') \<and> client_ok s' = client_ok s"
  by (auto simp: client_ok_def split: prod.splits)

lemma calm_ask:
  fixes look' :: "('w, 'r, 'h) site \<Rightarrow> 'v"
  assumes "calm look good op" and "\<And>s s'. client_ok s' = client_ok s \<Longrightarrow> look (outside s') = look (outside s) \<Longrightarrow> look' s' = look' s"
  shows "calm look' good (run_state (ask op))"
  unfolding calm_def
proof (intro allI impI)
  fix s s' :: "('w, 'r, 'h) site" and r
  assume "run_state (ask op) s = (r, s')"
  from run_askD [OF this] have "op (outside s) = (r, outside s')" "client_ok s' = client_ok s" by simp_all
  with calmD [OF assms(1) this(1)] assms(2) show "good r \<and> look' s' = look' s" by blast
qed

lemma calm_through: "calm (seen U) good op \<Longrightarrow> calm (seen (through z U)) good (run_state (ask op))"
  by (erule calm_ask) (simp add: seen_def through_def)

lemma operator_server:
  assumes "server_works R req U"
  shows "server_works (operator R S M) req (through z U)"
proof -
  note calm = assms [unfolded server_works_def, THEN conjunct2, THEN conjunct2, THEN conjunct2]
  show ?thesis
    unfolding server_works_def
  proof (intro conjI)
    show "\<forall>w r w'. kGetCR (Reconciler.Client (operator R S M)) req w = (r, w') \<longrightarrow>
        r = Inr (vw_cr (through z U) w) \<and> seen (through z U) w' = seen (through z U) w"
      using assms [unfolded server_works_def, THEN conjunct1]
      by (fastforce simp: operator_def through_def seen_def dest!: run_askD simp del: run_ask)
    show "\<forall>fs w r w'. kUpdateCR (Reconciler.Client (operator R S M)) (vw_cr (through z U) w\<lparr>cr_Finalizers := fs\<rparr>) w = (r, w') \<longrightarrow>
        r = Inr (vw_cr (through z U) w\<lparr>cr_Finalizers := fs, cr_Spec := stored_spec (cr_Spec (vw_cr (through z U) w))\<rparr>)
        \<and> Inr (vw_cr (through z U) w') = r \<and> vw_fs (through z U) w' = vw_fs (through z U) w"
      using assms [unfolded server_works_def, THEN conjunct2, THEN conjunct1]
      by (fastforce simp: operator_def through_def dest!: run_askD simp del: run_ask)
    show "\<forall>x w r w'. same_object x (vw_cr (through z U) w) \<longrightarrow> kStatusUpdate (Reconciler.Client (operator R S M)) x w = (r, w') \<longrightarrow>
        r = Inr (vw_cr (through z U) w\<lparr>cr_Status := stored_status (cr_Status x)\<rparr>)
        \<and> Inr (vw_cr (through z U) w') = r \<and> vw_fs (through z U) w' = vw_fs (through z U) w"
      using assms [unfolded server_works_def, THEN conjunct2, THEN conjunct2, THEN conjunct1]
      by (fastforce simp: operator_def through_def dest!: run_askD simp del: run_ask)
  qed (use calm in \<open>auto simp: operator_def simp del: run_ask intro!: calm_through\<close>)
qed

lemma calm_doom: "calm (doom_of D) good op \<Longrightarrow> calm (doom_of (site_doom D)) good (run_state (ask op))"
  by (erule calm_ask) (simp add: doom_of_def site_doom_def)

lemma operator_releases:
  assumes "server_releases R req D"
  shows "server_releases (operator R S M) req (site_doom D)"
proof -
  note calm = assms [unfolded server_releases_def, THEN conjunct2, THEN conjunct2, THEN conjunct2]
  show ?thesis
    unfolding server_releases_def
  proof (intro conjI)
    show "\<forall>w r w'. kGetCR (Reconciler.Client (operator R S M)) req w = (r, w') \<longrightarrow> doom_of (site_doom D) w' = doom_of (site_doom D) w
        \<and> (case dm_cr (site_doom D) w of Some cr \<Rightarrow> r = Inr cr
            | None \<Rightarrow> (\<exists>e. r = Inl e \<and> IsNotFound (Lib (operator R S M)) e))"
    proof (intro allI impI)
      fix s r s'
      assume "kGetCR (Reconciler.Client (operator R S M)) req s = (r, s')"
      then have "run_state (ask (kGetCR (Reconciler.Client R) req)) s = (r, s')" by (simp add: operator_def del: run_ask)
      from run_askD [OF this] have op: "kGetCR (Reconciler.Client R) req (outside s) = (r, outside s')"
        and "client_ok s' = client_ok s" by simp_all
      with assms [unfolded server_releases_def, THEN conjunct1, rule_format, OF op]
      show "doom_of (site_doom D) s' = doom_of (site_doom D) s \<and> (case dm_cr (site_doom D) s of Some cr \<Rightarrow> r = Inr cr
            | None \<Rightarrow> (\<exists>e. r = Inl e \<and> IsNotFound (Lib (operator R S M)) e))"
        by (simp add: site_doom_def doom_of_def split: option.splits)
    qed
    show "\<forall>x cr w r w'. dm_cr (site_doom D) w = Some cr \<longrightarrow> kStatusUpdate (Reconciler.Client (operator R S M)) x w = (r, w') \<longrightarrow>
        r = Inr (cr\<lparr>cr_Status := stored_status (cr_Status x)\<rparr>)
        \<and> doom_of (site_doom D) w' = (Some (cr\<lparr>cr_Status := stored_status (cr_Status x)\<rparr>), dm_fs (site_doom D) w)"
      using assms [unfolded server_releases_def, THEN conjunct2, THEN conjunct1]
      by (fastforce simp: operator_def site_doom_def doom_of_def dest!: run_askD simp del: run_ask)
    show "\<forall>cr fs w r w'. dm_cr (site_doom D) w = Some cr \<longrightarrow>
        kUpdateCR (Reconciler.Client (operator R S M)) (cr\<lparr>cr_Finalizers := fs\<rparr>) w = (r, w') \<longrightarrow>
        (let y = cr\<lparr>cr_Finalizers := fs, cr_Spec := stored_spec (cr_Spec cr)\<rparr>
         in r = Inr y \<and> doom_of (site_doom D) w' = (if fs = [] then None else Some y, dm_fs (site_doom D) w))"
      using assms [unfolded server_releases_def, THEN conjunct2, THEN conjunct2, THEN conjunct1]
      by (fastforce simp: operator_def site_doom_def doom_of_def Let_def dest!: run_askD simp del: run_ask)
  qed (use calm in \<open>auto simp: operator_def simp del: run_ask intro!: calm_doom\<close>)
qed

text \<open>A client is constructed from \<open>NewClient\<close> on, whatever its methods did since.\<close>

lemma client_stays_ok:
  assumes "NewClient S quote cfg = Inr c" and "client_steps S M \<lparr>outside = w, client = c\<rparr> s"
  shows "client_ok s"
proof (rule ok.steps_keep [OF assms(2)])
  show "client_ok \<lparr>outside = w, client = c\<rparr>"
    using assms(1) by (auto simp: NewClient_def client_ok_def split: sum.split_asm if_splits)
qed

text \<open>
  C3. From the environment's credentials to a CR that is Ready. Take a client that \<open>NewClient\<close> made, static or
  pod-bound, whatever its methods did since; a metadata service that answers; an SDK whose calls make the share they are asked for, or refuse
  its name and list it, and show it, after some (any) number of polls, as available and as it was asked for, its size as a text, and
  do not know another id that the CR has; an API server that stores what it is sent. Then from any state of the CR the passes of the operator reach a point
  where the CR says Ready for that share; every pass before asks to be called again and fails at nothing, and every later pass
  succeeds and leaves the CR ready.
\<close>

theorem operator_becomes_ready:
  assumes "NewClient S quote cfg = Inr c" and "client_steps S M \<lparr>outside = w0, client = c\<rparr> s"
    and "cloud_works S U" and "metadata_works M (seen U)" and "sdk_builds S"
    and "server_works R req U" and "finalizer_laws (Lib R)"
    and "wanted (Lib R) (vw_cr U (outside s))" and "\<And>n. vw_fs U (outside s) \<noteq> Some ([], n)"
  shows "\<exists>n. (\<forall>k<n. asks_again (outcome_of (operator R S M) req s k))
    \<and> (\<forall>m\<ge>n. outcome_of (operator R S M) req s m = (no_requeue, None)
         \<and> ready (site_view U) (world_after (operator R S M) req s (Suc m)))"
  by (rule settles [OF operator_server [OF assms(6)] client_api_works [OF operator_wired assms(3-5)]])
    (use assms(7-9) client_stays_ok [OF assms(1,2)] in \<open>simp_all add: through_def\<close>)

text \<open>
  A changed spec is reached through the client: with the SDK's calls as the ones that expand the share, change its group and show
  it, the passes of the operator over the tracked CR end as in \<open>changed_spec_is_reached\<close>.
\<close>

lemma operator_reaches_changed_spec:
  assumes "NewClient S quote cfg = Inr c" and "client_steps S M \<lparr>outside = w0, client = c\<rparr> s"
    and "cloud_changes S U" and "metadata_works M (seen U)" and "sdk_builds S" and "server_works R req U"
    and "vw_fs U (outside s) = Some d" and "dk_Job d = Steady" and "dk_Id d \<noteq> []"
    and "wanted (Lib R) (vw_cr U (outside s))" and "protected (Lib R) (vw_cr U (outside s))"
    and "st_FsId (cr_Status (vw_cr U (outside s))) = dk_Id d" and "wf_conditions (vw_cr U (outside s))"
    and "0 < sint (dk_Size d)" and "sint (dk_Size d) \<le> sint (sp_Size (cr_Spec (vw_cr U (outside s))))"
    and "\<not> hasConditionTrue (vw_cr U (outside s)) ConditionExpanding"
  shows "\<exists>n. (\<forall>k<n. asks_again (outcome_of (operator R S M) req s k))
    \<and> (\<forall>m\<ge>n. outcome_of (operator R S M) req s m = (no_requeue, None)
         \<and> grown (disk_view U) (world_after (operator R S M) req s (Suc m)))"
  by (rule reaches_spec [OF operator_server [OF assms(6)] client_api_changes [OF operator_wired assms(3-5)]])
    (use assms(7-16) client_stays_ok [OF assms(1,2)] in \<open>simp_all add: through_def\<close>)

text \<open>
  C6. The teardown ends through the client: with the SDK's calls as the ones that delete the share and show it until it
  is gone, and a 404 then, the passes of the operator over a CR under deletion end as in \<open>tears_down\<close>.
\<close>

theorem operator_tears_down:
  assumes "NewClient S quote cfg = Inr c" and "client_steps S M \<lparr>outside = w0, client = c\<rparr> s"
    and "cloud_deletes S (st_FsId (cr_Status cr)) D" and "metadata_works M (doom_of D)" and "sdk_builds S"
    and "server_releases R req D" and "finalizer_laws (Lib R)"
    and "dm_cr D (outside s) = Some cr" and "dm_fs D (outside s) = Present" and "tearing_down (Lib R) cr"
    and "\<not> hasConditionTrue cr ConditionDeleting"
  shows "\<exists>n. (\<forall>k<n. asks_again (outcome_of (operator R S M) req s k))
    \<and> (\<forall>m\<ge>n. outcome_of (operator R S M) req s m = (no_requeue, None)
         \<and> released (site_doom D) (world_after (operator R S M) req s (Suc m)))"
  by (rule tears_down [OF operator_releases [OF assms(6)] client_api_deletes [OF operator_wired assms(3-5)]])
    (use assms(7-11) client_stays_ok [OF assms(1,2)] in \<open>simp_all add: site_doom_def\<close>)

section \<open>Concrete clouds\<close>

text \<open>
  The clusters of Convergence, Growth and Teardown with the SDK's calls in place of their Huawei API. The sizes come as texts with
  a fraction, the credentials from the metadata service.
\<close>

definition demo_cloud :: "(SfsTurboInstance \<times> (string \<times> nat) option, string, string \<times> string, string) SDK" where
  "demo_cloud = demo_sdk\<lparr>
     sdk_CreateShare := (\<lambda>_ _ w. case snd w of
         None \<Rightarrow> (Inr (Some ''fs-1''), (fst w, Some (''fs-1'', 2)))
       | Some x \<Rightarrow> (Inl (ServiceResponseError 409 ''SFS.TURBO.0009'' ''exists''), w)),
     sdk_ListShares := (\<lambda>_ w. (Inr (Some (case snd w of
         None \<Rightarrow> []
       | Some (j, n) \<Rightarrow> [demo_listing j (sp_FsName (cr_Spec (fst w)))])), w)),
     sdk_ShowShare := (\<lambda>_ i w. case snd w of
         None \<Rightarrow> (Inl (ServiceResponseError 404 ''gone'' ''gone''), w)
       | Some (j, n) \<Rightarrow> if i = j then
           (Inr (Some (let sp = cr_Spec (fst w) in demo_response\<lparr>
             rs_Status := Some (if n = 0 then ''200'' else ''100''),
             rs_ExportLocation := Some ''ip:/'', rs_Size := Some (format_d (sint (sp_Size sp)) @ ''.0''),
             rs_SecurityGroupId := Some (sp_SecurityGroupId sp), rs_CryptKeyId := Some (sp_CryptKeyId sp)\<rparr>)),
             (fst w, Some (j, n - 1)))
         else (Inl (ServiceResponseError 404 ''gone'' ''gone''), w))\<rparr>"

definition demo_disk_cloud :: "(SfsTurboInstance \<times> disk option, string, string \<times> string, string) SDK" where
  "demo_disk_cloud = demo_sdk\<lparr>
     sdk_ShowShare := (\<lambda>_ i w. case snd w of
         None \<Rightarrow> (Inl (ServiceResponseError 404 ''gone'' ''gone''), w)
       | Some d \<Rightarrow> (Inr (Some (demo_response\<lparr>
           rs_Status := Some (case dk_Job d of Growing n k \<Rightarrow> ''121'' | _ \<Rightarrow> ''200''), rs_ExportLocation := Some ''ip:/'', rs_Size := Some (format_d (sint (dk_Size d)) @ ''.0''),
           rs_SubStatus := (case dk_Job d of Switching g k \<Rightarrow> Some SubStatusSgChanging | _ \<Rightarrow> None),
           rs_SecurityGroupId := Some (dk_Group d), rs_CryptKeyId := Some (sp_CryptKeyId (cr_Spec (fst w)))\<rparr>)),
           (fst w, Some (after_poll (dk_Job d) d)))),
     sdk_ExpandShare := (\<lambda>_ _ n w. (None, (fst w, map_option (\<lambda>d. d\<lparr>dk_Job := Growing n 1\<rparr>) (snd w)))),
     sdk_ChangeSecurityGroup := (\<lambda>_ _ g w. (None, (fst w, map_option (\<lambda>d. d\<lparr>dk_Job := Switching g 1\<rparr>) (snd w))))\<rparr>"

definition demo_doom_cloud :: "(SfsTurboInstance option \<times> share_state, string, string \<times> string, string) SDK" where
  "demo_doom_cloud = demo_sdk\<lparr>
     sdk_ShowShare := (\<lambda>_ i w. case snd w of
         Present \<Rightarrow> (Inr (Some demo_response), w)
       | Going (Suc n) \<Rightarrow> (Inr (Some demo_response), (fst w, Going n))
       | _ \<Rightarrow> (Inl (ServiceResponseError 404 ''gone'' ''gone''), w)),
     sdk_DeleteShare := (\<lambda>_ _ w. (None, (fst w, Going 3)))\<rparr>"

lemma demo_fraction: "\<not> is_digit (hd ''.0'')"
  by (simp add: is_digit_def)

lemma demo_cloud_works: "cloud_works demo_cloud demo_view"
  unfolding cloud_works_def missing_id_def using demo_fraction demo_taken
  by (auto simp: demo_cloud_def demo_sdk_def demo_view_def demo_response_def demo_listing_def seen_def calm_def shows_as_asked_def
      shows_share_def Let_def value_or_zero_def IsAvailable_def IsErrored_def isNotFound_def split: option.splits)

lemma demo_disk_cloud_changes: "cloud_changes demo_disk_cloud demo_disk_view"
  unfolding cloud_changes_def using demo_fraction
  by (auto simp: demo_disk_cloud_def demo_sdk_def demo_disk_view_def demo_response_def seen_def calm_def shows_share_def
      value_or_zero_def IsAvailable_def IsErrored_def IsSgChangeInFlight_def SubStatusSgChanging_def split: job.splits)

lemma demo_doom_cloud_deletes: "cloud_deletes demo_doom_cloud i demo_doom"
  unfolding cloud_deletes_def
  by (auto simp: demo_doom_cloud_def demo_sdk_def demo_doom_def isNotFound_def split: share_state.splits nat.splits)

lemma demo_builds: "sdk_builds demo_cloud" "sdk_builds demo_disk_cloud" "sdk_builds demo_doom_cloud"
  by (simp_all add: sdk_builds_def demo_cloud_def demo_disk_cloud_def demo_doom_cloud_def demo_sdk_def)

text \<open>The client of the demo configuration, in pod-agency mode, and where it starts.\<close>

definition demo_first :: "'w \<Rightarrow> ('w, string, string) site" where
  "demo_first w = \<lparr>outside = w, client = \<lparr>cl_cfg = demo_config, cl_region = ''ap-southeast-1'',
     cl_podAgency = Some NewPodAgencyProvider, cl_sdk = None\<rparr>\<rparr>"

lemma demo_new_client:
  "NewClient demo_cloud (\<lambda>s. s) demo_config = Inr (client (demo_first w))"
  "NewClient demo_disk_cloud (\<lambda>s. s) demo_config = Inr (client (demo_first w))"
  "NewClient demo_doom_cloud (\<lambda>s. s) demo_config = Inr (client (demo_first w))"
  by (simp_all add: NewClient_def demo_cloud_def demo_disk_cloud_def demo_doom_cloud_def demo_sdk_def demo_config_def
      PodAgencyMode_def demo_first_def)

lemma demo_steps: "client_steps S M \<lparr>outside = outside (demo_first w), client = client (demo_first w)\<rparr> (demo_first w)"
  by (simp add: demo_first_def)

definition demo_service :: "'w Metadata" where
  "demo_service = demo_metadata (900 * second) (Inr (200, Inr demo_body))"

lemma demo_metadata_works: "metadata_works (demo_service :: 'w Metadata) look"
proof -
  let ?M = "demo_service :: 'w Metadata"
  have stamp: "valid_stamp 1970 1 1 1 15 0 0" by (simp add: valid_stamp_def daysIn_def)
  have "plain ''AK2''" "plain ''SK2''" "plain ''T2''" by (simp_all add: plain_def)
  from Unmarshal_documented [OF this plain_stamp [OF stamp]] have "Unmarshal demo_body =
      Some \<lparr>mp_Access = ''AK2'', mp_Secret = ''SK2'', mp_SecurityToken = ''T2'', mp_ExpiresAt = stamp 1970 1 1 1 15 0 0\<rparr>"
    by (simp add: demo_body_def)
  moreover have "\<exists>e. parseExpiresAt ?M (stamp 1970 1 1 1 15 0 0) = Inr e"
    unfolding parseExpiresAt_def parse_stamp [OF stamp] by simp
  moreover have "NewRequest ?M u = None" "Do ?M t u w = (Inr (200, Inr demo_body), w)" "snd (Clock ?M w) = w" for t u w
    by (simp_all add: demo_service_def demo_metadata_def)
  ultimately show ?thesis unfolding metadata_works_def calm_def by (auto simp: prod_eq_iff)
qed

theorem operator_becomes_ready_witness:
  "\<exists>n. ready (site_view demo_view)
     (world_after (operator demo_cluster demo_cloud demo_service) demo_req (demo_first (demo_confused, Some (''fs-1'', 1))) n)"
proof -
  let ?s = "demo_first (demo_confused, Some (''fs-1'', 1))"
  have "finalizer_laws (Lib demo_cluster)" using demo_library_laws by (simp add: demo_cluster_def)
  moreover have "wanted (Lib demo_cluster) (vw_cr demo_view (outside ?s))"
    by (simp add: demo_first_def demo_cluster_def demo_view_def demo_confused_def demo_new_def demo_defs wanted_def deleting_def
        timestamp_IsZero_def wf_map_def)
  moreover have "\<And>n. vw_fs demo_view (outside ?s) \<noteq> Some ([], n)" by (simp add: demo_first_def demo_view_def)
  ultimately show ?thesis
    using operator_becomes_ready [OF demo_new_client(1) demo_steps demo_cloud_works demo_metadata_works demo_builds(1) demo_server_works]
    by blast
qed

lemma operator_reaches_changed_spec_example:
  "\<exists>n. grown (disk_view demo_disk_view)
     (world_after (operator demo_changing demo_disk_cloud demo_service) demo_req (demo_first (demo_asking, Some demo_disk)) n)"
proof -
  let ?s = "demo_first (demo_asking, Some demo_disk)"
  have view: "vw_fs demo_disk_view (outside ?s) = Some demo_disk" "vw_cr demo_disk_view (outside ?s) = demo_asking"
    by (simp_all add: demo_disk_view_def demo_first_def)
  have d: "dk_Job demo_disk = Steady" "dk_Id demo_disk \<noteq> []" "0 < sint (dk_Size demo_disk)"
    "sint (dk_Size demo_disk) \<le> sint (sp_Size (cr_Spec demo_asking))"
    by (simp_all add: demo_disk_def demo_asking_def)
  have "wanted (Lib demo_changing) demo_asking" "protected (Lib demo_changing) demo_asking"
    by (simp_all add: demo_changing_def demo_asking_def demo_defs wanted_def protected_def deleting_def timestamp_IsZero_def wf_map_def)
  moreover have "st_FsId (cr_Status demo_asking) = dk_Id demo_disk" "wf_conditions demo_asking"
    "\<not> hasConditionTrue demo_asking ConditionExpanding"
    by (simp_all add: demo_asking_def demo_disk_def demo_defs wf_conditions_def hasConditionTrue_def)
  ultimately show ?thesis
    using operator_reaches_changed_spec [OF demo_new_client(2) demo_steps demo_disk_cloud_changes demo_metadata_works demo_builds(2)
        demo_changing_server view(1) d(1,2), unfolded view(2)] d(3,4)
    by blast
qed

theorem operator_tears_down_witness:
  "\<exists>n. released (site_doom demo_doom)
     (world_after (operator demo_deletion demo_doom_cloud demo_service) demo_req (demo_first (Some demo_doomed, Present)) n)"
proof -
  let ?s = "demo_first (Some demo_doomed, Present)"
  have "finalizer_laws (Lib demo_deletion)" using demo_library_laws by (simp add: demo_deletion_def)
  moreover have "dm_cr demo_doom (outside ?s) = Some demo_doomed" "dm_fs demo_doom (outside ?s) = Present"
    by (simp_all add: demo_doom_def demo_first_def)
  moreover have "tearing_down (Lib demo_deletion) demo_doomed" and "\<not> hasConditionTrue demo_doomed ConditionDeleting"
    by (simp_all add: demo_deletion_def demo_defs demo_time_def tearing_down_def deleting_def protected_def
        timestamp_IsZero_def time_IsZero_def second_def hasConditionTrue_def)
  ultimately show ?thesis
    using operator_tears_down [OF demo_new_client(3) demo_steps demo_doom_cloud_deletes demo_metadata_works demo_builds(3) demo_releases]
    by blast
qed

end
