(* ===== verification/Workers.thy ===== *)
theory Workers
  imports Client
begin

text \<open>
  Several goroutines in \<open>ensureSDK\<close> at once (internal/huawei/client.go, podagency.go): the two mutexes \<open>c.mu\<close> and
  \<open>p.mu\<close>, the steps between two accesses to shared state, and their interleavings. The relation of the
  interleaved steps refines the atomic runs of \<open>Client.ensureSDK\<close>; \<open>Reset\<close>, which takes \<open>p.mu\<close> only, does not.
\<close>

section \<open>Answers as a world\<close>

text \<open>
  What one call gets from outside: the readings of the clock and the metadata service's answer. \<open>answering M\<close> is \<open>M\<close> with
  these for a world, so a run over it is a run of the code with these answers.
\<close>

record answers =
  an_times :: "gtime list"
  an_reply :: "err + int \<times> (err + string)"

definition answering :: "'w Metadata \<Rightarrow> answers Metadata" where
  "answering M = \<lparr>NewRequest = NewRequest M, Do = (\<lambda>_ _ a. (an_reply a, a)), JsonError = JsonError M,
     TimeError = TimeError M, Format = Format M, Quote = Quote M,
     Clock = (\<lambda>a. case an_times a of [] \<Rightarrow> (\<lparr>wall = 0, mono = None\<rparr>, a) | t # ts \<Rightarrow> (t, a\<lparr>an_times := ts\<rparr>))\<rparr>"

section \<open>A goroutine between two steps\<close>

text \<open>
  Where a goroutine stands, with its local variables: \<open>Idle\<close> outside of a call; \<open>Entered\<close> before \<open>c.mu.Lock()\<close>;
  \<open>InGet\<close> to \<open>AtGetUnlock\<close> inside \<open>podAgency.Get\<close> (\<open>AtCache\<close> to \<open>AtGetUnlock\<close> with \<open>p.mu\<close>); \<open>AtCheck\<close> and
  \<open>AtDeref\<close> at the condition of the rebuild, whose first two reads and whose last one are two steps; \<open>AtUnlock\<close>
  before the deferred \<open>c.mu.Unlock()\<close>; \<open>Returned\<close> with the handle in hand. \<open>AtReset\<close> and \<open>InReset\<close> are \<open>Reset\<close>.
\<close>

datatype 'h pc =
    Idle
  | Entered
  | InGet
  | AtGetLock gtime
  | AtCache gtime
  | AtFetch gtime
  | AtStore gtime "err + PodAgencyCreds"
  | AtGetUnlock "PodAgencyCreds option" "err option"
  | AtCheck "PodAgencyCreds option" "err option"
  | AtDeref "PodAgencyCreds option"
  | AtBuild "PodAgencyCreds option"
  | AtUnlock "err + 'h"
  | Returned "err + 'h"
  | AtReset
  | InReset

text \<open>The handle a method gets: the use of a nil one is the panic \<open>nil_pointer\<close>, as in \<open>ensureSDK\<close>.\<close>

definition handle_or_nil :: "'h option \<Rightarrow> err + 'h" where
  "handle_or_nil sdk = (case sdk of Some h \<Rightarrow> Inr h | None \<Rightarrow> Inl nil_pointer)"

text \<open>
  The steps of \<open>Get\<close> that take or release no mutex, with the clock's reading \<open>t\<close> and the answers \<open>x\<close> to \<open>fetch\<close>;
  \<open>None\<close> where the next step is another one.
\<close>

fun get_step :: "'w Metadata \<Rightarrow> gtime \<Rightarrow> answers \<Rightarrow> PodAgencyProvider \<Rightarrow> ('r, 'h) Client \<Rightarrow> 'h pc
    \<Rightarrow> ('h pc \<times> ('r, 'h) Client) option" where
  "get_step M t x p c InGet = Some (AtGetLock (time_UTC t), c)"
| "get_step M t x p c (AtCache n) =
     (if (case pp_cache p of Some k \<Rightarrow> \<not> needsRefresh k n | None \<Rightarrow> False)
      then Some (AtGetUnlock (pp_cache p) None, c) else Some (AtFetch n, c))"
| "get_step M t x p c (AtFetch n) = Some (AtStore n (fst (fetch (answering M) p x)), c)"
| "get_step M t x p c (AtStore n r) = (case r of
       Inr fresh \<Rightarrow> Some (AtGetUnlock (Some fresh) None, c\<lparr>cl_podAgency := Some (p\<lparr>pp_cache := Some fresh\<rparr>)\<rparr>)
     | Inl e \<Rightarrow> (case pp_cache p of
         Some k \<Rightarrow>
           if \<not> IsExpired k n then
             Some (AtGetUnlock (Some k) (Some (Errorf (''metadata refresh failed; using cached creds expiring at ''
               @ Format M (pc_ExpiresAt k) @ '': '') e [])), c)
           else Some (AtGetUnlock None (Some e), c)
       | None \<Rightarrow> Some (AtGetUnlock None (Some e), c)))"
| "get_step M t x p c _ = None"

text \<open>The steps of \<open>ensureSDK\<close> after \<open>Get\<close>, likewise.\<close>

fun sdk_step :: "('v, 'r, 'c, 'h) SDK \<Rightarrow> PodAgencyProvider \<Rightarrow> ('r, 'h) Client \<Rightarrow> 'h pc \<Rightarrow> ('h pc \<times> ('r, 'h) Client) option" where
  "sdk_step S p c (AtCheck creds e) = (case (e, creds) of
       (Some y, None) \<Rightarrow> Some (AtUnlock (Inl (Errorf ''pod-agency: '' y [])), c)
     | _ \<Rightarrow> if cl_sdk c = None \<or> pp_cache p = None then Some (AtBuild creds, c) else Some (AtDeref creds, c))"
| "sdk_step S p c (AtDeref creds) = (case pp_cache p of
       None \<Rightarrow> Some (AtUnlock (Inl nil_pointer), c)
     | Some k \<Rightarrow> if pc_AccessKey k \<noteq> credsAK creds then Some (AtBuild creds, c)
         else Some (AtUnlock (handle_or_nil (cl_sdk c)), c))"
| "sdk_step S p c (AtBuild creds) = (case creds of
       None \<Rightarrow> Some (AtUnlock (Inl nil_pointer), c)
     | Some k \<Rightarrow> (case build_sdk S ''build pod-agency credentials: '' (cl_region c)
           (staticCredentialsFor (sdk_BuildCredentials S) (cl_cfg c)
              (pc_AccessKey k) (pc_SecretKey k) (pc_SecurityToken k)) of
           Inl y \<Rightarrow> Some (AtUnlock (Inl y), c)
         | Inr h \<Rightarrow> Some (AtUnlock (Inr h), c\<lparr>cl_sdk := Some h\<rparr>)))"
| "sdk_step S p c _ = None"

definition work :: "('v, 'r, 'c, 'h) SDK \<Rightarrow> 'w Metadata \<Rightarrow> gtime \<Rightarrow> answers \<Rightarrow> PodAgencyProvider \<Rightarrow> ('r, 'h) Client \<Rightarrow> 'h pc
    \<Rightarrow> ('h pc \<times> ('r, 'h) Client) option" where
  "work S M t x p c l = (case get_step M t x p c l of None \<Rightarrow> sdk_step S p c l | Some lc \<Rightarrow> Some lc)"

declare work_def [simp]

section \<open>Interleavings\<close>

text \<open>The shared client, the owners of the two mutexes, and where every goroutine stands.\<close>

record ('r, 'h) workers =
  w_client :: "('r, 'h) Client"
  w_cmu :: "nat option"
  w_pmu :: "nat option"
  w_pc :: "nat \<Rightarrow> 'h pc"

definition moves :: "nat \<Rightarrow> 'h pc \<Rightarrow> ('r, 'h) workers \<Rightarrow> ('r, 'h) workers" where
  "moves i l s = s\<lparr>w_pc := (w_pc s)(i := l)\<rparr>"

text \<open>A step inside of a call.\<close>

inductive inner :: "('v, 'r, 'c, 'h) SDK \<Rightarrow> 'w Metadata \<Rightarrow> ('r, 'h) workers \<Rightarrow> ('r, 'h) workers \<Rightarrow> bool"
  for S M where
  inner_static: "w_pc s i = Entered \<Longrightarrow> cl_podAgency (w_client s) = None \<Longrightarrow>
    inner S M s (moves i (Returned (handle_or_nil (cl_sdk (w_client s)))) s)"
| inner_lock: "w_pc s i = Entered \<Longrightarrow> cl_podAgency (w_client s) \<noteq> None \<Longrightarrow> w_cmu s = None \<Longrightarrow>
    inner S M s (moves i InGet (s\<lparr>w_cmu := Some i\<rparr>))"
| inner_get_lock: "w_pc s i = AtGetLock n \<Longrightarrow> w_pmu s = None \<Longrightarrow>
    inner S M s (moves i (AtCache n) (s\<lparr>w_pmu := Some i\<rparr>))"
| inner_work: "cl_podAgency (w_client s) = Some p \<Longrightarrow> work S M t x p (w_client s) (w_pc s i) = Some (l, c) \<Longrightarrow>
    inner S M s (moves i l (s\<lparr>w_client := c\<rparr>))"
| inner_get_unlock: "w_pc s i = AtGetUnlock creds e \<Longrightarrow>
    inner S M s (moves i (AtCheck creds e) (s\<lparr>w_pmu := None\<rparr>))"
| inner_unlock: "w_pc s i = AtUnlock r \<Longrightarrow> inner S M s (moves i (Returned r) (s\<lparr>w_cmu := None\<rparr>))"
| inner_reset_lock: "w_pc s i = AtReset \<Longrightarrow> w_pmu s = None \<Longrightarrow> inner S M s (moves i InReset (s\<lparr>w_pmu := Some i\<rparr>))"
| inner_reset: "w_pc s i = InReset \<Longrightarrow> cl_podAgency (w_client s) = Some p \<Longrightarrow>
    inner S M s (moves i Idle (s\<lparr>w_pmu := None, w_client := (w_client s)\<lparr>cl_podAgency := Some (Reset p)\<rparr>\<rparr>))"

text \<open>A goroutine enters a call, or is done with the handle; \<open>resets\<close>: whether any goroutine calls \<open>Reset\<close>.\<close>

inductive wstep :: "('v, 'r, 'c, 'h) SDK \<Rightarrow> 'w Metadata \<Rightarrow> bool \<Rightarrow> ('r, 'h) workers \<Rightarrow> ('r, 'h) workers \<Rightarrow> bool"
  for S M resets where
  wstep_inner: "inner S M s s' \<Longrightarrow> wstep S M resets s s'"
| wstep_call: "w_pc s i = Idle \<Longrightarrow> wstep S M resets s (moves i Entered s)"
| wstep_done: "w_pc s i = Returned r \<Longrightarrow> wstep S M resets s (moves i Idle s)"
| wstep_Reset: "resets \<Longrightarrow> w_pc s i = Idle \<Longrightarrow> cl_podAgency (w_client s) \<noteq> None \<Longrightarrow> wstep S M resets s (moves i AtReset s)"

abbreviation wsteps where
  "wsteps S M resets \<equiv> (wstep S M resets)\<^sup>*\<^sup>*"

definition at_start :: "('r, 'h) Client \<Rightarrow> ('r, 'h) workers" where
  "at_start c = \<lparr>w_client = c, w_cmu = None, w_pmu = None, w_pc = (\<lambda>_. Idle)\<rparr>"

lemma moves_simps [simp]:
  "w_client (moves i l s) = w_client s" "w_cmu (moves i l s) = w_cmu s" "w_pmu (moves i l s) = w_pmu s"
  "w_pc (moves i l s) = (w_pc s)(i := l)"
  by (simp_all add: moves_def)

lemma at_start_simps [simp]:
  "w_client (at_start c) = c" "w_cmu (at_start c) = None" "w_pmu (at_start c) = None" "w_pc (at_start c) = (\<lambda>_. Idle)"
  by (simp_all add: at_start_def)

section \<open>The mutexes\<close>

text \<open>Between which steps a goroutine holds \<open>c.mu\<close> and \<open>p.mu\<close>.\<close>

fun holds_cmu :: "'h pc \<Rightarrow> bool" where
  "holds_cmu Idle = False"
| "holds_cmu Entered = False"
| "holds_cmu (Returned _) = False"
| "holds_cmu AtReset = False"
| "holds_cmu InReset = False"
| "holds_cmu _ = True"

fun holds_pmu :: "'h pc \<Rightarrow> bool" where
  "holds_pmu (AtCache _) = True"
| "holds_pmu (AtFetch _) = True"
| "holds_pmu (AtStore _ _) = True"
| "holds_pmu (AtGetUnlock _ _) = True"
| "holds_pmu InReset = True"
| "holds_pmu _ = False"

text \<open>A mutex is owned by the goroutine that stands where it is held; inside of a call that needs it the provider is there.\<close>

definition seated :: "('r, 'h) workers \<Rightarrow> nat \<Rightarrow> bool" where
  "seated s i \<longleftrightarrow> holds_cmu (w_pc s i) = (w_cmu s = Some i) \<and> holds_pmu (w_pc s i) = (w_pmu s = Some i)
     \<and> (holds_cmu (w_pc s i) \<or> w_pc s i \<in> {AtReset, InReset} \<longrightarrow> cl_podAgency (w_client s) \<noteq> None)"

definition locked_well :: "('r, 'h) workers \<Rightarrow> bool" where
  "locked_well s \<longleftrightarrow> (\<forall>i. seated s i)"

lemma work_holds:
  assumes "work S M t x p c l = Some (l', c')"
  shows "holds_cmu l" "holds_cmu l'" "holds_pmu l' = holds_pmu l" "l' \<noteq> AtReset" "l' \<noteq> InReset"
    and "cl_podAgency c \<noteq> None \<Longrightarrow> cl_podAgency c' \<noteq> None"
  using assms by (cases l; force simp: work_def split: option.splits if_splits sum.splits prod.splits)+

lemma inner_locked_well:
  assumes "inner S M s s'" and "locked_well s"
  shows "locked_well s'"
  unfolding locked_well_def
proof
  fix j
  have each: "seated s i" for i using assms(2) by (simp add: locked_well_def)
  from assms(1) show "seated s' j"
  proof cases
    case (inner_work p t x i l c)
    with work_holds [OF inner_work(3)] each [of i] each [of j] show ?thesis by (auto simp: seated_def)
  next
    case (inner_static i)
    with each [of i] each [of j] show ?thesis by (auto simp: seated_def)
  next
    case (inner_lock i)
    with each [of i] each [of j] show ?thesis by (auto simp: seated_def)
  next
    case (inner_get_lock i)
    with each [of i] each [of j] show ?thesis by (auto simp: seated_def)
  next
    case (inner_get_unlock i)
    with each [of i] each [of j] show ?thesis by (auto simp: seated_def)
  next
    case (inner_unlock i)
    with each [of i] each [of j] show ?thesis by (auto simp: seated_def)
  next
    case (inner_reset_lock i)
    with each [of i] each [of j] show ?thesis by (auto simp: seated_def)
  next
    case (inner_reset i)
    with each [of i] each [of j] show ?thesis by (auto simp: seated_def)
  qed
qed

lemma wstep_locked_well:
  assumes "wstep S M resets s s'" and "locked_well s"
  shows "locked_well s'"
proof (cases "inner S M s s'")
  case True
  then show ?thesis using assms(2) by (rule inner_locked_well)
next
  case False
  have each: "seated s i" for i using assms(2) by (simp add: locked_well_def)
  have "seated s' j" for j
    using assms(1)
  proof cases
    case (wstep_call i)
    with each [of i] each [of j] show ?thesis by (auto simp: seated_def)
  next
    case (wstep_done i)
    with each [of i] each [of j] show ?thesis by (auto simp: seated_def)
  next
    case (wstep_Reset i)
    with each [of i] each [of j] show ?thesis by (auto simp: seated_def)
  qed (use False in simp)
  then show ?thesis by (simp add: locked_well_def)
qed

lemma at_start_locked_well: "locked_well (at_start c)"
  by (simp add: locked_well_def seated_def)

lemma wsteps_locked_well: "wsteps S M resets (at_start c) s \<Longrightarrow> locked_well s"
  by (induction rule: rtranclp_induct) (auto intro: wstep_locked_well at_start_locked_well)

section \<open>No deadlock\<close>

text \<open>A goroutine outside of every call; and how many steps of its own are left to one inside, at most.\<close>

definition at_rest :: "'h pc \<Rightarrow> bool" where
  "at_rest l \<longleftrightarrow> (case l of Idle \<Rightarrow> True | Returned _ \<Rightarrow> True | _ \<Rightarrow> False)"

fun steps_left :: "'h pc \<Rightarrow> nat" where
  "steps_left Idle = 0"
| "steps_left (Returned _) = 0"
| "steps_left (AtUnlock _) = 1"
| "steps_left (AtBuild _) = 2"
| "steps_left (AtDeref _) = 3"
| "steps_left (AtCheck _ _) = 4"
| "steps_left (AtGetUnlock _ _) = 5"
| "steps_left (AtStore _ _) = 6"
| "steps_left (AtFetch _) = 7"
| "steps_left (AtCache _) = 8"
| "steps_left (AtGetLock _) = 9"
| "steps_left InGet = 10"
| "steps_left Entered = 11"
| "steps_left InReset = 1"
| "steps_left AtReset = 2"

lemma at_rest_iff: "at_rest l \<longleftrightarrow> steps_left l = 0"
  by (cases l) (simp_all add: at_rest_def)

lemma steps_left_le: "steps_left l \<le> 11"
  by (cases l) simp_all

lemma work_advances:
  assumes "work S M t x p c l = Some (l', c')"
  shows "steps_left l' < steps_left l"
  using assms by (cases l; force simp: work_def split: option.splits if_splits sum.splits prod.splits)

lemma inner_advances:
  assumes "inner S M s s'"
  shows "\<exists>i l. w_pc s' = (w_pc s)(i := l) \<and> steps_left l < steps_left (w_pc s i)"
  using assms by cases (use work_advances in fastforce)+

definition busy :: "('r, 'h) workers \<Rightarrow> nat set" where
  "busy s = {i. \<not> at_rest (w_pc s i)}"

definition work_left :: "('r, 'h) workers \<Rightarrow> nat" where
  "work_left s = (\<Sum>i \<in> busy s. steps_left (w_pc s i))"

lemma work_left_le: "work_left s \<le> 11 * card (busy s)"
  unfolding work_left_def
  using sum_bounded_above [of "busy s" "\<lambda>i. steps_left (w_pc s i)" 11, OF steps_left_le] by (simp add: mult.commute)

lemma inner_uses_up:
  assumes "inner S M s s'" and "finite (busy s)"
  shows "work_left s' < work_left s" and "finite (busy s')" and "busy s' \<subseteq> busy s"
proof -
  obtain i l where step: "w_pc s' = (w_pc s)(i := l)" "steps_left l < steps_left (w_pc s i)"
    using inner_advances [OF assms(1)] by blast
  from step show sub: "busy s' \<subseteq> busy s" by (auto simp: busy_def at_rest_iff)
  with assms(2) show "finite (busy s')" by (rule finite_subset [rotated])
  have "i \<in> busy s" using step(2) by (simp add: busy_def at_rest_iff)
  have "work_left s' = (\<Sum>j \<in> busy s. steps_left (w_pc s' j))"
    unfolding work_left_def
    by (rule sum.mono_neutral_left [OF assms(2) sub]) (simp add: busy_def at_rest_iff)
  also have "\<dots> < work_left s"
    unfolding work_left_def
    by (rule sum_strict_mono_ex1 [OF assms(2)]) (use step \<open>i \<in> busy s\<close> in auto)
  finally show "work_left s' < work_left s" .
qed

lemma inners_use_up:
  assumes "(inner S M ^^ k) s t" and "finite (busy s)"
  shows "k + work_left t \<le> work_left s"
  using assms
proof (induction k arbitrary: t)
  case (Suc k)
  then obtain u where u: "(inner S M ^^ k) s u" "inner S M u t" by auto
  have "finite (busy u)"
    using u(1) Suc.prems(2)
    by (induction k arbitrary: u) (auto dest: inner_uses_up(2))
  from inner_uses_up(1) [OF u(2) this] Suc.IH [OF u(1) Suc.prems(2)] show ?case by simp
qed simp

text \<open>Only as many goroutines are inside of a call as have entered one.\<close>

lemma wsteps_finite: "wsteps S M resets (at_start c) s \<Longrightarrow> finite (busy s)"
proof (induction rule: rtranclp_induct)
  case base
  show ?case by (simp add: busy_def at_rest_def)
next
  case (step s s')
  have more: "finite (busy (moves i l s))" for i l
    using step.IH by (rule finite_subset [OF _ finite.insertI [of _ i], rotated]) (auto simp: busy_def)
  from step(2) show ?case by cases (use step.IH more in \<open>auto dest: inner_uses_up(2)\<close>)
qed

text \<open>The owner of a mutex can always go on: \<open>p.mu\<close> is asked for with \<open>c.mu\<close> in hand, never the other way round.\<close>

lemma work_stops_at:
  assumes "holds_cmu l" and "work S M t x p c l = None"
  shows "(\<exists>n. l = AtGetLock n) \<or> (\<exists>creds e. l = AtGetUnlock creds e) \<or> (\<exists>r. l = AtUnlock r)"
  using assms by (cases l; force simp: work_def split: option.splits if_splits sum.splits prod.splits)

lemma owner_goes_on:
  assumes "seated s i" and "holds_cmu (w_pc s i) \<or> w_pc s i = InReset" and "w_pmu s = None \<or> w_pmu s = Some i"
  shows "\<exists>s'. inner S M s s'"
proof -
  from assms(1,2) obtain p where p: "cl_podAgency (w_client s) = Some p" by (auto simp: seated_def)
  fix t x
  show ?thesis
  proof (cases "work S M t x p (w_client s) (w_pc s i)")
    case (Some lc)
    then show ?thesis using inner_work [of s p S M t x i "fst lc" "snd lc"] p by auto
  next
    case None
    have "w_pmu s = None" if "w_pc s i = AtGetLock n" for n using assms(1,3) that by (auto simp: seated_def)
    with None assms(2) p work_stops_at [OF _ None] show ?thesis
      by (metis inner_get_lock inner_get_unlock inner_unlock inner_reset)
  qed
qed

lemma owner_of_pmu_goes_on:
  assumes "locked_well s" and "w_pmu s = Some i"
  shows "\<exists>s'. inner S M s s'"
proof -
  from assms have "holds_pmu (w_pc s i)" and "seated s i" by (auto simp: locked_well_def seated_def)
  with assms(2) show ?thesis by (intro owner_goes_on [of s i]) (cases "w_pc s i"; simp)+
qed

lemma owner_of_cmu_goes_on:
  assumes "locked_well s" and "w_cmu s = Some i"
  shows "\<exists>s'. inner S M s s'"
proof (cases "w_pmu s")
  case (Some j)
  with assms(1) show ?thesis by (rule owner_of_pmu_goes_on)
next
  case None
  from assms have "holds_cmu (w_pc s i)" and "seated s i" by (auto simp: locked_well_def seated_def)
  with None show ?thesis by (blast intro: owner_goes_on)
qed

lemma some_goroutine_goes_on:
  assumes "locked_well s" and "\<not> at_rest (w_pc s i)"
  shows "\<exists>s'. inner S M s s'"
proof (cases "w_cmu s = None \<and> w_pmu s = None")
  case False
  with assms(1) show ?thesis using owner_of_cmu_goes_on owner_of_pmu_goes_on by (metis option.exhaust)
next
  case True
  with assms(1) have "\<not> holds_cmu (w_pc s i)" "\<not> holds_pmu (w_pc s i)" by (auto simp: locked_well_def seated_def)
  with assms(2) have "w_pc s i = Entered \<or> w_pc s i = AtReset" by (cases "w_pc s i") (simp_all add: at_rest_def)
  with True show ?thesis by (metis inner_static inner_lock inner_reset_lock)
qed

section \<open>Calls as if one at a time\<close>

text \<open>The contract: a call enters, runs \<open>ensureSDK\<close> in one step with some answers, and is done.\<close>

datatype 'h phase = Resting | Calling | Answered "err + 'h"

record ('r, 'h) atomic =
  at_client :: "('r, 'h) Client"
  at_phase :: "nat \<Rightarrow> 'h phase"

inductive astep :: "(answers, 'r, 'c, 'h) SDK \<Rightarrow> 'w Metadata \<Rightarrow> ('r, 'h) atomic \<Rightarrow> ('r, 'h) atomic \<Rightarrow> bool"
  for S M where
  astep_call: "at_phase a i = Resting \<Longrightarrow> astep S M a (a\<lparr>at_phase := (at_phase a)(i := Calling)\<rparr>)"
| astep_run: "at_phase a i = Calling \<Longrightarrow>
    run_state (ensureSDK S (answering M)) \<lparr>outside = x, client = at_client a\<rparr> = (r, s) \<Longrightarrow>
    astep S M a \<lparr>at_client = client s, at_phase = (at_phase a)(i := Answered r)\<rparr>"
| astep_done: "at_phase a i = Answered r \<Longrightarrow> astep S M a (a\<lparr>at_phase := (at_phase a)(i := Resting)\<rparr>)"

abbreviation asteps where
  "asteps S M \<equiv> (astep S M)\<^sup>*\<^sup>*"

fun phase_of :: "'h pc \<Rightarrow> 'h phase" where
  "phase_of Idle = Resting"
| "phase_of AtReset = Resting"
| "phase_of InReset = Resting"
| "phase_of (Returned r) = Answered r"
| "phase_of _ = Calling"

text \<open>
  How far the owner of \<open>c.mu\<close> has come: the shared client \<open>c\<close> is the one the call found, \<open>c0\<close>, with what the part of
  \<open>ensureSDK\<close> before this step changes.
\<close>

definition refreshes :: "PodAgencyProvider \<Rightarrow> gtime \<Rightarrow> bool" where
  "refreshes p n \<longleftrightarrow> (case pp_cache p of Some k \<Rightarrow> needsRefresh k n | None \<Rightarrow> True) \<and> (\<exists>t. n = time_UTC t)"

definition got :: "'w Metadata \<Rightarrow> ('r, 'h) Client \<Rightarrow> ('r, 'h) Client \<Rightarrow> PodAgencyCreds option \<Rightarrow> err option
    \<Rightarrow> PodAgencyProvider \<Rightarrow> answers \<Rightarrow> bool" where
  "got M c0 c creds e p x \<longleftrightarrow> (\<exists>p0 x'. cl_podAgency c0 = Some p0 \<and> PodAgency_Get (answering M) p0 x = ((creds, e), p, x'))
     \<and> c = c0\<lparr>cl_podAgency := Some p\<rparr>"

fun progress :: "(answers, 'r, 'c, 'h) SDK \<Rightarrow> 'w Metadata \<Rightarrow> ('r, 'h) Client \<Rightarrow> ('r, 'h) Client \<Rightarrow> 'h pc \<Rightarrow> bool" where
  "progress S M c0 c InGet = (c = c0)"
| "progress S M c0 c (AtGetLock n) = (c = c0 \<and> (\<exists>t. n = time_UTC t))"
| "progress S M c0 c (AtCache n) = (c = c0 \<and> (\<exists>t. n = time_UTC t))"
| "progress S M c0 c (AtFetch n) = (c = c0 \<and> (\<exists>p. cl_podAgency c0 = Some p \<and> refreshes p n))"
| "progress S M c0 c (AtStore n r) =
     (c = c0 \<and> (\<exists>p x. cl_podAgency c0 = Some p \<and> refreshes p n \<and> r = fst (fetch (answering M) p x)))"
| "progress S M c0 c (AtGetUnlock creds e) = (\<exists>p x. got M c0 c creds e p x)"
| "progress S M c0 c (AtCheck creds e) = (\<exists>p x. got M c0 c creds e p x)"
| "progress S M c0 c (AtDeref creds) = (\<exists>p x e. got M c0 c creds e p x
     \<and> (e = None \<or> creds \<noteq> None) \<and> cl_sdk c0 \<noteq> None \<and> pp_cache p \<noteq> None)"
| "progress S M c0 c (AtBuild creds) = (\<exists>p x e. got M c0 c creds e p x
     \<and> (e = None \<or> creds \<noteq> None) \<and> must_rebuild (cl_sdk c0) p creds)"
| "progress S M c0 c (AtUnlock r) = (\<exists>x s. run_state (ensureSDK S (answering M)) \<lparr>outside = x, client = c0\<rparr> = (r, s) \<and> c = client s)"
| "progress S M c0 c _ = False"

lemma same_agency: "cl_podAgency c = Some p \<Longrightarrow> c = c\<lparr>cl_podAgency := Some p\<rparr>"
  by (cases c) simp

lemma get_cached:
  assumes "cl_podAgency c = Some p" and "pp_cache p = Some k" and "\<not> needsRefresh k (time_UTC t)"
  shows "\<exists>x. got M c c (Some k) None p x"
proof
  show "got M c c (Some k) None p \<lparr>an_times = [t], an_reply = Inl nil_pointer\<rparr>"
    using assms same_agency [OF assms(1)] by (simp add: got_def PodAgency_Get_def answering_def)
qed

lemma get_fetched:
  assumes "cl_podAgency c = Some p" and "refreshes p n" and "fetch (answering M) p x = (r, z)"
    and "work S M t x' p c (AtStore n r) = Some (AtGetUnlock creds e, c')"
  shows "\<exists>q y. got M c c' creds e q y"
proof -
  from assms(2) obtain t' where n: "n = time_UTC t'" by (auto simp: refreshes_def)
  have "Clock (answering M) (x\<lparr>an_times := t' # an_times x\<rparr>) = (t', x)" "Format (answering M) = Format M"
    by (simp_all add: answering_def)
  with assms n same_agency [OF assms(1)]
  have "got M c c' creds e (case r of Inr fresh \<Rightarrow> p\<lparr>pp_cache := Some fresh\<rparr> | Inl _ \<Rightarrow> p) (x\<lparr>an_times := t' # an_times x\<rparr>)"
    by (cases r) (auto simp: got_def PodAgency_Get_def refreshes_def split: option.splits if_splits)
  then show ?thesis by blast
qed

lemma got_run:
  assumes "got M c0 c creds e p x" and "e = None \<or> creds \<noteq> None"
  shows "\<exists>x'. run_state (ensureSDK S (answering M)) \<lparr>outside = x, client = c0\<rparr> =
    (if must_rebuild (cl_sdk c0) p creds then
       (case creds of None \<Rightarrow> (Inl nil_pointer, \<lparr>outside = x', client = c\<rparr>)
        | Some k \<Rightarrow> (case build_sdk S ''build pod-agency credentials: '' (cl_region c0)
             (staticCredentialsFor (sdk_BuildCredentials S) (cl_cfg c0) (pc_AccessKey k) (pc_SecretKey k) (pc_SecurityToken k)) of
           Inl y \<Rightarrow> (Inl y, \<lparr>outside = x', client = c\<rparr>)
         | Inr h \<Rightarrow> (Inr h, \<lparr>outside = x', client = c\<lparr>cl_sdk := Some h\<rparr>\<rparr>)))
     else (handle_or_nil (cl_sdk c0), \<lparr>outside = x', client = c\<rparr>))"
  using assms
  by (auto simp: got_def ensureSDK_def ask_def handle_or_nil_def split: option.splits sum.splits)

lemma progress_unlock:
  "run_state (ensureSDK S (answering M)) \<lparr>outside = x, client = c0\<rparr> = (r, \<lparr>outside = x', client = c\<rparr>) \<Longrightarrow>
    progress S M c0 c (AtUnlock r)"
  by (auto intro!: exI [of _ x])

lemma work_progress:
  assumes "work S M t x p c l = Some (l', c')" and "cl_podAgency c = Some p" and "progress S M c0 c l"
  shows "progress S M c0 c' l'"
proof (cases l)
  case InGet
  with assms show ?thesis by auto
next
  case (AtCache n)
  with assms get_cached [of c p _ _ M] show ?thesis
    by (auto simp: refreshes_def split: option.splits if_splits) blast
next
  case (AtFetch n)
  with assms show ?thesis by auto
next
  case (AtStore n r)
  with assms(2,3) obtain y where y: "c = c0" "refreshes p n" "r = fst (fetch (answering M) p y)" by auto
  obtain w where "fetch (answering M) p y = (r, w)" using y(3) by (cases "fetch (answering M) p y") simp
  moreover obtain creds e where "l' = AtGetUnlock creds e"
    using assms(1) AtStore by (cases r) (auto split: option.splits if_splits)
  ultimately show ?thesis
    using get_fetched [of c p n M y r w S t x creds e c'] y assms(1,2) AtStore by simp
next
  case (AtCheck creds e)
  with assms(3) obtain q x where q: "got M c0 c creds e q x" by auto
  then have "q = p" "cl_sdk c = cl_sdk c0" using assms(2) by (auto simp: got_def)
  show ?thesis
  proof (cases "e = None \<or> creds \<noteq> None")
    case True
    with assms(1) AtCheck have "c' = c" and
      "if cl_sdk c = None \<or> pp_cache p = None then l' = AtBuild creds else l' = AtDeref creds"
      by (cases e; cases creds; auto split: if_splits)+
    moreover have "must_rebuild (cl_sdk c0) p creds" if "cl_sdk c = None \<or> pp_cache p = None"
      using that \<open>cl_sdk c = cl_sdk c0\<close> by (auto simp: must_rebuild_def)
    ultimately show ?thesis
      using q True unfolding \<open>q = p\<close> \<open>cl_sdk c = cl_sdk c0\<close>
      by (cases "cl_sdk c0 = None \<or> pp_cache p = None") (simp, blast)+
  next
    case False
    with q have "\<exists>x'. run_state (ensureSDK S (answering M)) \<lparr>outside = x, client = c0\<rparr> =
        (Inl (Errorf ''pod-agency: '' (the e) []), \<lparr>outside = x', client = c\<rparr>)"
      by (auto simp: got_def ensureSDK_def ask_def)
    then obtain x' where "run_state (ensureSDK S (answering M)) \<lparr>outside = x, client = c0\<rparr> =
        (Inl (Errorf ''pod-agency: '' (the e) []), \<lparr>outside = x', client = c\<rparr>)" ..
    from progress_unlock [OF this] assms(1) AtCheck False show ?thesis by (auto simp del: progress.simps)
  qed
next
  case (AtDeref creds)
  with assms(3) obtain q x e where q: "got M c0 c creds e q x" "e = None \<or> creds \<noteq> None"
    "cl_sdk c0 \<noteq> None" "pp_cache q \<noteq> None" by auto
  then have "q = p" "cl_sdk c = cl_sdk c0" using assms(2) by (auto simp: got_def)
  show ?thesis
  proof (cases "must_rebuild (cl_sdk c0) p creds")
    case True
    with q assms(1) AtDeref \<open>q = p\<close> have "l' = AtBuild creds" "c' = c"
      by (auto simp: must_rebuild_def split: option.splits if_splits)
    with q True \<open>q = p\<close> show ?thesis by (simp, blast)
  next
    case False
    with q assms(1) AtDeref \<open>q = p\<close> have l: "l' = AtUnlock (handle_or_nil (cl_sdk c))" "c' = c"
      by (auto simp: must_rebuild_def split: option.splits if_splits)
    from got_run [OF q(1,2), of S] False \<open>q = p\<close> \<open>cl_sdk c = cl_sdk c0\<close> obtain x' where
      "run_state (ensureSDK S (answering M)) \<lparr>outside = x, client = c0\<rparr> = (handle_or_nil (cl_sdk c), \<lparr>outside = x', client = c\<rparr>)"
      by auto
    from progress_unlock [OF this] show ?thesis unfolding l .
  qed
next
  case (AtBuild creds)
  with assms(3) obtain q x e where q: "got M c0 c creds e q x" "e = None \<or> creds \<noteq> None"
    "must_rebuild (cl_sdk c0) q creds" by auto
  then have "cl_region c = cl_region c0" "cl_cfg c = cl_cfg c0" by (auto simp: got_def)
  from got_run [OF q(1,2), of S] q(3) obtain x' where
    run: "run_state (ensureSDK S (answering M)) \<lparr>outside = x, client = c0\<rparr> = (case creds of
        None \<Rightarrow> (Inl nil_pointer, \<lparr>outside = x', client = c\<rparr>)
      | Some k \<Rightarrow> (case build_sdk S ''build pod-agency credentials: '' (cl_region c)
             (staticCredentialsFor (sdk_BuildCredentials S) (cl_cfg c) (pc_AccessKey k) (pc_SecretKey k) (pc_SecurityToken k)) of
           Inl y \<Rightarrow> (Inl y, \<lparr>outside = x', client = c\<rparr>)
         | Inr h \<Rightarrow> (Inr h, \<lparr>outside = x', client = c\<lparr>cl_sdk := Some h\<rparr>\<rparr>)))"
    unfolding \<open>cl_region c = cl_region c0\<close> \<open>cl_cfg c = cl_cfg c0\<close> by auto
  then have "progress S M c0 c' l'"
    using assms(1) AtBuild
    by (auto split: option.splits sum.splits intro: progress_unlock simp del: progress.simps)
  then show ?thesis .
qed (use assms in auto)

text \<open>The concrete state next to the atomic one. Inside of a call, the atomic client is the one the owner of \<open>c.mu\<close> found.\<close>

definition matches :: "(answers, 'r, 'c, 'h) SDK \<Rightarrow> 'w Metadata \<Rightarrow> ('r, 'h) workers \<Rightarrow> ('r, 'h) atomic \<Rightarrow> bool" where
  "matches S M s a \<longleftrightarrow> (\<forall>i. at_phase a i = phase_of (w_pc s i) \<and> w_pc s i \<noteq> AtReset \<and> w_pc s i \<noteq> InReset)
     \<and> (case w_cmu s of None \<Rightarrow> w_client s = at_client a | Some i \<Rightarrow> progress S M (at_client a) (w_client s) (w_pc s i))"

lemma work_phase: "work S M t x p c l = Some (l', c') \<Longrightarrow> phase_of l = Calling \<and> phase_of l' = Calling"
  by (cases l; force simp: work_def split: option.splits if_splits sum.splits prod.splits)

lemma run_static: "cl_podAgency c = None \<Longrightarrow>
    run_state (ensureSDK S M) \<lparr>outside = x, client = c\<rparr> = (handle_or_nil (cl_sdk c), \<lparr>outside = x, client = c\<rparr>)"
  by (simp add: ensureSDK_def handle_or_nil_def)

lemma inner_simulated:
  assumes "inner S M s s'" and "locked_well s" and "matches S M s a"
  shows "\<exists>a'. asteps S M a a' \<and> matches S M s' a'"
proof -
  have seat: "seated s i" for i using assms(2) by (simp add: locked_well_def)
  have phase: "at_phase a i = phase_of (w_pc s i)" and calm: "w_pc s i \<noteq> AtReset" "w_pc s i \<noteq> InReset" for i
    using assms(3) by (simp_all add: matches_def)
  have client: "w_cmu s = None \<Longrightarrow> w_client s = at_client a"
    and owner: "w_cmu s = Some i \<Longrightarrow> progress S M (at_client a) (w_client s) (w_pc s i)" for i
    using assms(3) by (simp_all add: matches_def)
  have stay: ?thesis if "matches S M s' a" using that by blast
  have run: ?thesis if "at_phase a i = Calling"
    and "run_state (ensureSDK S (answering M)) \<lparr>outside = x, client = at_client a\<rparr> = (r, u)"
    and "matches S M s' \<lparr>at_client = client u, at_phase = (at_phase a)(i := Answered r)\<rparr>" for i x r u
    using astep_run [OF that(1,2)] that(3) by blast
  from assms(1) show ?thesis
  proof cases
    case (inner_static i)
    then have "w_cmu s \<noteq> Some i" using seat [of i] by (auto simp: seated_def)
    have "w_cmu s = None"
    proof (cases "w_cmu s")
      case (Some j)
      with seat [of j] inner_static show ?thesis by (auto simp: seated_def)
    qed simp
    note c = client [OF this]
    show ?thesis
      by (rule run [of i, OF _ run_static]) (use inner_static phase calm c \<open>w_cmu s = None\<close> in \<open>auto simp: matches_def\<close>)
  next
    case (inner_lock i)
    then show ?thesis using phase calm client by (intro stay) (auto simp: matches_def)
  next
    case (inner_get_lock i n)
    with seat [of i] have "w_cmu s = Some i" by (simp add: seated_def)
    with owner [OF this] inner_get_lock show ?thesis using phase calm by (intro stay) (auto simp: matches_def)
  next
    case (inner_work p t x i l c)
    note w = work_holds [OF inner_work(3)]
    from w(1) seat [of i] have "w_cmu s = Some i" by (simp add: seated_def)
    with work_progress [OF inner_work(3,2) owner] work_phase [OF inner_work(3)] w inner_work(1) show ?thesis
      using phase calm by (intro stay) (auto simp: matches_def)
  next
    case (inner_get_unlock i creds e)
    with seat [of i] have "w_cmu s = Some i" by (simp add: seated_def)
    with owner [OF this] inner_get_unlock show ?thesis using phase calm by (intro stay) (auto simp: matches_def)
  next
    case (inner_unlock i r)
    with seat [of i] have "w_cmu s = Some i" by (simp add: seated_def)
    with owner [OF this] inner_unlock obtain x u where
      "run_state (ensureSDK S (answering M)) \<lparr>outside = x, client = at_client a\<rparr> = (r, u)" "w_client s = client u" by auto
    then show ?thesis
      by (intro run [of i x r u]) (use inner_unlock phase calm in \<open>auto simp: matches_def\<close>)
  qed (use calm in auto)
qed

lemma wstep_simulated:
  assumes "wstep S M False s s'" and "locked_well s" and "matches S M s a"
  shows "\<exists>a'. asteps S M a a' \<and> matches S M s' a'"
  using assms(1)
proof cases
  case wstep_inner
  then show ?thesis using assms(2,3) by (rule inner_simulated)
next
  case (wstep_call i)
  then have "astep S M a (a\<lparr>at_phase := (at_phase a)(i := Calling)\<rparr>)"
    using assms(3) by (intro astep_call) (simp add: matches_def)
  moreover have "w_cmu s \<noteq> Some i" using wstep_call assms(2) by (auto simp: locked_well_def seated_def)
  then have "matches S M s' (a\<lparr>at_phase := (at_phase a)(i := Calling)\<rparr>)"
    using wstep_call assms(3) by (auto simp: matches_def split: option.splits)
  ultimately show ?thesis by blast
next
  case (wstep_done i r)
  then have "astep S M a (a\<lparr>at_phase := (at_phase a)(i := Resting)\<rparr>)"
    using assms(3) by (intro astep_done) (simp add: matches_def)
  moreover have "w_cmu s \<noteq> Some i" using wstep_done assms(2) by (auto simp: locked_well_def seated_def)
  then have "matches S M s' (a\<lparr>at_phase := (at_phase a)(i := Resting)\<rparr>)"
    using wstep_done assms(3) by (auto simp: matches_def split: option.splits)
  ultimately show ?thesis by blast
qed simp

definition at_first :: "('r, 'h) Client \<Rightarrow> ('r, 'h) atomic" where
  "at_first c = \<lparr>at_client = c, at_phase = (\<lambda>_. Resting)\<rparr>"

lemma wsteps_simulated:
  "wsteps S M False (at_start c) s \<Longrightarrow> \<exists>a. asteps S M (at_first c) a \<and> matches S M s a"
proof (induction rule: rtranclp_induct)
  case base
  have "matches S M (at_start c) (at_first c)" by (simp add: matches_def at_first_def)
  then show ?case by blast
next
  case (step s s')
  then obtain a where a: "asteps S M (at_first c) a" "matches S M s a" by blast
  from wstep_simulated [OF step(2) wsteps_locked_well [OF step(1)] a(2)] obtain a' where
    "asteps S M a a'" "matches S M s' a'" by blast
  with a(1) show ?case by (meson rtranclp_trans)
qed

text \<open>Every run of \<open>ensureSDK\<close>, in any world, is a run with some answers: what the world said.\<close>

lemma run_has_answers:
  fixes S' :: "('w, 'r, 'c, 'h) SDK" and S :: "(answers, 'r, 'c, 'h) SDK"
  assumes "sdk_BuildCredentials S' = sdk_BuildCredentials S" and "sdk_Build S' = sdk_Build S"
    and "run_state (ensureSDK S' M) \<lparr>outside = w, client = c\<rparr> = (r, s)"
  shows "\<exists>x u. run_state (ensureSDK S (answering M)) \<lparr>outside = x, client = c\<rparr> = (r, u) \<and> client u = client s"
proof (cases "cl_podAgency c")
  case None
  with assms(3) show ?thesis by (auto simp: run_static)
next
  case (Some p)
  obtain t w1 where t: "Clock M w = (t, w1)" by fastforce
  obtain reply w2 where reply: "Do M (pp_Timeout p) (pp_url p) w1 = (reply, w2)" by fastforce
  obtain t2 w3 where t2: "Clock M w2 = (t2, w3)" by fastforce
  let ?x = "\<lparr>an_times = [t, t2], an_reply = reply\<rparr>" and ?y = "\<lparr>an_times = [t2], an_reply = reply\<rparr>"
  have "fst (fetch (answering M) p ?y) = fst (fetch M p w1)"
    by (simp add: fetch_def credsOf_def parseExpiresAt_def answering_def reply t2 split: sum.split option.split)
  then have "fst (PodAgency_Get (answering M) p ?x) = fst (PodAgency_Get M p w)
      \<and> fst (snd (PodAgency_Get (answering M) p ?x)) = fst (snd (PodAgency_Get M p w))"
    by (cases "fetch (answering M) p ?y"; cases "fetch M p w1")
      (auto simp: PodAgency_Get_def Let_def t answering_def [of M] split: sum.splits option.splits)
  then obtain creds e q w' x' where
    "PodAgency_Get (answering M) p ?x = ((creds, e), q, x')" "PodAgency_Get M p w = ((creds, e), q, w')"
    by (cases "PodAgency_Get (answering M) p ?x"; cases "PodAgency_Get M p w") auto
  moreover have "build_sdk S' = build_sdk S" unfolding build_sdk_def [abs_def] assms(2) ..
  ultimately show ?thesis
    using assms(1,3) Some
    by (intro exI [of _ ?x], cases e; cases creds)
      (auto simp: ensureSDK_def ask_def split: sum.splits option.splits if_splits)
qed

text \<open>Every handle that was handed out is the client's, and none is nil.\<close>

definition handed_out_well :: "('r, 'h) atomic \<Rightarrow> bool" where
  "handed_out_well a \<longleftrightarrow> (cl_podAgency (at_client a) \<noteq> None \<or> cl_sdk (at_client a) \<noteq> None)
     \<and> (\<forall>i r. at_phase a i = Answered r \<longrightarrow> r \<noteq> Inl nil_pointer \<and> (\<forall>h. r = Inr h \<longrightarrow> cl_sdk (at_client a) = Some h))"

lemma ensureSDK_returns_its_handle:
  assumes "run_state (ensureSDK S M) s = (Inr h, s')"
  shows "cl_sdk (client s') = Some h"
  using assms by (auto simp: ensureSDK_def split: option.splits sum.splits if_splits prod.splits)

lemma astep_handed_out_well:
  assumes "astep S M a a'" and "handed_out_well a"
  shows "handed_out_well a'"
  using assms(1)
proof cases
  case (astep_run i x r s)
  let ?s = "\<lparr>outside = x, client = at_client a\<rparr>"
  have "client_ok ?s" using assms(2) by (simp add: client_ok_def handed_out_well_def)
  with ensureSDK_keeps_ok [OF this, of S "answering M"] astep_run(3) have ok: "client_ok s" "r \<noteq> Inl nil_pointer" by simp_all
  moreover have "cl_sdk (client s) = Some h" if "cl_sdk (at_client a) = Some h" for h
    using ensureSDK_keeps_handle(1) [of h ?s S "answering M"] that astep_run(3) by (simp add: holds_handle_def)
  moreover have "cl_sdk (client s) = Some h" if "r = Inr h" for h
    using ensureSDK_returns_its_handle [of S "answering M" ?s h s] astep_run(3) that by simp
  ultimately show ?thesis
    using assms(2) astep_run(1) by (auto simp: handed_out_well_def client_ok_def split: if_splits)
qed (use assms(2) in \<open>auto simp: handed_out_well_def split: if_splits\<close>)

lemma asteps_handed_out_well: "asteps S M a a' \<Longrightarrow> handed_out_well a \<Longrightarrow> handed_out_well a'"
  by (induction rule: rtranclp_induct) (auto intro: astep_handed_out_well)

lemma NewClient_ok: "NewClient S quote cfg = Inr c \<Longrightarrow> cl_podAgency c \<noteq> None \<or> cl_sdk c \<noteq> None"
  by (auto simp: NewClient_def split: sum.splits if_splits)

section \<open>Properties\<close>

text \<open>
  C12. Several goroutines in \<open>ensureSDK\<close> at once get what they would have got one at a time. Every interleaving of
  their steps, with any answers of the clock and of the metadata service, leads to a state that calls run in one
  step each also reach: every goroutine has been answered the same, and while nobody holds \<open>c.mu\<close> the client is
  the same.
\<close>

theorem interleavings_are_atomic:
  assumes "wsteps S M False (at_start c) s"
  shows "\<exists>a. asteps S M (at_first c) a \<and> (\<forall>i. at_phase a i = phase_of (w_pc s i))
    \<and> (w_cmu s = None \<longrightarrow> at_client a = w_client s)"
  using wsteps_simulated [OF assms] by (auto simp: matches_def)

text \<open>
  C13. No deadlock, and no call that never returns. However goroutines that call \<open>ensureSDK\<close> and \<open>Reset\<close>
  were interleaved so far, those inside of a call take at most eleven further steps each before all of them are out,
  and as long as one is inside some goroutine can go on. (A call to the metadata service is one step: it has a timeout.)
\<close>

theorem calls_end:
  assumes "wsteps S M resets (at_start c) s"
  shows "finite (busy s) \<and> (\<forall>k t. (inner S M ^^ k) s t \<longrightarrow>
    k \<le> 11 * card (busy s) \<and> (busy t = {} \<or> (\<exists>u. inner S M t u)))"
proof (intro conjI allI impI)
  show fin: "finite (busy s)" by (rule wsteps_finite [OF assms])
  fix k t assume run: "(inner S M ^^ k) s t"
  then show "k \<le> 11 * card (busy s)"
    using inners_use_up [OF run fin] work_left_le [of s] by simp
  have "wsteps S M resets s t"
    using run by (induction k arbitrary: t) (auto intro: rtranclp.rtrancl_into_rtrancl wstep_inner)
  with assms have "locked_well t" by (meson rtranclp_trans wsteps_locked_well)
  then show "busy t = {} \<or> (\<exists>u. inner S M t u)"
    using some_goroutine_goes_on by (fastforce simp: busy_def)
qed

text \<open>
  C14. All workers use one handle. However many goroutines call the methods of one client
  concurrently, every two of them that \<open>ensureSDK\<close> gave a handle have the same one, and none of them has the
  nil handle, whose use would panic.
\<close>

theorem workers_share_one_handle:
  fixes S :: "(answers, 'r, 'c, 'h) SDK"
  assumes "NewClient S quote cfg = Inr c" and "wsteps S M False (at_start c) s" and "w_pc s i = Returned r"
  shows "r \<noteq> Inl nil_pointer \<and> (\<forall>j h h'. r = Inr h \<longrightarrow> w_pc s j = Returned (Inr h') \<longrightarrow> h' = h)"
proof -
  obtain a where a: "asteps S M (at_first c) a" "matches S M s a" using wsteps_simulated [OF assms(2)] by blast
  have "handed_out_well (at_first c)" using NewClient_ok [OF assms(1)] by (simp add: handed_out_well_def at_first_def)
  with a(1) have "handed_out_well a" by (rule asteps_handed_out_well)
  moreover have "at_phase a j = Answered r'" if "w_pc s j = Returned r'" for j r'
    using a(2) that by (simp add: matches_def)
  ultimately have out: "r' \<noteq> Inl nil_pointer \<and> (\<forall>h. r' = Inr h \<longrightarrow> cl_sdk (at_client a) = Some h)"
    if "w_pc s j = Returned r'" for j r'
    using that unfolding handed_out_well_def by blast
  show ?thesis using out [OF assms(3)] out by fastforce
qed

section \<open>Concrete interleavings\<close>

text \<open>Only goroutine 0 is inside of a call.\<close>

abbreviation alone :: "('r, 'h) Client \<Rightarrow> nat option \<Rightarrow> nat option \<Rightarrow> 'h pc \<Rightarrow> ('r, 'h) workers" where
  "alone c cmu pmu l \<equiv> \<lparr>w_client = c, w_cmu = cmu, w_pmu = pmu, w_pc = (\<lambda>_. Idle)(0 := l)\<rparr>"

lemma alone_steps:
  "wstep S M resets (alone c None None Idle) (alone c None None Entered)"
  "cl_podAgency c \<noteq> None \<Longrightarrow> wstep S M resets (alone c None None Entered) (alone c (Some 0) None InGet)"
  "wstep S M resets (alone c (Some 0) None (AtGetLock n)) (alone c (Some 0) (Some 0) (AtCache n))"
  "wstep S M resets (alone c (Some 0) (Some 0) (AtGetUnlock creds e)) (alone c (Some 0) None (AtCheck creds e))"
  "wstep S M resets (alone c (Some 0) None (AtUnlock r)) (alone c None None (Returned r))"
  using wstep_call [of "alone c None None Idle" 0]
    wstep_inner [OF inner_lock [of "alone c None None Entered" 0]]
    wstep_inner [OF inner_get_lock [of "alone c (Some 0) None (AtGetLock n)" 0 n]]
    wstep_inner [OF inner_get_unlock [of "alone c (Some 0) (Some 0) (AtGetUnlock creds e)" 0 creds e]]
    wstep_inner [OF inner_unlock [of "alone c (Some 0) None (AtUnlock r)" 0 r]]
  by (simp_all add: moves_def)

lemma alone_works:
  assumes "cl_podAgency c = Some p" and "work S M t x p c l = Some (l', c')"
  shows "wstep S M resets (alone c (Some 0) pmu l) (alone c' (Some 0) pmu l')"
  using wstep_inner [OF inner_work [of "alone c (Some 0) pmu l" p S M t x 0 l' c']] assms by (simp add: moves_def)

text \<open>The credentials of the cache are still good and the handle is there: up to the last read of the condition.\<close>

lemma alone_to_deref:
  assumes "cl_podAgency c = Some p" and "pp_cache p = Some k" and "\<not> needsRefresh k (time_UTC t)" and "cl_sdk c = Some h"
  shows "wsteps S M resets (at_start c) (alone c (Some 0) None (AtDeref (Some k)))"
proof -
  fix x
  have "wsteps S M resets (alone c None None Idle) (alone c None None Entered)" by (rule r_into_rtranclp) (rule alone_steps)
  also have "wstep S M resets \<dots> (alone c (Some 0) None InGet)" by (rule alone_steps) (simp add: assms)
  also have "wstep S M resets \<dots> (alone c (Some 0) None (AtGetLock (time_UTC t)))"
    by (rule alone_works [OF assms(1), of _ _ t x]) simp
  also have "wstep S M resets \<dots> (alone c (Some 0) (Some 0) (AtCache (time_UTC t)))" by (rule alone_steps)
  also have "wstep S M resets \<dots> (alone c (Some 0) (Some 0) (AtGetUnlock (Some k) None))"
    by (rule alone_works [OF assms(1), of _ _ t x]) (simp add: assms)
  also have "wstep S M resets \<dots> (alone c (Some 0) None (AtCheck (Some k) None))" by (rule alone_steps)
  also have "wstep S M resets \<dots> (alone c (Some 0) None (AtDeref (Some k)))"
    by (rule alone_works [OF assms(1), of _ _ t x]) (simp add: assms)
  finally show ?thesis by (simp add: at_start_def fun_upd_idem)
qed

lemma alone_served:
  assumes "cl_podAgency c = Some p" and "pp_cache p = Some k" and "\<not> needsRefresh k (time_UTC t)" and "cl_sdk c = Some h"
  shows "wsteps S M resets (at_start c) (alone c None None (Returned (Inr h)))"
proof -
  fix x
  have "wsteps S M resets (at_start c) (alone c (Some 0) None (AtDeref (Some k)))" by (rule alone_to_deref [OF assms])
  also have "wstep S M resets \<dots> (alone c (Some 0) None (AtUnlock (Inr h)))"
    by (rule alone_works [OF assms(1), of _ _ t x]) (simp add: assms credsAK_def handle_or_nil_def)
  also have "wstep S M resets \<dots> (alone c None None (Returned (Inr h)))" by (rule alone_steps)
  finally show ?thesis .
qed

text \<open>
  C21. \<open>Reset\<close> races with \<open>ensureSDK\<close>. The condition of the rebuild reads \<open>c.podAgency.cache\<close> twice without \<open>p.mu\<close>;
  from every client with a handle and credentials that are still good, a goroutine that calls a method and one that
  calls \<open>Reset\<close> can be interleaved so that the second read finds nil and the call panics.
\<close>

theorem reset_races:
  assumes "cl_podAgency c = Some p" and "pp_cache p = Some k" and "\<not> needsRefresh k (time_UTC t)" and "cl_sdk c = Some h"
  shows "\<exists>s. wsteps S M True (at_start c) s \<and> w_pc s 0 = Returned (Inl nil_pointer)"
proof -
  fix x
  let ?c = "c\<lparr>cl_podAgency := Some (Reset p)\<rparr>" and ?l = "AtDeref (Some k)"
  have "wsteps S M True (at_start c) (alone c (Some 0) None ?l)" by (rule alone_to_deref [OF assms])
  also have "wstep S M True \<dots> (moves 1 AtReset (alone c (Some 0) None ?l))"
    by (rule wstep_Reset) (simp_all add: assms)
  also have "wstep S M True \<dots> (moves 1 InReset (alone c (Some 0) (Some 1) ?l))"
    using wstep_inner [OF inner_reset_lock [of "moves 1 AtReset (alone c (Some 0) None ?l)" 1]] by (simp add: moves_def)
  also have "wstep S M True \<dots> (alone ?c (Some 0) None ?l)"
    using wstep_inner [OF inner_reset [of "moves 1 InReset (alone c (Some 0) (Some 1) ?l)" 1 p]] assms
    by (simp add: moves_def fun_upd_twist fun_upd_idem)
  also have "wstep S M True \<dots> (alone ?c (Some 0) None (AtUnlock (Inl nil_pointer)))"
    by (rule alone_works [of _ "Reset p" _ _ t x]) (simp_all add: Reset_def)
  also have "wstep S M True \<dots> (alone ?c None None (Returned (Inl nil_pointer)))" by (rule alone_steps)
  finally show ?thesis by (intro exI conjI) (assumption, simp)
qed

section \<open>Witnesses\<close>

definition demo_down :: "unit Metadata" where
  "demo_down = demo_metadata 0 (Inl (OtherError ''down''))"

text \<open>The demo client holds the handle of ''AK'', and its credentials are good for half an hour.\<close>

lemma demo_client_good:
  "cl_podAgency demo_client = Some (demo_provider (3600 * second))"
  "pp_cache (demo_provider (3600 * second)) = Some (demo_creds (3600 * second))"
  "\<not> needsRefresh (demo_creds (3600 * second)) (time_UTC \<lparr>wall = 0, mono = None\<rparr>)"
  "cl_sdk demo_client = Some ''AK''"
  by (simp_all add: demo_client_def needsRefresh_def demo_creds_defs time_Sub_def saturate64_def maxCacheAge_def half_hour)

theorem interleavings_are_atomic_witness:
  "\<exists>a. asteps demo_sdk demo_down (at_first demo_client) a
     \<and> at_phase a 0 = Answered (Inr ''AK'') \<and> at_phase a 1 = Calling \<and> at_client a = demo_client"
proof -
  let ?M = demo_down and ?s = "alone demo_client None None (Returned (Inr ''AK''))"
  have "wsteps demo_sdk ?M False (at_start demo_client) ?s" by (rule alone_served [OF demo_client_good])
  also have "wstep demo_sdk ?M False \<dots> (moves 1 Entered ?s)" by (rule wstep_call) simp
  finally have "wsteps demo_sdk ?M False (at_start demo_client) (moves 1 Entered ?s)" .
  from interleavings_are_atomic [OF this] show ?thesis by force
qed

theorem calls_end_witness:
  "\<exists>s u. wsteps demo_sdk demo_down True (at_start demo_client) s
     \<and> w_pc s 0 = AtDeref (Some (demo_creds (3600 * second)))
     \<and> inner demo_sdk demo_down s u"
proof -
  let ?M = demo_down
    and ?s = "alone demo_client (Some 0) None (AtDeref (Some (demo_creds (3600 * second))))"
  have run: "wsteps demo_sdk ?M True (at_start demo_client) ?s" by (rule alone_to_deref [OF demo_client_good])
  have "(inner demo_sdk ?M ^^ 0) ?s ?s" by simp
  with calls_end [OF run] have "busy ?s = {} \<or> (\<exists>u. inner demo_sdk ?M ?s u)" by blast
  moreover have "0 \<in> busy ?s" by (simp add: busy_def at_rest_def)
  ultimately show ?thesis using run by (metis empty_iff fun_upd_same workers.select_convs(4))
qed

text \<open>A new client whose first call fetches the credentials ''AK2'' and builds the handle.\<close>

theorem workers_share_one_handle_witness:
  "\<exists>c s. NewClient demo_sdk (\<lambda>s. s) demo_config = Inr c
     \<and> wsteps demo_sdk demo_down False (at_start c) s
     \<and> w_pc s 0 = Returned (Inr ''AK2'') \<and> (\<forall>j. w_pc s j \<noteq> Returned (Inr ''AK''))"
proof -
  let ?M = demo_down and ?t = "\<lparr>wall = 900 * second, mono = Some 1\<rparr>"
  let ?c = "\<lparr>cl_cfg = demo_config, cl_region = ''ap-southeast-1'', cl_podAgency = Some NewPodAgencyProvider,
    cl_sdk = None :: string option\<rparr>"
  let ?x = "\<lparr>an_times = [?t], an_reply = Inr (200, Inr demo_body)\<rparr>"
  have new: "NewClient demo_sdk (\<lambda>s. s) demo_config = Inr ?c"
    by (simp add: NewClient_def demo_sdk_def demo_config_def PodAgencyMode_def)
  have "valid_stamp 1970 1 1 1 15 0 0" by (simp add: valid_stamp_def daysIn_def)
  moreover have "plain ''AK2''" "plain ''SK2''" "plain ''T2''" by (simp_all add: plain_def)
  ultimately obtain k where k: "fst (fetch (answering ?M) NewPodAgencyProvider ?x) = Inr k" "pc_AccessKey k = ''AK2''"
    using fetch_documented [of "''AK2''" "''SK2''" "''T2''" 1970 1 1 1 15 0 0 "answering ?M" NewPodAgencyProvider ?x ?x ?t
        "?x\<lparr>an_times := []\<rparr>"]
    by (simp add: demo_down_def demo_metadata_def demo_body_def answering_def)
  have first: "pp_cache NewPodAgencyProvider = None" by (simp add: NewPodAgencyProvider_def)
  let ?p = "NewPodAgencyProvider\<lparr>pp_cache := Some k\<rparr>"
  let ?d = "?c\<lparr>cl_podAgency := Some ?p\<rparr>"
  let ?e = "?d\<lparr>cl_sdk := Some ''AK2''\<rparr>"
  have "wsteps demo_sdk ?M False (alone ?c None None Idle) (alone ?c None None Entered)" by (rule r_into_rtranclp) (rule alone_steps)
  also have "wstep demo_sdk ?M False \<dots> (alone ?c (Some 0) None InGet)" by (rule alone_steps) simp
  also have "wstep demo_sdk ?M False \<dots> (alone ?c (Some 0) None (AtGetLock (time_UTC ?t)))"
    by (rule alone_works [of _ NewPodAgencyProvider _ _ ?t ?x]) simp_all
  also have "wstep demo_sdk ?M False \<dots> (alone ?c (Some 0) (Some 0) (AtCache (time_UTC ?t)))" by (rule alone_steps)
  also have "wstep demo_sdk ?M False \<dots> (alone ?c (Some 0) (Some 0) (AtFetch (time_UTC ?t)))"
    by (rule alone_works [of _ NewPodAgencyProvider _ _ ?t ?x]) (simp_all add: first)
  also have "wstep demo_sdk ?M False \<dots> (alone ?c (Some 0) (Some 0) (AtStore (time_UTC ?t) (Inr k)))"
    by (rule alone_works [of _ NewPodAgencyProvider _ _ ?t ?x]) (simp_all add: k)
  also have "wstep demo_sdk ?M False \<dots> (alone ?d (Some 0) (Some 0) (AtGetUnlock (Some k) None))"
    by (rule alone_works [of _ NewPodAgencyProvider _ _ ?t ?x]) simp_all
  also have "wstep demo_sdk ?M False \<dots> (alone ?d (Some 0) None (AtCheck (Some k) None))" by (rule alone_steps)
  also have "wstep demo_sdk ?M False \<dots> (alone ?d (Some 0) None (AtBuild (Some k)))"
    by (rule alone_works [of _ ?p _ _ ?t ?x]) simp_all
  also have "wstep demo_sdk ?M False \<dots> (alone ?e (Some 0) None (AtUnlock (Inr ''AK2'')))"
    by (rule alone_works [of _ ?p _ _ ?t ?x])
      (simp_all add: k demo_sdk_def build_sdk_def staticCredentialsFor_def)
  also have "wstep demo_sdk ?M False \<dots> (alone ?e None None (Returned (Inr ''AK2'')))" by (rule alone_steps)
  finally have run: "wsteps demo_sdk ?M False (at_start ?c) (alone ?e None None (Returned (Inr ''AK2'')))"
    by (simp add: at_start_def fun_upd_idem)
  from workers_share_one_handle [OF new run, of 0 "Inr ''AK2''"] new run show ?thesis
    by (intro exI [of _ ?c] exI [of _ "alone ?e None None (Returned (Inr ''AK2''))"]) (simp split: if_splits)
qed

theorem reset_races_witness:
  "\<exists>s. wsteps demo_sdk demo_down True (at_start demo_client) s
     \<and> w_pc s 0 = Returned (Inl nil_pointer)"
  by (rule reset_races [OF demo_client_good])

end
