(* ===== verification/Fleet.thy ===== *)
theory Fleet
  imports EndToEnd
begin

text \<open>
  Many custom resources over one cloud account. The passes of their reconcilers come in any order, users change
  the objects meanwhile, reads may be stale and writes may be refused. A file system is found by its name
  (\<open>FindByName\<close>), so what keeps the resources apart is \<open>spec.fsName\<close>. A user may change that field of a resource that tracks a file
  system already (neither the CRD nor \<open>immutableDrift\<close> stands against it), so the invariant here is that a recorded id
  always is the id of a file system that was given out under a name which the resource asked for at some time.
\<close>

section \<open>What the world holds\<close>

text \<open>
  All versions of each CR that the API server ever stored, so that a read may answer any of them, and the name under which
  the cloud gave an id out, which stays when the file system is gone.
\<close>

record 'w fleet =
  fl_versions :: "'w \<Rightarrow> NamespacedName \<Rightarrow> SfsTurboInstance set"
  fl_name :: "'w \<Rightarrow> string \<Rightarrow> string option"

definition key_of :: "SfsTurboInstance \<Rightarrow> NamespacedName" where
  "key_of cr = \<lparr>nn_Namespace = cr_Namespace cr, nn_Name = cr_Name cr\<rparr>"

lemma key_of_fields [simp]:
  "key_of (x\<lparr>cr_Finalizers := fs\<rparr>) = key_of x" "key_of (x\<lparr>cr_Status := st\<rparr>) = key_of x" "key_of (x\<lparr>cr_Spec := sp\<rparr>) = key_of x"
  "key_of (with_condition t ty st' rs msg x) = key_of x"
  by (simp_all add: key_of_def with_condition_def)

text \<open>The names that a resource asked for, now or earlier.\<close>

definition asked :: "'w fleet \<Rightarrow> 'w \<Rightarrow> NamespacedName \<Rightarrow> string set" where
  "asked F w n = (\<lambda>x. sp_FsName (cr_Spec x)) ` fl_versions F w n"

definition named_for :: "'w fleet \<Rightarrow> 'w \<Rightarrow> NamespacedName \<Rightarrow> string \<Rightarrow> bool" where
  "named_for F w n i \<longleftrightarrow> i = [] \<or> (\<exists>nm \<in> asked F w n. fl_name F w i = Some nm)"

definition owns :: "'w fleet \<Rightarrow> 'w \<Rightarrow> SfsTurboInstance \<Rightarrow> bool" where
  "owns F w cr \<longleftrightarrow> sp_FsName (cr_Spec cr) \<in> asked F w (key_of cr) \<and> named_for F w (key_of cr) (st_FsId (cr_Status cr))"

definition owned :: "'w fleet \<Rightarrow> 'w \<Rightarrow> bool" where
  "owned F w \<longleftrightarrow> (\<forall>n. \<forall>x \<in> fl_versions F w n. key_of x = n \<and> named_for F w n (st_FsId (cr_Status x)))"

text \<open>Two objects of one resource that name the same file system: the same id under the same name.\<close>

definition same_share :: "SfsTurboInstance \<Rightarrow> SfsTurboInstance \<Rightarrow> bool" where
  "same_share x y \<longleftrightarrow> key_of y = key_of x \<and> st_FsId (cr_Status y) = st_FsId (cr_Status x) \<and> sp_FsName (cr_Spec y) = sp_FsName (cr_Spec x)"

text \<open>
  How the world may change when the objects of \<open>X\<close> are written: an id keeps its name, versions are only added, and a new version of a
  resource may have any spec. Its id is empty, or the one of an earlier version (a user's change of any field of the spec, \<open>fsName\<close> among them) or of an
  object of the resource that is written, or it was given out under a name that the resource asks or asked for (filled in by hand, or by another worker).
\<close>

definition grows :: "'w fleet \<Rightarrow> SfsTurboInstance list \<Rightarrow> 'w \<Rightarrow> 'w \<Rightarrow> bool" where
  "grows F X w w' \<longleftrightarrow> (\<forall>i nm. fl_name F w i = Some nm \<longrightarrow> fl_name F w' i = Some nm)
     \<and> (\<forall>n. fl_versions F w n \<subseteq> fl_versions F w' n)
     \<and> (\<forall>n. \<forall>y \<in> fl_versions F w' n. y \<in> fl_versions F w n
          \<or> key_of y = n \<and> (named_for F w' n (st_FsId (cr_Status y))
              \<or> (\<exists>x \<in> {x \<in> set X. key_of x = n} \<union> fl_versions F w n. st_FsId (cr_Status y) = st_FsId (cr_Status x))))"

text \<open>What may happen at any time, and so during every call.\<close>

abbreviation drift :: "'w fleet \<Rightarrow> 'w \<Rightarrow> 'w \<Rightarrow> bool" where
  "drift F \<equiv> grows F []"

lemma same_share_fields [simp]:
  "same_share x x" "same_share x (x\<lparr>cr_Finalizers := fs\<rparr>)" "same_share x (with_condition t ty st rs msg x)"
  "same_share x (x\<lparr>cr_Status := (cr_Status x)\<lparr>st_SecurityGroupId := g\<rparr>\<rparr>)"
  "same_share x (x\<lparr>cr_Status := (cr_Status x)\<lparr>st_Tags := ts\<rparr>\<rparr>)"
  "same_share x (x\<lparr>cr_Status := (cr_Status x)\<lparr>st_ExportPath := p, st_Size := n, st_ObservedGeneration := g'\<rparr>\<rparr>)"
  by (simp_all add: same_share_def)

lemma owns_same: "same_share x y \<Longrightarrow> owns F w x \<Longrightarrow> owns F w y"
  by (simp add: same_share_def owns_def)

lemma owns_fields [simp]:
  "owns F w (x\<lparr>cr_Finalizers := fs\<rparr>) = owns F w x" "owns F w (with_condition t ty st rs msg x) = owns F w x"
  by (simp_all add: owns_def)

lemma owned_version: "owned F w \<Longrightarrow> x \<in> fl_versions F w n \<Longrightarrow> key_of x = n \<and> owns F w x"
  by (auto simp: owned_def owns_def asked_def)

lemma grows_name: "grows F X w w' \<Longrightarrow> fl_name F w i = Some nm \<Longrightarrow> fl_name F w' i = Some nm"
  by (simp add: grows_def)

lemma grows_keeps: "grows F X w w' \<Longrightarrow> fl_versions F w n \<subseteq> fl_versions F w' n"
  by (simp add: grows_def)

lemma asked_grows: "grows F X w w' \<Longrightarrow> asked F w n \<subseteq> asked F w' n"
  unfolding grows_def asked_def by blast

lemma named_grows: "grows F X w w' \<Longrightarrow> named_for F w n i \<Longrightarrow> named_for F w' n i"
  unfolding named_for_def by (blast dest: grows_name asked_grows)

lemma owns_grows: "grows F X w w' \<Longrightarrow> owns F w x \<Longrightarrow> owns F w' x"
  unfolding owns_def by (blast dest: named_grows asked_grows)

lemma grows_version:
  assumes "grows F X w w'" and "y \<in> fl_versions F w' n"
  obtains "y \<in> fl_versions F w n" | "key_of y = n" "named_for F w' n (st_FsId (cr_Status y))"
    | x where "key_of y = n" "x \<in> fl_versions F w n" "st_FsId (cr_Status y) = st_FsId (cr_Status x)"
    | x where "key_of y = n" "x \<in> set X" "key_of x = n" "st_FsId (cr_Status y) = st_FsId (cr_Status x)"
  using assms unfolding grows_def by blast

lemma drift_refl: "drift F w w"
  by (simp add: grows_def)

text \<open>The step of a version is judged by where its id comes from.\<close>

lemma driftI:
  assumes "\<And>i nm. fl_name F w i = Some nm \<Longrightarrow> fl_name F w' i = Some nm" and "\<And>n. fl_versions F w n \<subseteq> fl_versions F w' n"
    and "\<And>n y. y \<in> fl_versions F w' n \<Longrightarrow> y \<in> fl_versions F w n \<or> key_of y = n \<and> (named_for F w' n (st_FsId (cr_Status y))
      \<or> (\<exists>x \<in> fl_versions F w n. st_FsId (cr_Status y) = st_FsId (cr_Status x)))"
  shows "drift F w w'"
  using assms unfolding grows_def by simp

lemma drift_trans:
  assumes "drift F u v" and "drift F v w"
  shows "drift F u w"
proof (rule driftI)
  fix n y
  assume "y \<in> fl_versions F w n"
  with assms(2) show "y \<in> fl_versions F u n \<or> key_of y = n \<and> (named_for F w n (st_FsId (cr_Status y))
      \<or> (\<exists>x \<in> fl_versions F u n. st_FsId (cr_Status y) = st_FsId (cr_Status x)))"
  proof (cases rule: grows_version)
    case 1
    with assms(1) show ?thesis by (cases rule: grows_version) (auto intro: named_grows [OF assms(2)])
  next
    case (3 x)
    from assms(1) 3(2) show ?thesis by (cases rule: grows_version) (use 3 in \<open>auto intro: named_grows [OF assms(2)]\<close>)
  qed auto
qed (use assms in \<open>blast dest: grows_name grows_keeps\<close>)+

text \<open>The write of an object that owns what it names is no more than what may happen anyway.\<close>

lemma grows_drift:
  assumes "grows F X w w'" and "list_all (owns F w) X"
  shows "drift F w w'"
proof (rule driftI)
  fix n y
  assume "y \<in> fl_versions F w' n"
  with assms(1) show "y \<in> fl_versions F w n \<or> key_of y = n \<and> (named_for F w' n (st_FsId (cr_Status y))
      \<or> (\<exists>x \<in> fl_versions F w n. st_FsId (cr_Status y) = st_FsId (cr_Status x)))"
  proof (cases rule: grows_version)
    case (4 x)
    with assms(2) have "named_for F w n (st_FsId (cr_Status y))" by (auto simp: list_all_iff owns_def)
    with 4 show ?thesis by (simp add: named_grows [OF assms(1)])
  qed auto
qed (use assms(1) in \<open>blast dest: grows_name grows_keeps\<close>)+

lemma drift_owned:
  assumes "drift F w w'" and "owned F w"
  shows "owned F w'"
  unfolding owned_def
proof (intro allI ballI)
  fix n y
  assume "y \<in> fl_versions F w' n"
  with assms(1) show "key_of y = n \<and> named_for F w' n (st_FsId (cr_Status y))"
    by (cases rule: grows_version) (use assms(2) in \<open>auto simp: owned_def intro: named_grows [OF assms(1)]\<close>)
qed

section \<open>What the calls promise\<close>

definition moves :: "('w \<Rightarrow> 'w \<Rightarrow> bool) \<Rightarrow> ('w \<Rightarrow> 'a \<times> 'w) \<Rightarrow> bool" where
  "moves le op \<longleftrightarrow> (\<forall>w r w'. op w = (r, w') \<longrightarrow> le w w')"

lemma movesD: "moves le op \<Longrightarrow> op w = (r, w') \<Longrightarrow> le w w'"
  by (simp add: moves_def)

text \<open>
  The API server. A read answers some stored version of the object asked for, perhaps not the last. A write of a stale object is refused (resource
  versions), so an accepted write finds the id and the name that the object was read with and stores no others; one that fails may
  have been stored.
\<close>

definition stores :: "'w fleet \<Rightarrow> (SfsTurboInstance \<Rightarrow> 'w \<Rightarrow> (err + SfsTurboInstance) \<times> 'w) \<Rightarrow> bool" where
  "stores F op \<longleftrightarrow> (\<forall>x w r w'. op x w = (r, w') \<longrightarrow> grows F [x] w w' \<and> (\<forall>y. r = Inr y \<longrightarrow> same_share x y))"

definition kube_laws :: "'w Reconciler \<Rightarrow> 'w fleet \<Rightarrow> bool" where
  "kube_laws R F \<longleftrightarrow>
     (\<forall>n w r w'. kGetCR (Reconciler.Client R) n w = (r, w') \<longrightarrow> drift F w w'
        \<and> (\<forall>cr. r = Inr cr \<longrightarrow> cr \<in> fl_versions F w' n \<and> wf_map (sp_Tags (cr_Spec cr))))
   \<and> stores F (kUpdateCR (Reconciler.Client R)) \<and> stores F (kStatusUpdate (Reconciler.Client R))
   \<and> (\<forall>n. moves (drift F) (kGetPV (Reconciler.Client R) n)) \<and> (\<forall>x. moves (drift F) (kCreatePV (Reconciler.Client R) x))
   \<and> (\<forall>x. moves (drift F) (kUpdatePV (Reconciler.Client R) x)) \<and> (\<forall>x. moves (drift F) (kDeletePV (Reconciler.Client R) x))
   \<and> (\<forall>k. moves (drift F) (kGetPVC (Reconciler.Client R) k)) \<and> (\<forall>x. moves (drift F) (kCreatePVC (Reconciler.Client R) x))
   \<and> (\<forall>x. moves (drift F) (kDeletePVC (Reconciler.Client R) x)) \<and> moves (drift F) (Now R)"

text \<open>The Huawei API: a creation answers an id of the name it was asked for, made or found.\<close>

definition huawei_laws :: "'w Interface \<Rightarrow> 'w fleet \<Rightarrow> bool" where
  "huawei_laws H F \<longleftrightarrow>
     (\<forall>inp w r w'. Create H inp w = (r, w') \<longrightarrow> drift F w w'
        \<and> (\<forall>i. r = Inr i \<longrightarrow> i = [] \<or> fl_name F w' i = Some (in_Name inp)))
   \<and> (\<forall>i. moves (drift F) (Get H i)) \<and> (\<forall>i. moves (drift F) (Delete H i)) \<and> (\<forall>i n. moves (drift F) (Expand H i n))
   \<and> (\<forall>i. moves (drift F) (ListTags H i)) \<and> (\<forall>i k v. moves (drift F) (AddTag H i k v))
   \<and> (\<forall>i k. moves (drift F) (DeleteTag H i k)) \<and> (\<forall>i g. moves (drift F) (ChangeSecurityGroup H i g))"

section \<open>A pass keeps the ownership\<close>

definition kept :: "'w fleet \<Rightarrow> 'w \<Rightarrow> 'w pass \<Rightarrow> bool" where
  "kept F w s \<longleftrightarrow> drift F w (world s) \<and> owned F (world s) \<and> owns F (world s) (sfsti s)"

lemma kept_step:
  assumes "kept F w s" and "drift F (world s) (world t)" and "owns F (world t) (sfsti t)"
  shows "kept F w t"
  using assms unfolding kept_def by (blast intro: drift_trans drift_owned)

lemma kept_invoke: "moves (drift F) op \<Longrightarrow> maintains (kept F w) (invoke op ev)"
  by (auto simp: maintains_def wp_rules kept_def dest!: movesD intro: drift_trans drift_owned owns_grows)

lemma kept_update [maintains_rules]: "(\<And>x. same_share x (f x)) \<Longrightarrow> maintains (kept F w) (update_sfsti f)"
  by (rule maintains_modify) (auto simp: kept_def intro: owns_same)

lemma kept_setCondition [maintains_rules]:
  "moves (drift F) (Now R) \<Longrightarrow> maintains (kept F w) (setCondition R t st rs msg)"
  by (auto simp: maintains_def wp_rules kept_def dest!: movesD intro: drift_trans drift_owned owns_grows owns_same)

text \<open>A write sends an object that names the same file system as the one in memory, and its answer replaces that.\<close>

lemma kept_write:
  assumes "stores F op" and "kept F w s" and "op x (world s) = (r, w')" and "same_share (sfsti s) x"
    and "world t = w'" and "sfsti t = x \<or> r = Inr (sfsti t)"
  shows "kept F w t"
proof (rule kept_step [OF assms(2)])
  have g: "grows F [x] (world s) w'" and y: "r = Inr y \<Longrightarrow> same_share x y" for y
    using assms(1,3) unfolding stores_def by blast+
  have x: "owns F (world s) x" using assms(2,4) by (auto simp: kept_def intro: owns_same)
  show "drift F (world s) (world t)" using grows_drift [OF g] x assms(5) by simp
  have own: "owns F (world t) x" using owns_grows [OF g x] assms(5) by simp
  from assms(6) show "owns F (world t) (sfsti t)"
  proof
    assume "r = Inr (sfsti t)"
    from owns_same [OF y [OF this] own] show ?thesis .
  qed (use own in simp)
qed

lemma kept_patchStatus [maintains_rules]:
  assumes "kube_laws R F"
  shows "maintains (kept F w) (patchStatus R)"
proof -
  have "stores F (kStatusUpdate (Reconciler.Client R))" using assms by (simp add: kube_laws_def)
  note written = kept_write [OF this]
  show ?thesis
    by (auto simp: maintains_def wp_rules split: sum.split intro: written)
qed

lemma kept_patch_then [maintains_rules]:
  "kube_laws R F \<Longrightarrow> maintains (kept F w) k \<Longrightarrow> maintains (kept F w) (patch_then R k)"
  unfolding patch_then_def by (intro maintains_rules; assumption)

lemma kept_removeFinalizer [maintains_rules]:
  assumes "kube_laws R F"
  shows "maintains (kept F w) (removeFinalizer R)"
proof -
  have "stores F (kUpdateCR (Reconciler.Client R))" using assms by (simp add: kube_laws_def)
  note written = kept_write [OF this]
  show ?thesis
    by (auto simp: maintains_def removeFinalizer_def wp_rules split: sum.split intro: written)
qed

lemma kube_clock: "kube_laws R F \<Longrightarrow> moves (drift F) (Now R)"
  by (simp add: kube_laws_def)

lemma kept_condition [maintains_rules]: "kube_laws R F \<Longrightarrow> maintains (kept F w) (setCondition R t st rs msg)"
  by (intro maintains_rules kube_clock)

lemma kept_report_failure [maintains_rules]: "kube_laws R F \<Longrightarrow> maintains (kept F w) (report_failure R t st rs e)"
  unfolding report_failure_def by (intro maintains_rules; assumption)

lemma kept_volumes [maintains_rules]:
  assumes "kube_laws R F"
  shows "maintains (kept F w) (ensurePVPVC R)" and "maintains (kept F w) (cascadeDeletePVPVC R)"
  using assms unfolding volume_defs Let_def kube_laws_def by (auto intro!: maintains_rules kept_invoke)

lemma kept_tags [maintains_rules]:
  assumes "huawei_laws (Huawei R) F" and "kube_laws R F"
  shows "maintains (kept F w) (poll_tags R info)"
  using assms(1) unfolding poll_tags_def reconcileTagsDrift_def huawei_laws_def
  by (auto intro!: maintains_rules kept_invoke maintains_add_missing maintains_delete_extras assms(2) simp: go_consts)

lemma kept_delete [maintains_rules]:
  assumes "huawei_laws (Huawei R) F" and "kube_laws R F"
  shows "maintains (kept F w) (reconcileDelete R)"
  using assms(1) unfolding reconcileDelete_def delete_live_def delete_share_def huawei_laws_def
  by (auto intro!: maintains_rules kept_invoke assms(2))

lemma kept_poll_parts [maintains_rules]:
  assumes "kube_laws R F"
  shows "maintains (kept F w) (poll_record R info)" and "maintains (kept F w) (poll_immutable R info)"
    and "maintains (kept F w) (poll_sg_settled R info)" and "maintains (kept F w) (poll_finish R)"
    and "maintains (kept F w) (poll_errored R info)"
  unfolding poll_record_def poll_immutable_def poll_sg_settled_def poll_finish_def poll_errored_def
  by (intro maintains_rules assms; simp)+

lemma kept_changes [maintains_rules]:
  assumes "huawei_laws (Huawei R) F" and "kube_laws R F"
  shows "maintains (kept F w) (poll_resize R info)" and "maintains (kept F w) (poll_sg_drift R info)"
  using assms(1) unfolding poll_resize_def poll_grow_def poll_sg_drift_def huawei_laws_def
  by (auto intro!: maintains_rules kept_invoke assms(2))

text \<open>Forgetting the id is always right, and recording it is after a creation under the name.\<close>

lemma kept_forget: "maintains (kept F w) (set_status (\<lambda>st. st\<lparr>st_FsId := [], st_ExportPath := p\<rparr>))"
  by (rule maintains_modify) (simp add: kept_def owns_def named_for_def)

lemma kept_poll [maintains_rules]:
  assumes "huawei_laws (Huawei R) F" and "kube_laws R F"
  shows "maintains (kept F w) (reconcilePoll R)"
  using assms(1) unfolding reconcilePoll_def poll_available_def poll_drift_def poll_missing_def huawei_laws_def
  by (auto intro!: maintains_rules kept_invoke kept_forget assms)

lemma kept_create [maintains_rules]:
  assumes "huawei_laws (Huawei R) F" and "kube_laws R F"
  shows "maintains (kept F w) (reconcileCreate R)"
  unfolding maintains_def
proof (intro allI impI)
  fix s
  assume s: "kept F w s"
  let ?in = "create_input (spec_of s)"
  have tail: "wp (do {
      setCondition R t1 st1 rs1 m1;
      setCondition R t2 st2 rs2 m2;
      patch_then R (State_Monad.return r) }) (\<lambda>_. kept F w) t" if "kept F w t" for t t1 st1 rs1 m1 t2 st2 rs2 m2 r
    by (rule maintainsD [where I = "kept F w", OF _ that]) (intro maintains_rules assms)
  have fail: "wp (report_failure R ty st rs e) (\<lambda>_. kept F w) t" if "kept F w t" for ty st rs e t
    by (rule maintainsD [where I = "kept F w", OF _ that]) (intro maintains_rules assms)
  have "kept F w (s\<lparr>world := w', calls := cs\<rparr>)"
    and "r = Inr i \<Longrightarrow> kept F w (s\<lparr>world := w', calls := cs, sfsti := (sfsti s)\<lparr>cr_Status := (status_of s)\<lparr>st_FsId := i,
      st_ObservedGeneration := g\<rparr>\<rparr>\<rparr>)"
    if "Create (Huawei R) ?in (world s) = (r, w')" for r w' cs i g
  proof -
    from assms(1) that have d: "drift F (world s) w'" and i: "\<And>i. r = Inr i \<Longrightarrow> i = [] \<or> fl_name F w' i = Some (in_Name ?in)"
      unfolding huawei_laws_def by blast+
    have own: "owns F w' (sfsti s)" using s owns_grows [OF d] by (simp add: kept_def)
    show "kept F w (s\<lparr>world := w', calls := cs\<rparr>)"
      by (rule kept_step [OF s]) (use d s owns_grows [OF d] in \<open>simp_all add: kept_def\<close>)
    show "kept F w (s\<lparr>world := w', calls := cs, sfsti := (sfsti s)\<lparr>cr_Status := (status_of s)\<lparr>st_FsId := i,
        st_ObservedGeneration := g\<rparr>\<rparr>\<rparr>)" if "r = Inr i"
      by (rule kept_step [OF s]) (use d i [OF that] own in \<open>auto simp: owns_def named_for_def create_input_def\<close>)
  qed
  then show "wp (reconcileCreate R) (\<lambda>_. kept F w) s"
    unfolding reconcileCreate_def
    by (auto simp: wp_bind [of "gets _"] wp_bind [of "invoke _ _"] wp_bind [of "modify _"] wp_gets wp_invoke_eq wp_modify
        split: sum.split intro!: tail fail)
qed

lemma kept_after_read:
  assumes kube: "kube_laws R F" and huawei: "huawei_laws (Huawei R) F"
    and run: "kGetCR (Reconciler.Client R) req (world s) = (Inr cr, w')" and own: "owned F w'" and "drift F w w'"
    and cr: "cr \<in> fl_versions F w' req"
  shows "wp (reconcile_body R req) (\<lambda>_. kept F w) s"
proof -
  have stores: "stores F (kUpdateCR (Reconciler.Client R))" using kube by (simp add: kube_laws_def)
  have paused: "maintains (kept F w) (do {
      setCondition R ConditionProvisioning ConditionFalse ReasonReconcilePaused msg;
      e \<leftarrow> patchStatus R;
      State_Monad.return (no_requeue, e) })" for msg
    by (intro maintains_rules kube)
  have protect: "maintains (kept F w) (do {
      update_sfsti (\<lambda>cr. cr\<lparr>cr_Finalizers := f cr\<rparr>);
      cr' \<leftarrow> gets sfsti;
      u \<leftarrow> invoke (kUpdateCR (Reconciler.Client R) cr') (CallUpdateCR cr');
      (case u of
        Inl e \<Rightarrow> State_Monad.return (no_requeue, Some e)
      | Inr cr'' \<Rightarrow> do { update_sfsti (\<lambda>_. cr''); State_Monad.return (\<lparr>RequeueAfter = 1\<rparr>, None) }) })" for f
    by (auto simp: maintains_def wp_rules split: sum.split intro: kept_write [OF stores])
  have "kept F w (s\<lparr>world := w', calls := cs, sfsti := cr\<rparr>)" for cs
    using assms(5) own owned_version [OF own cr] by (simp add: kept_def)
  then show ?thesis
    unfolding reconcile_body_def using run
    by (auto simp: wp_bind [of "invoke _ _"] wp_bind [of "update_sfsti (\<lambda>_. _)"] wp_invoke_eq wp_modify wp_if wp_case_sum wp_return
        split: sum.split intro!: maintainsD [OF paused] maintainsD [OF protect] maintainsD [OF kept_delete [OF huawei kube]]
          maintainsD [OF kept_create [OF huawei kube]] maintainsD [OF kept_poll [OF huawei kube]])
qed

lemma kept_pass:
  assumes "kube_laws R F" and "huawei_laws (Huawei R) F" and "owned F w'"
    and run: "kGetCR (Reconciler.Client R) req w = (r, w')" and "drift F v w'" and cr: "\<And>cr. r = Inr cr \<Longrightarrow> cr \<in> fl_versions F w' req"
  shows "drift F v (world (snd (pass R req w))) \<and> owned F (world (snd (pass R req w)))"
proof -
  have "wp (reconcile_body R req) (\<lambda>_ t. drift F v (world t) \<and> owned F (world t)) (start w)"
  proof (cases r)
    case (Inl e)
    with run assms(3,5) show ?thesis by (auto simp: reconcile_body_def wp_rules)
  next
    case (Inr cr)
    have "wp (reconcile_body R req) (\<lambda>_. kept F v) (start w)"
      by (rule kept_after_read [OF assms(1,2) _ assms(3,5)]) (use run cr [OF Inr] Inr in simp_all)
    then show ?thesis by (rule wp_mono) (simp add: kept_def)
  qed
  then show ?thesis by (rule pass_world)
qed

lemma read_drifts:
  assumes "kube_laws R F" and "kGetCR (Reconciler.Client R) req w = (r, w')" and "owned F w"
  shows "drift F w w'" and "owned F w'" and "\<And>cr. r = Inr cr \<Longrightarrow> cr \<in> fl_versions F w' req \<and> wf_map (sp_Tags (cr_Spec cr))"
proof -
  show d: "drift F w w'" and "\<And>cr. r = Inr cr \<Longrightarrow> cr \<in> fl_versions F w' req \<and> wf_map (sp_Tags (cr_Spec cr))"
    using assms(1,2) unfolding kube_laws_def by blast+
  show "owned F w'" by (rule drift_owned [OF d assms(3)])
qed

text \<open>A pass does to the world no more than what may happen anyway, so passes of several workers do not disturb each other.\<close>

lemma pass_drifts:
  assumes "kube_laws R F" and "huawei_laws (Huawei R) F" and "owned F w"
  shows "drift F w (world (snd (pass R req w))) \<and> owned F (world (snd (pass R req w)))"
proof -
  obtain r w' where run: "kGetCR (Reconciler.Client R) req w = (r, w')" by fastforce
  from read_drifts [OF assms(1) this assms(3)] show ?thesis by (intro kept_pass [OF assms(1,2) _ run]) simp_all
qed

section \<open>Passes over many resources\<close>

text \<open>The file systems a call is about.\<close>

fun addressed :: "call \<Rightarrow> string list" where
  "addressed (CallGet i r) = [i]"
| "addressed (CallDelete i r) = [i]"
| "addressed (CallExpand i n r) = [i]"
| "addressed (CallListTags i r) = [i]"
| "addressed (CallAddTag i k v r) = [i]"
| "addressed (CallDeleteTag i k r) = [i]"
| "addressed (CallChangeSecurityGroup i g r) = [i]"
| "addressed _ = []"

lemma addressed_is_tracked:
  assumes "authorised L cr before c" and "i \<in> set (addressed c)"
  shows "i = st_FsId (cr_Status cr)" and "i \<noteq> []"
  using assms by (cases c; auto simp: tracked_by_def tearing_down_def)+

text \<open>Every call of a pass but the reading and the metric is one that the CR it read authorises.\<close>

lemma pass_call_authorised:
  assumes kube: "kube_laws R F" and own: "owned F w" and c: "c \<in> set (pass_calls R n w)"
    and other: "\<And>m r. c \<noteq> CallGetCR m r" "\<And>a b. c \<noteq> MetricReconcileTotal a b"
  obtains x w' before where "kGetCR (Reconciler.Client R) n w = (Inr x, w')" "authorised (Lib R) x before c"
proof -
  obtain r w' where run: "kGetCR (Reconciler.Client R) n w = (r, w')" by fastforce
  obtain x where x: "r = Inr x"
    using c other run by (cases r) (auto simp: pass_unread)
  from run x read_drifts(3) [OF kube run own x] obtain cs where cs: "log_ok (Lib R) x cs"
    "pass_calls R n w = cs @ [MetricReconcileTotal (nn_Namespace n) (outcome_label (fst (pass R n w)))]"
    by (auto elim: pass_log_ok)
  with c other(2) have "c \<in> set cs" by auto
  then obtain k where "k < length cs" "cs ! k = c" by (auto simp: in_set_conv_nth)
  with cs(1) have "authorised (Lib R) x (take k cs) c" by (auto simp: log_ok_def)
  with run x show ?thesis by (intro that) simp_all
qed

lemma pass_addresses_own:
  assumes kube: "kube_laws R F" and huawei: "huawei_laws (Huawei R) F" and own: "owned F w"
    and c: "c \<in> set (pass_calls R n w)" and i: "i \<in> set (addressed c)"
  obtains nm where "i \<noteq> []" "nm \<in> asked F (world (snd (pass R n w))) n" "fl_name F (world (snd (pass R n w))) i = Some nm"
proof -
  have "c \<noteq> CallGetCR m r" "c \<noteq> MetricReconcileTotal a b" for m r a b using i by auto
  from pass_call_authorised [OF kube own c this] obtain x w' before where run: "kGetCR (Reconciler.Client R) n w = (Inr x, w')"
    and "authorised (Lib R) x before c" by blast
  from addressed_is_tracked [OF this(2) i] have id: "i = st_FsId (cr_Status x)" "i \<noteq> []" .
  note read = read_drifts [OF kube run own]
  have "drift F w' (world (snd (pass R n w)))"
    using kept_pass [OF kube huawei read(2) run drift_refl] read(3) by blast
  moreover have "named_for F w' n i" using read(2,3) id(1) by (auto simp: owned_def)
  ultimately have "named_for F (world (snd (pass R n w))) n i" by (rule named_grows)
  with id(2) show ?thesis by (auto simp: named_for_def intro: that)
qed

text \<open>
  Passes over any resources in any order, with anything that may happen between them; the trace says which resource each
  pass was over and the world it began in.
\<close>

inductive fleet_run :: "'w Reconciler \<Rightarrow> 'w fleet \<Rightarrow> 'w \<Rightarrow> (NamespacedName \<times> 'w) list \<Rightarrow> 'w \<Rightarrow> bool"
  for R F w where
  run_start: "fleet_run R F w [] w"
| run_drift: "fleet_run R F w tr v \<Longrightarrow> drift F v u \<Longrightarrow> fleet_run R F w tr u"
| run_pass: "fleet_run R F w tr v \<Longrightarrow> fleet_run R F w (tr @ [(n, v)]) (world (snd (pass R n v)))"

lemma fleet_run_owned:
  assumes "fleet_run R F w tr v" and "kube_laws R F" and "huawei_laws (Huawei R) F" and "owned F w"
  shows "drift F w v \<and> owned F v"
  using assms(1)
proof induction
  case run_start
  show ?case using assms(4) by (simp add: drift_refl)
next
  case (run_drift tr v u)
  then show ?case by (blast intro: drift_trans drift_owned)
next
  case (run_pass tr v n)
  then show ?case using pass_drifts [OF assms(2,3), of v n] by (blast intro: drift_trans)
qed

lemma fleet_addresses_own:
  assumes "fleet_run R F w tr v" and "kube_laws R F" and "huawei_laws (Huawei R) F" and "owned F w"
    and "(n, u) \<in> set tr" and "c \<in> set (pass_calls R n u)" and "i \<in> set (addressed c)"
  shows "\<exists>nm \<in> asked F v n. fl_name F v i = Some nm"
  using assms(1,5)
proof induction
  case (run_drift tr v u)
  then show ?case by (blast dest: grows_name asked_grows)
next
  case (run_pass tr v m)
  note now = fleet_run_owned [OF run_pass.hyps assms(2-4)]
  show ?case
  proof (cases "(n, u) = (m, v)")
    case True
    with pass_addresses_own [OF assms(2,3) _ assms(6,7)] now show ?thesis by (metis Pair_inject)
  next
    case False
    with run_pass have "\<exists>nm \<in> asked F v n. fl_name F v i = Some nm" by auto
    moreover have "drift F v (world (snd (pass R m v)))" using pass_drifts [OF assms(2,3)] now by blast
    ultimately show ?thesis by (blast dest: grows_name asked_grows)
  qed
qed simp

section \<open>Through the client\<close>

text \<open>
  A relation between the worlds before and after: what every call outside keeps to, every method of the
  client keeps to.
\<close>

locale world_order =
  fixes le :: "'w \<Rightarrow> 'w \<Rightarrow> bool"
  assumes le_refl: "le w w" and le_trans: "le u v \<Longrightarrow> le v w \<Longrightarrow> le u w"
begin

definition follows :: "('w, 'r, 'h, 'a) client_op \<Rightarrow> bool" where
  "follows m \<longleftrightarrow> (\<forall>s. le (outside s) (outside (snd (run_state m s))))"

lemma follows_return: "follows (State_Monad.return x)"
  by (simp add: follows_def le_refl)

lemma follows_ask: "moves le op \<Longrightarrow> follows (ask op)"
  by (auto simp: follows_def split: prod.split dest: movesD)

lemma follows_bind:
  assumes "follows m" and "\<And>a. follows (f a)"
  shows "follows (State_Monad.bind m f)"
  unfolding follows_def
proof
  fix s
  obtain a t where "run_state m s = (a, t)" by fastforce
  moreover have "le (outside s) (outside t)" using assms(1) calculation by (auto simp: follows_def dest: spec [of _ s])
  moreover have "le (outside t) (outside (snd (run_state (f a) t)))" using assms(2) by (simp add: follows_def)
  ultimately show "le (outside s) (outside (snd (run_state (State_Monad.bind m f) s)))" by (auto intro: le_trans)
qed

lemma follows_gets: "follows (gets f)"
  by (simp add: follows_def le_refl)

lemma follows_modify: "(\<And>s. outside (f s) = outside s) \<Longrightarrow> follows (modify f)"
  by (simp add: follows_def le_refl)

lemma fetch_moves:
  assumes "\<And>t u. moves le (Do M t u)" and "moves le (Clock M)"
  shows "moves le (fetch M p)"
  unfolding moves_def
proof (intro allI impI)
  fix w r w'
  assume run: "fetch M p w = (r, w')"
  obtain a v where a: "Do M (pp_Timeout p) (pp_url p) w = (a, v)" by fastforce
  obtain t u where t: "Clock M v = (t, u)" by fastforce
  have "le w v" "le v u" using movesD [OF assms(1) a] movesD [OF assms(2) t] .
  moreover have "w' = w \<or> w' = v \<or> w' = u"
    using run a t by (auto simp: fetch_def credsOf_def split: option.splits prod.splits sum.splits if_splits)
  ultimately show "le w w'" by (auto intro: le_refl le_trans)
qed

lemma agency_moves:
  assumes "\<And>t u. moves le (Do M t u)" and "moves le (Clock M)"
  shows "moves le (\<lambda>w. case PodAgency_Get M p w of (r, p', w') \<Rightarrow> ((r, p'), w'))"
  unfolding moves_def
proof (intro allI impI)
  fix w r w'
  assume run: "(case PodAgency_Get M p w of (r, p', w') \<Rightarrow> ((r, p'), w')) = (r, w')"
  obtain t v where t: "Clock M w = (t, v)" by fastforce
  obtain a u where a: "fetch M p v = (a, u)" by fastforce
  have "le w v" "le v u" using movesD [OF assms(2) t] movesD [OF fetch_moves [OF assms] a] .
  moreover have "w' = v \<or> w' = u"
    using run a t by (auto simp: PodAgency_Get_def Let_def split: option.splits sum.splits if_splits)
  ultimately show "le w w'" by (auto intro: le_trans)
qed

lemma follows_ensureSDK:
  assumes "\<And>t u. moves le (Do M t u)" and "moves le (Clock M)"
  shows "follows (ensureSDK S M)"
  unfolding ensureSDK_def
  by (auto intro!: follows_bind follows_gets follows_return follows_modify follows_ask agency_moves assms split: option.split sum.split)

lemma follows_with_sdk:
  assumes "\<And>t u. moves le (Do M t u)" and "moves le (Clock M)" and "\<And>h. follows (k h)"
  shows "follows (with_sdk S M fail k)"
  unfolding with_sdk_def
  by (auto intro!: follows_bind follows_ensureSDK follows_return assms split: sum.split)

lemma follows_moves: "follows m \<Longrightarrow> moves (\<lambda>s t. le (outside s) (outside t)) (run_state m)"
  unfolding moves_def follows_def by (metis snd_conv)

end

interpretation drifts: world_order "drift F" for F
  by unfold_locales (rule drift_refl, rule drift_trans)

text \<open>
  The laws of the SDK's calls: a share gets the name of its request, and a listing tells the names. Any call may come with
  whatever else happens.
\<close>

definition cloud_names :: "('w, 'r, 'c, 'h) SDK \<Rightarrow> 'w fleet \<Rightarrow> bool" where
  "cloud_names S U \<longleftrightarrow>
     (\<forall>h q w r w'. sdk_CreateShare S h q w = (r, w') \<longrightarrow> drift U w w'
        \<and> (\<forall>i. r = Inr (Some i) \<longrightarrow> i = [] \<or> fl_name U w' i = Some (sh_Name q)))
   \<and> (\<forall>h w r w'. sdk_ListShares S h w = (r, w') \<longrightarrow> drift U w w'
        \<and> (\<forall>shares x i nm. r = Inr (Some shares) \<longrightarrow> x \<in> set shares \<longrightarrow> ls_Name x = Some nm \<longrightarrow> ls_Id x = Some i \<longrightarrow>
             i = [] \<or> fl_name U w' i = Some nm))
   \<and> (\<forall>h i. moves (drift U) (sdk_ShowShare S h i)) \<and> (\<forall>h i n. moves (drift U) (sdk_ExpandShare S h i n))
   \<and> (\<forall>h i. moves (drift U) (sdk_DeleteShare S h i)) \<and> (\<forall>h i. moves (drift U) (sdk_ShowSharedTags S h i))
   \<and> (\<forall>h i k v. moves (drift U) (sdk_CreateSharedTag S h i k v)) \<and> (\<forall>h i k. moves (drift U) (sdk_DeleteSharedTag S h i k))
   \<and> (\<forall>h i g. moves (drift U) (sdk_ChangeSecurityGroup S h i g))"

definition metadata_moves :: "'w Metadata \<Rightarrow> 'w fleet \<Rightarrow> bool" where
  "metadata_moves M U \<longleftrightarrow> (\<forall>t u. moves (drift U) (Do M t u)) \<and> moves (drift U) (Clock M)"

definition site_fleet :: "'w fleet \<Rightarrow> ('w, 'r, 'h) site fleet" where
  "site_fleet U = \<lparr>fl_versions = (\<lambda>s. fl_versions U (outside s)), fl_name = (\<lambda>s. fl_name U (outside s))\<rparr>"

lemma site_fields [simp]:
  "fl_versions (site_fleet U) s = fl_versions U (outside s)" "fl_name (site_fleet U) s = fl_name U (outside s)"
  by (simp_all add: site_fleet_def)

lemma site_asked [simp]: "asked (site_fleet U) s n = asked U (outside s) n"
  by (simp add: asked_def)

lemma site_named [simp]: "named_for (site_fleet U) s n i = named_for U (outside s) n i"
  by (simp add: named_for_def)

lemma site_owned [simp]: "owned (site_fleet U) s = owned U (outside s)"
  by (simp add: owned_def)

lemma site_grows [simp]: "grows (site_fleet U) X s t = grows U X (outside s) (outside t)"
  by (simp add: grows_def)

lemma site_moves: "drifts.follows U m \<Longrightarrow> moves (drift (site_fleet U)) (run_state m)"
  by (drule drifts.follows_moves) (simp add: moves_def)

lemma find_share_in: "find_share nm shares = Some x \<Longrightarrow> x \<in> set shares \<and> ls_Name x = Some nm"
  by (induction shares) (auto split: if_splits)

lemma made_named:
  assumes "cloud_names S U" and "sdk_CreateShare S h q w = (r, w')"
  shows "drift U w w'" and "r = Inr (Some i) \<Longrightarrow> i = [] \<or> fl_name U w' i = Some (sh_Name q)"
  using assms(1) [unfolded cloud_names_def, THEN conjunct1, rule_format, OF assms(2)] by simp_all

lemma listed_named:
  assumes "cloud_names S U" and "sdk_ListShares S h w = (r, w')"
  shows "drift U w w'"
    and "r = Inr (Some shares) \<Longrightarrow> x \<in> set shares \<Longrightarrow> ls_Name x = Some nm \<Longrightarrow> ls_Id x = Some i \<Longrightarrow>
      i = [] \<or> fl_name U w' i = Some nm"
  using assms(1) [unfolded cloud_names_def, THEN conjunct2, THEN conjunct1, rule_format, OF assms(2)] by simp_all

lemma FindByName_named:
  assumes "cloud_names S U" and "run_state (Client_FindByName S M nm) s = (Inr info, t)"
  shows "si_Id info = [] \<or> fl_name U (outside t) (si_Id info) = Some nm"
proof -
  obtain r s1 where e: "run_state (ensureSDK S M) s = (r, s1)" by fastforce
  with assms(2) obtain h where h: "r = Inr h" by (cases r) (auto simp: Client_FindByName_def with_sdk_def)
  obtain a w where a: "sdk_ListShares S h (outside s1) = (a, w)" by fastforce
  from assms(2) e a h obtain shares x where x: "a = Inr (Some shares)" "find_share nm shares = Some x" "info = listing_info x" and t: "outside t = w"
    by (auto simp: Client_FindByName_def with_sdk_def split: sum.splits option.splits)
  show ?thesis
  proof (cases "ls_Id x")
    case (Some i)
    with listed_named(2) [OF assms(1) a x(1) _ _ Some] find_share_in [OF x(2)] show ?thesis
      by (simp add: x(3) t listing_info_def value_or_zero_def)
  qed (simp add: x(3) listing_info_def value_or_zero_def)
qed

lemma Create_named:
  assumes "cloud_names S U" and "run_state (Client_Create S M inp) s = (Inr i, t)"
  shows "i = [] \<or> fl_name U (outside t) i = Some (in_Name inp)"
proof -
  obtain r s1 where e: "run_state (ensureSDK S M) s = (r, s1)" by fastforce
  with assms(2) obtain h where h: "r = Inr h" by (cases r) (auto simp: Client_Create_def with_sdk_def)
  obtain a w where a: "sdk_CreateShare S h (create_share_request inp) (outside s1) = (a, w)" by fastforce
  obtain b s2 where b: "run_state (Client_FindByName S M (in_Name inp)) (s1\<lparr>outside := w\<rparr>) = (b, s2)" by fastforce
  from assms(2) e h a b consider "a = Inr (Some i)" "outside t = w"
    | info where "b = Inr info" "i = si_Id info" "t = s2"
    by (auto simp: Client_Create_def with_sdk_def Let_def split: sum.splits option.splits if_splits)
  then show ?thesis
  proof cases
    case 1
    with made_named(2) [OF assms(1) a] show ?thesis by (simp add: create_share_request_def)
  next
    case 2
    with b FindByName_named [OF assms(1), of M "in_Name inp"] show ?thesis by simp
  qed
qed

lemma client_huawei_laws:
  assumes cloud: "cloud_names S U" and meta: "metadata_moves M U"
  shows "huawei_laws (client_interface S M) (site_fleet U)"
proof -
  have m: "\<And>t u. moves (drift U) (Do M t u)" "moves (drift U) (Clock M)" using meta by (simp_all add: metadata_moves_def)
  have lists: "\<And>h. moves (drift U) (sdk_ListShares S h)" and makes: "\<And>h q. moves (drift U) (sdk_CreateShare S h q)"
    using made_named(1) [OF cloud] listed_named(1) [OF cloud] by (auto simp: moves_def)
  note rules = drifts.follows_with_sdk [OF m] drifts.follows_bind drifts.follows_ask drifts.follows_return
  have find: "drifts.follows U (Client_FindByName S M nm)" for nm
    unfolding Client_FindByName_def by (intro rules lists)
  have create: "drifts.follows U (Client_Create S M inp)" for inp
    unfolding Client_Create_def by (auto intro!: rules makes find split: sum.split option.split)
  have others: "drifts.follows U (Client_Get S M i)" "drifts.follows U (Client_Delete S M i)" "drifts.follows U (Client_Expand S M i n)"
    "drifts.follows U (Client_ListTags S M i)" "drifts.follows U (Client_AddTag S M i k v)" "drifts.follows U (Client_DeleteTag S M i k)"
    "drifts.follows U (Client_ChangeSecurityGroup S M i k)" for i n k v
    unfolding method_defs using cloud unfolding cloud_names_def by (auto intro!: rules)
  have "drift (site_fleet U) s s' \<and> (\<forall>i. r = Inr i \<longrightarrow> i = [] \<or> fl_name (site_fleet U) s' i = Some (in_Name inp))"
    if "run_state (Client_Create S M inp) s = (r, s')" for inp s r s'
    using movesD [OF site_moves [OF create] that] Create_named [OF cloud, of M inp s _ s'] that by auto
  then show ?thesis
    unfolding huawei_laws_def client_interface_def using others by (auto intro!: site_moves)
qed

lemma moves_ask: "moves (drift U) op \<Longrightarrow> moves (drift (site_fleet U)) (run_state (ask op))"
  by (rule site_moves, rule drifts.follows_ask)

lemma stores_ask: "stores U op \<Longrightarrow> stores (site_fleet U) (\<lambda>x. run_state (ask (op x)))"
  unfolding stores_def by (auto dest!: run_askD simp del: run_ask)

lemma operator_kube_laws:
  assumes "kube_laws R U"
  shows "kube_laws (operator R S M) (site_fleet U)"
  using assms unfolding kube_laws_def operator_def
  by (auto intro!: moves_ask stores_ask dest!: run_askD simp del: run_ask)

section \<open>The operator over a fleet\<close>

text \<open>
  C11. The recorded ids stay right. Passes of the operator over any resources in any order, stale reads, refused and
  failed writes, creations that were lost, and changes of users between and during the passes, a new \<open>fsName\<close> for a resource
  that tracks a file system among them: if every recorded id names a file system that was given out under a name its resource asks or asked for,
  every one still does so at the end, and all that happened is of the kind that may happen
  during any call. So workers that run at the same time do not disturb each other in this. What users may not do is write the id of some other
  file system into a status.
\<close>

theorem ids_stay_own:
  assumes "kube_laws R U" and "cloud_names S U" and "metadata_moves M U" and "owned U (outside s)"
    and "fleet_run (operator R S M) (site_fleet U) s tr t"
  shows "owned U (outside t) \<and> drift U (outside s) (outside t)"
proof -
  have "huawei_laws (Huawei (operator R S M)) (site_fleet U)"
    using client_huawei_laws [OF assms(2,3)] by (simp add: operator_def)
  from fleet_run_owned [OF assms(5) operator_kube_laws [OF assms(1)] this] assms(4) show ?thesis by simp
qed

text \<open>
  C7. No pass touches the file system of another resource. In such a run, if two passes make calls about the same file
  system, it has a name that each of the two resources asks or asked for. So resources that never asked for the same \<open>spec.fsName\<close>
  never get, expand, tag, re-secure or delete each other's file systems. Names that are the same are not told
  apart, and neither is one that was renamed away from: the concrete instance has one resource deleting the file system which another one tracks
  and wants to retain, though the spec of that one now asks for another name.
\<close>

theorem names_keep_apart:
  assumes "kube_laws R U" and "cloud_names S U" and "metadata_moves M U" and "owned U (outside s)"
    and "fleet_run (operator R S M) (site_fleet U) s tr t"
    and "(n, u) \<in> set tr" and "c \<in> set (pass_calls (operator R S M) n u)" and "i \<in> set (addressed c)"
    and "(m, v) \<in> set tr" and "d \<in> set (pass_calls (operator R S M) m v)" and "i \<in> set (addressed d)"
  shows "\<exists>nm. fl_name U (outside t) i = Some nm \<and> nm \<in> asked U (outside t) n \<and> nm \<in> asked U (outside t) m"
proof -
  have "huawei_laws (Huawei (operator R S M)) (site_fleet U)"
    using client_huawei_laws [OF assms(2,3)] by (simp add: operator_def)
  note own = fleet_addresses_own [OF assms(5) operator_kube_laws [OF assms(1)] this]
  from own [OF _ assms(6-8)] own [OF _ assms(9-11)] assms(4) show ?thesis by fastforce
qed

section \<open>Two resources of one name\<close>

text \<open>
  A store of versions, newest first, which refuses the write of an object whose \<open>fsName\<close> or id changed meanwhile; and a
  cloud with one file system, which is called data.
\<close>

type_synonym store = "NamespacedName \<Rightarrow> SfsTurboInstance list"

definition put_version :: "(SfsTurboInstance \<Rightarrow> SfsTurboInstance) \<Rightarrow> SfsTurboInstance \<Rightarrow> store \<Rightarrow> (err + SfsTurboInstance) \<times> store" where
  "put_version f x w = (case w (key_of x) of
       [] \<Rightarrow> (Inl not_found_error, w)
     | cr # crs \<Rightarrow> if same_share x (f cr) then (Inr (f cr), w(key_of x := f cr # cr # crs)) else (Inl (OtherError ''conflict''), w))"

definition demo_fleet_server :: "store Reconciler" where
  "demo_fleet_server = \<lparr>
     Client = \<lparr>
       kGetCR = (\<lambda>n w. case w n of
           [] \<Rightarrow> (Inl not_found_error, w)
         | cr # _ \<Rightarrow> if key_of cr = n \<and> wf_map (sp_Tags (cr_Spec cr)) then (Inr cr, w) else (Inl (OtherError ''decode''), w)),
       kUpdateCR = (\<lambda>x. put_version (\<lambda>cr. x\<lparr>cr_Status := cr_Status cr\<rparr>) x),
       kStatusUpdate = (\<lambda>x. put_version (\<lambda>cr. cr\<lparr>cr_Status := cr_Status x\<rparr>) x),
       kGetPV = (\<lambda>_ w. (Inl not_found_error, w)), kCreatePV = (\<lambda>_ w. (None, w)), kUpdatePV = (\<lambda>_ w. (None, w)),
       kDeletePV = (\<lambda>_ w. (None, w)), kGetPVC = (\<lambda>_ w. (Inl not_found_error, w)),
       kCreatePVC = (\<lambda>_ w. (None, w)), kDeletePVC = (\<lambda>_ w. (None, w))\<rparr>,
     Huawei = \<lparr>
       Create = (\<lambda>_ w. (Inl ErrFsNotFound, w)), Get = (\<lambda>_ w. (Inl ErrFsNotFound, w)), Delete = (\<lambda>_ w. (None, w)),
       FindByName = (\<lambda>_ w. (Inl ErrFsNotFound, w)), Expand = (\<lambda>_ _ w. (None, w)), ListTags = (\<lambda>_ w. (Inr [], w)),
       AddTag = (\<lambda>_ _ _ w. (None, w)), DeleteTag = (\<lambda>_ _ w. (None, w)), ChangeSecurityGroup = (\<lambda>_ _ w. (None, w))\<rparr>,
     Lib = demo_library,
     Now = (\<lambda>w. (demo_time, w))\<rparr>"

definition demo_fleet :: "store fleet" where
  "demo_fleet = \<lparr>fl_versions = (\<lambda>w n. set (w n)), fl_name = (\<lambda>_ i. if i = ''fs-1'' then Some ''data'' else None)\<rparr>"

definition demo_fleet_cloud :: "(store, string, string \<times> string, string) SDK" where
  "demo_fleet_cloud = demo_sdk\<lparr>
     sdk_ListShares := (\<lambda>_ w. (Inr (Some [demo_listing ''fs-1'' ''data'']), w)),
     sdk_ShowShare := (\<lambda>_ _ w. (Inr (Some (demo_response\<lparr>rs_Status := Some ''100''\<rparr>)), w))\<rparr>"

lemma put_version_stores:
  assumes "\<And>x. put x = put_version (f x) x"
  shows "stores demo_fleet put"
  unfolding stores_def
proof (intro allI impI conjI)
  fix x w r w'
  assume run: "put x w = (r, w')"
  consider "w' = w" "\<forall>y. r \<noteq> Inr y" | y cr crs where "r = Inr y" "same_share x y" "w' = w(key_of x := y # cr # crs)" "w (key_of x) = cr # crs"
    using run by (auto simp: assms put_version_def split: list.splits if_splits)
  then show "grows demo_fleet [x] w w'"
    by cases (auto simp: grows_def demo_fleet_def same_share_def)
  show "same_share x y" if "r = Inr y" for y
    using run that by (auto simp: assms put_version_def split: list.splits if_splits)
qed

lemma demo_fleet_kube: "kube_laws demo_fleet_server demo_fleet"
  unfolding kube_laws_def demo_fleet_server_def
  by (auto simp: moves_def drift_refl intro!: put_version_stores split: list.splits if_splits) (auto simp: demo_fleet_def)

lemma demo_fleet_names: "cloud_names demo_fleet_cloud demo_fleet"
  by (auto simp: cloud_names_def demo_fleet_cloud_def demo_sdk_def demo_listing_def moves_def drift_refl demo_fleet_def)

lemma demo_fleet_metadata: "metadata_moves demo_service demo_fleet"
  by (auto simp: metadata_moves_def demo_service_def demo_metadata_def moves_def drift_refl)

text \<open>
  The first resource asked for data, got it and was renamed; the second one has the first name in its spec, has found the file system and
  is being deleted with it.
\<close>

definition demo_renamed :: SfsTurboInstance where
  "demo_renamed = demo_tracked\<lparr>cr_Spec := demo_spec\<lparr>sp_FsName := ''renamed''\<rparr>\<rparr>"

definition demo_copy :: SfsTurboInstance where
  "demo_copy = demo_doomed\<lparr>cr_Name := ''copy''\<rparr>"

definition demo_pair :: "(store, string, string) site" where
  "demo_pair = \<lparr>outside = (\<lambda>_. [])(key_of demo_tracked := [demo_renamed, demo_tracked], key_of demo_copy := [demo_copy]),
     client = \<lparr>cl_cfg = demo_config, cl_region = ''ap-southeast-1'', cl_podAgency = None, cl_sdk = Some ''AK''\<rparr>\<rparr>"

abbreviation demo_fleet_operator :: "(store, string, string) site Reconciler" where
  "demo_fleet_operator \<equiv> operator demo_fleet_server demo_fleet_cloud demo_service"

lemma demo_pair_reads:
  "kGetCR (Reconciler.Client demo_fleet_operator) (key_of demo_tracked) demo_pair = (Inr demo_renamed, demo_pair)"
  "kGetCR (Reconciler.Client demo_fleet_operator) (key_of demo_copy) demo_pair = (Inr demo_copy, demo_pair)"
  by (simp_all add: operator_def demo_fleet_server_def demo_pair_def key_of_def demo_copy_def demo_renamed_def demo_defs wf_map_def)

lemma demo_pair_get:
  "Get (Huawei demo_fleet_operator) i demo_pair = (Inr (share_info i (demo_response\<lparr>rs_Status := Some ''100''\<rparr>)), demo_pair)"
  by (simp add: operator_def client_interface_def Client_Get_def with_sdk_def ensureSDK_def demo_pair_def demo_fleet_cloud_def demo_sdk_def)

lemma demo_pair_owned: "owned demo_fleet (outside demo_pair)"
  by (auto simp: owned_def named_for_def asked_def demo_fleet_def demo_pair_def demo_copy_def demo_renamed_def key_of_def demo_defs)

text \<open>A pass over the first one looks at the file system and leaves the world as it was.\<close>

lemma waiting_calls:
  assumes "kGetCR (Reconciler.Client R) req w = (Inr cr, w1)" and "active (Lib R) cr" and "st_FsId (cr_Status cr) \<noteq> []"
    and "Get (Huawei R) (st_FsId (cr_Status cr)) w1 = (Inr info, w2)" and "\<not> IsAvailable (si_Status info)" and "\<not> IsErrored (si_Status info)"
  shows "world (snd (pass R req w)) = w2 \<and> (\<exists>g. CallGet (st_FsId (cr_Status cr)) g \<in> set (pass_calls R req w))"
proof -
  have "wp (reconcile_body R req) (\<lambda>r t. world t = w2 \<and> (\<exists>g. CallGet (st_FsId (cr_Status cr)) g \<in> set (calls t))) (start w)"
    using assms by (auto simp: reconcile_body_def reconcilePoll_def wp_rules active_def deleting_def protected_def)
  then show ?thesis by (rule pass_body) (auto simp: pass_calls_def)
qed

lemma demo_first_pass:
  "world (snd (pass demo_fleet_operator (key_of demo_tracked) demo_pair)) = demo_pair
   \<and> (\<exists>g. CallGet ''fs-1'' g \<in> set (pass_calls demo_fleet_operator (key_of demo_tracked) demo_pair))"
proof -
  have "active (Lib demo_fleet_operator) demo_renamed" and id: "st_FsId (cr_Status demo_renamed) = ''fs-1''"
    by (simp_all add: demo_fleet_server_def demo_renamed_def demo_defs active_def deleting_def protected_def timestamp_IsZero_def)
  from waiting_calls [OF demo_pair_reads(1) this(1) _ demo_pair_get] show ?thesis
    by (simp add: id share_info_def value_or_zero_def IsAvailable_def IsErrored_def)
qed

lemma demo_second_pass: "\<exists>d. CallDelete ''fs-1'' d \<in> set (pass_calls demo_fleet_operator (key_of demo_copy) demo_pair)"
proof -
  have "tearing_down (Lib demo_fleet_operator) demo_copy" "\<not> hasConditionTrue demo_copy ConditionDeleting"
    "st_FsId (cr_Status demo_copy) = ''fs-1''"
    by (simp_all add: demo_fleet_server_def demo_copy_def demo_defs demo_time_def tearing_down_def deleting_def protected_def
        timestamp_IsZero_def time_IsZero_def second_def hasConditionTrue_def)
  with teardown_destroys [OF demo_pair_reads(2) this(1,2) demo_pair_get] show ?thesis by simp
qed

lemma demo_pair_run:
  "\<exists>t. fleet_run demo_fleet_operator (site_fleet demo_fleet) demo_pair [(key_of demo_tracked, demo_pair), (key_of demo_copy, demo_pair)] t"
  using run_pass [OF run_pass [OF run_start], of demo_fleet_operator "site_fleet demo_fleet" demo_pair "key_of demo_tracked" "key_of demo_copy"]
    demo_first_pass by auto

theorem ids_stay_own_witness:
  "\<exists>t. fleet_run demo_fleet_operator (site_fleet demo_fleet) demo_pair [(key_of demo_tracked, demo_pair), (key_of demo_copy, demo_pair)] t
     \<and> owned demo_fleet (outside t)"
proof -
  from demo_pair_run obtain t where t: "fleet_run demo_fleet_operator (site_fleet demo_fleet) demo_pair
      [(key_of demo_tracked, demo_pair), (key_of demo_copy, demo_pair)] t" by blast
  from ids_stay_own [OF demo_fleet_kube demo_fleet_names demo_fleet_metadata demo_pair_owned t] t show ?thesis by blast
qed

theorem names_keep_apart_witness:
  "(\<exists>d. CallDelete ''fs-1'' d \<in> set (pass_calls demo_fleet_operator (key_of demo_copy) demo_pair))
   \<and> st_FsId (cr_Status demo_renamed) = ''fs-1'' \<and> sp_ReclaimPolicy (cr_Spec demo_renamed) = ReclaimPolicyRetain
   \<and> sp_FsName (cr_Spec demo_renamed) \<noteq> sp_FsName (cr_Spec demo_copy)
   \<and> (\<exists>t. fleet_run demo_fleet_operator (site_fleet demo_fleet) demo_pair [(key_of demo_tracked, demo_pair), (key_of demo_copy, demo_pair)] t
     \<and> ''data'' \<in> asked demo_fleet (outside t) (key_of demo_tracked) \<and> ''data'' \<in> asked demo_fleet (outside t) (key_of demo_copy))"
proof -
  obtain t g d where t: "fleet_run demo_fleet_operator (site_fleet demo_fleet) demo_pair
      [(key_of demo_tracked, demo_pair), (key_of demo_copy, demo_pair)] t"
    and g: "CallGet ''fs-1'' g \<in> set (pass_calls demo_fleet_operator (key_of demo_tracked) demo_pair)"
    and d: "CallDelete ''fs-1'' d \<in> set (pass_calls demo_fleet_operator (key_of demo_copy) demo_pair)"
    using demo_pair_run demo_first_pass demo_second_pass by blast
  have "(key_of demo_tracked, demo_pair) \<in> set [(key_of demo_tracked, demo_pair), (key_of demo_copy, demo_pair)]"
    "(key_of demo_copy, demo_pair) \<in> set [(key_of demo_tracked, demo_pair), (key_of demo_copy, demo_pair)]"
    "''fs-1'' \<in> set (addressed (CallGet ''fs-1'' g))" "''fs-1'' \<in> set (addressed (CallDelete ''fs-1'' d))" by simp_all
  from names_keep_apart [OF demo_fleet_kube demo_fleet_names demo_fleet_metadata demo_pair_owned t this(1) g this(3) this(2) d this(4)]
  have "''data'' \<in> asked demo_fleet (outside t) (key_of demo_tracked) \<and> ''data'' \<in> asked demo_fleet (outside t) (key_of demo_copy)"
    by (simp add: demo_fleet_def split: if_splits)
  with t have "\<exists>t. fleet_run demo_fleet_operator (site_fleet demo_fleet) demo_pair [(key_of demo_tracked, demo_pair), (key_of demo_copy, demo_pair)] t
     \<and> ''data'' \<in> asked demo_fleet (outside t) (key_of demo_tracked) \<and> ''data'' \<in> asked demo_fleet (outside t) (key_of demo_copy)" by blast
  then show ?thesis using d by (auto simp: demo_renamed_def demo_copy_def demo_defs)
qed

end
