(* ===== verification/Mounts.thy ===== *)
theory Mounts
  imports Convergence
begin

text \<open>
  What the pods mount. The PV of a CR is found by its name alone, and one that is there is taken as it is: whatever file
  system its \<open>volumeHandle\<close> names, no pass gives it another one, also when the CR itself moves on to a new file system.
\<close>

text \<open>A call that would let the PV name a file system other than \<open>src\<close>.\<close>

fun repoints :: "CSIPersistentVolumeSource option \<Rightarrow> call \<Rightarrow> bool" where
  "repoints src (CallCreatePV x r) = True"
| "repoints src (CallUpdatePV x r) = (pv_CSI x \<noteq> src)"
| "repoints src _ = False"

text \<open>The PV that is there, as every read of it answers.\<close>

definition mounted :: "'w Reconciler \<Rightarrow> CSIPersistentVolumeSource option \<Rightarrow> bool" where
  "mounted R src \<longleftrightarrow> (\<forall>n w r w'. kGetPV (Client R) n w = (r, w') \<longrightarrow> (\<exists>pv. r = Inr pv \<and> pv_CSI pv = src))"

abbreviation leaves :: "CSIPersistentVolumeSource option \<Rightarrow> ('w, 'a) rec \<Rightarrow> bool" where
  "leaves src m \<equiv> emits (\<lambda>c. \<not> repoints src c) m"

lemma leaves_ensurePV [emits_rules]: "mounted R src \<Longrightarrow> leaves src (ensurePV R sc q)"
  unfolding emits_def ensurePV_def mounted_def by (fastforce simp: wp_rules split: sum.split)

lemma leaves_volumes [emits_rules]:
  "mounted R src \<Longrightarrow> leaves src (ensurePVPVC R)" "leaves src (cascadeDeletePVPVC R)"
  unfolding ensurePVPVC_def ensurePVC_def cascadeDeletePVPVC_def cascadeDeletePVC_def cascadeDeletePV_def Let_def
  by (intro emits_rules; simp)+

lemma leaves_status [emits_rules]:
  "leaves src (setCondition R t st rs msg)" "leaves src (patchStatus R)" "leaves src (removeFinalizer R)"
  unfolding setCondition_def patchStatus_def removeFinalizer_def by (intro emits_rules; simp)+

lemma leaves_add_missing [emits_rules]: "leaves src (add_missing R desired live changed)"
  by (induction R desired live changed rule: add_missing.induct) (auto intro!: emits_rules)

lemma leaves_delete_extras [emits_rules]: "leaves src (delete_extras R desired ks live changed)"
  by (induction R desired ks live changed rule: delete_extras.induct) (auto intro!: emits_rules)

lemma leaves_parts [emits_rules]:
  "leaves src (report_failure R t st rs e)" "leaves src k \<Longrightarrow> leaves src (patch_then R k)" "leaves src (reconcileTagsDrift R)"
  unfolding report_failure_def patch_then_def reconcileTagsDrift_def by (intro emits_rules; simp)+

lemma leaves_branches [emits_rules]:
  assumes "mounted R src"
  shows "leaves src (reconcileDelete R)" "leaves src (reconcileCreate R)" "leaves src (reconcilePoll R)"
  unfolding reconcileDelete_def delete_live_def delete_share_def reconcileCreate_def reconcilePoll_def poll_available_def
    poll_record_def poll_resize_def poll_grow_def poll_drift_def poll_immutable_def poll_sg_drift_def poll_sg_settled_def
    poll_tags_def poll_finish_def poll_missing_def poll_errored_def Let_def
  by (intro emits_rules assms; simp)+

lemma leaves_pass:
  assumes "mounted R src" and "c \<in> set (pass_calls R req w)"
  shows "\<not> repoints src c"
proof -
  have "leaves src (reconcile_body R req)"
    unfolding reconcile_body_def by (intro emits_rules assms(1); simp)
  then have "wp (reconcile_body R req) (\<lambda>_ t. list_all (\<lambda>c. \<not> repoints src c) (calls t)) (start w)"
    by (rule wp_emits) simp
  then obtain r t where "list_all (\<lambda>c. \<not> repoints src c) (calls t)"
    and "pass R req w = (r, t\<lparr>calls := calls t @ [MetricReconcileTotal (nn_Namespace req) (outcome_label r)]\<rparr>)"
    by (rule pass_body)
  then show ?thesis using assms(2) by (auto simp: pass_calls_def list_all_iff)
qed

text \<open>
  C23. A PV that is there is never pointed at another file system. In the environment of \<open>becomes_ready\<close>, with a PV under
  the CR's name that names any file system \<open>src\<close>, the passes still reach a point where the CR says Ready for the file system it
  tracks, and no pass on the way or later creates the PV or gives it another source. The concrete instance is
  a CR whose first file system is gone: it becomes ready with a new one, while pods go on to mount the one that is gone.
\<close>

theorem old_volume_is_kept:
  assumes "server_works R req V" and "api_works R V" and "finalizer_laws (Lib R)"
    and "wanted (Lib R) (vw_cr V w)" and "\<And>n. vw_fs V w \<noteq> Some ([], n)" and "mounted R src"
  shows "\<exists>n. \<forall>m\<ge>n. outcome_of R req w m = (no_requeue, None) \<and> ready V (world_after R req w (Suc m))
    \<and> (\<forall>k. list_all (\<lambda>c. \<not> repoints src c) (pass_calls R req (world_after R req w k)))"
  using settles [OF assms(1-5)] leaves_pass [OF assms(6)] by (auto simp: list_all_iff)

definition demo_old_pv :: PersistentVolume where
  "demo_old_pv = buildPV (demo_confused\<lparr>cr_Status := (cr_Status demo_confused)\<lparr>st_ExportPath := ''ip:/''\<rparr>\<rparr>) ''csi-sfsturbo'' (Quantity ''500Gi'')"

definition demo_mounting :: "(SfsTurboInstance \<times> (string \<times> nat) option) Reconciler" where
  "demo_mounting = demo_cluster\<lparr>Client := (Client demo_cluster)\<lparr>kGetPV := (\<lambda>_ w. (Inr demo_old_pv, w))\<rparr>\<rparr>"

lemma demo_mounting_server: "server_works demo_mounting req demo_view"
  unfolding server_works_def
  by (auto simp: demo_mounting_def demo_cluster_def demo_view_def seen_def calm_def demo_library_def Let_def)

lemma demo_mounting_api: "api_works demo_mounting demo_view"
proof -
  have "Huawei demo_mounting = Huawei demo_cluster" by (simp add: demo_mounting_def)
  then show ?thesis using demo_api_works unfolding api_works_def tag_calls_calm_def by (elim ssubst)
qed

lemma demo_mounting_mounted: "mounted demo_mounting (pv_CSI demo_old_pv)"
  by (simp add: demo_mounting_def mounted_def)

theorem old_volume_is_kept_witness:
  "map_option csi_VolumeHandle (pv_CSI demo_old_pv) = Some ''fs-0''
   \<and> (\<exists>n. ready demo_view (world_after demo_mounting demo_req (demo_confused, Some (''fs-1'', 1)) (Suc n))
        \<and> (\<forall>k. list_all (\<lambda>c. \<not> repoints (pv_CSI demo_old_pv) c)
             (pass_calls demo_mounting demo_req (world_after demo_mounting demo_req (demo_confused, Some (''fs-1'', 1)) k))))"
proof -
  let ?w = "(demo_confused, Some (''fs-1'', 1))"
  have laws: "finalizer_laws (Lib demo_mounting)" using demo_library_laws by (simp add: demo_mounting_def demo_cluster_def)
  have want: "wanted (Lib demo_mounting) (vw_cr demo_view ?w)"
    by (simp add: demo_mounting_def demo_cluster_def demo_view_def demo_confused_def demo_new_def demo_defs wanted_def deleting_def
        timestamp_IsZero_def wf_map_def)
  have fs: "\<And>n. vw_fs demo_view ?w \<noteq> Some ([], n)" by (simp add: demo_view_def)
  have "map_option csi_VolumeHandle (pv_CSI demo_old_pv) = Some ''fs-0''"
    by (simp add: demo_old_pv_def buildPV_def demo_confused_def)
  with old_volume_is_kept [OF demo_mounting_server demo_mounting_api laws want fs demo_mounting_mounted, of demo_req] show ?thesis by blast
qed

end
