(* ===== verification/Turns.thy ===== *)
theory Turns
  imports Fleet
begin

text \<open>
  Convergence in company. The passes over one resource are interleaved with passes over others, in any order in which it
  gets its turn again and again. A pass over another resource, whose file system has another name, leaves alone
  what this one's convergence depends on, so it becomes ready as if it were alone.
\<close>

section \<open>Calls that do no harm\<close>

text \<open>
  What a call over another resource must not be about, for the resource \<open>n\<close>, the name \<open>nm\<close> of its file system, and the id
  of the file system of that name.
\<close>

fun harmless :: "NamespacedName \<Rightarrow> string \<Rightarrow> string option \<Rightarrow> call \<Rightarrow> bool" where
  "harmless n nm i (CallGetCR m r) = (m \<noteq> n)"
| "harmless n nm i (CallUpdateCR x r) = (key_of x \<noteq> n)"
| "harmless n nm i (CallStatusUpdate x r) = (key_of x \<noteq> n)"
| "harmless n nm i (CallCreate inp r) = (in_Name inp \<noteq> nm)"
| "harmless n nm i (CallGet j r) = (i \<noteq> Some j)"
| "harmless n nm i (CallDelete j r) = (i \<noteq> Some j)"
| "harmless n nm i (CallExpand j m r) = (i \<noteq> Some j)"
| "harmless n nm i (CallChangeSecurityGroup j g r) = (i \<noteq> Some j)"
| "harmless n nm i _ = True"

text \<open>A call about another file system leaves the one in view alone.\<close>

definition elsewhere :: "('w, string \<times> nat) view \<Rightarrow> string \<Rightarrow> ('w \<Rightarrow> 'a \<times> 'w) \<Rightarrow> bool" where
  "elsewhere V j op \<longleftrightarrow> (\<forall>w r w'. map_option fst (vw_fs V w) \<noteq> Some j \<longrightarrow> op w = (r, w') \<longrightarrow> seen V w' = seen V w)"

definition stays_away :: "'w Reconciler \<Rightarrow> NamespacedName \<Rightarrow> string \<Rightarrow> ('w, string \<times> nat) view \<Rightarrow> bool" where
  "stays_away R n nm V \<longleftrightarrow>
     (\<forall>m. m \<noteq> n \<longrightarrow> calm (seen V) (\<lambda>_. True) (kGetCR (Reconciler.Client R) m))
   \<and> (\<forall>x. key_of x \<noteq> n \<longrightarrow> calm (seen V) (\<lambda>_. True) (kUpdateCR (Reconciler.Client R) x))
   \<and> (\<forall>x. key_of x \<noteq> n \<longrightarrow> calm (seen V) (\<lambda>_. True) (kStatusUpdate (Reconciler.Client R) x))
   \<and> (\<forall>x. calm (seen V) (\<lambda>_. True) (kDeletePV (Reconciler.Client R) x))
   \<and> (\<forall>x. calm (seen V) (\<lambda>_. True) (kDeletePVC (Reconciler.Client R) x))
   \<and> (\<forall>inp. in_Name inp \<noteq> nm \<longrightarrow> calm (seen V) (\<lambda>_. True) (Create (Huawei R) inp))
   \<and> (\<forall>j. elsewhere V j (Get (Huawei R) j)) \<and> (\<forall>j. elsewhere V j (Delete (Huawei R) j))
   \<and> (\<forall>j m. elsewhere V j (Expand (Huawei R) j m)) \<and> (\<forall>j g. elsewhere V j (ChangeSecurityGroup (Huawei R) j g))"

text \<open>As long as no call does harm, the view stays as it was.\<close>

definition unharmed :: "('w, string \<times> nat) view \<Rightarrow> NamespacedName \<Rightarrow> string \<Rightarrow> SfsTurboInstance \<times> (string \<times> nat) option \<Rightarrow> 'w pass \<Rightarrow> bool" where
  "unharmed V n nm x s \<longleftrightarrow> (list_all (harmless n nm (map_option fst (snd x))) (calls s) \<longrightarrow> seen V (world s) = x)"

lemma unharmed_invoke:
  assumes "\<And>w r w'. seen V w = x \<Longrightarrow> op w = (r, w') \<Longrightarrow> harmless n nm (map_option fst (snd x)) (ev r) \<Longrightarrow> seen V w' = x"
  shows "maintains (unharmed V n nm x) (invoke op ev)"
  using assms by (auto simp: maintains_def wp_rules unharmed_def)

lemma unharmed_calm: "calm (seen V) good op \<Longrightarrow> maintains (unharmed V n nm x) (invoke op ev)"
  by (rule unharmed_invoke) (auto dest: calmD)

lemma unharmed_guarded:
  assumes "P \<Longrightarrow> calm (seen V) good op" and "\<And>r. harmless n nm (map_option fst (snd x)) (ev r) \<Longrightarrow> P"
  shows "maintains (unharmed V n nm x) (invoke op ev)"
  by (rule unharmed_invoke) (use assms in \<open>blast dest: calmD\<close>)

lemma unharmed_elsewhere:
  assumes "elsewhere V j op" and "\<And>r. harmless n nm (map_option fst (snd x)) (ev r) \<Longrightarrow> map_option fst (snd x) \<noteq> Some j"
  shows "maintains (unharmed V n nm x) (invoke op ev)"
  by (rule unharmed_invoke) (use assms in \<open>auto simp: elsewhere_def seen_def\<close>)

lemma unharmed_update [maintains_rules]: "maintains (unharmed V n nm x) (update_sfsti f)"
  by (rule maintains_modify) (simp add: unharmed_def)

text \<open>The laws under which the resource \<open>n\<close> converges, and those that let others do no harm.\<close>

definition company :: "'w Reconciler \<Rightarrow> NamespacedName \<Rightarrow> string \<Rightarrow> ('w, string \<times> nat) view \<Rightarrow> bool" where
  "company R n nm V \<longleftrightarrow> server_works R n V \<and> api_works R V \<and> stays_away R n nm V"

lemma company_clock: "company R n nm V \<Longrightarrow> calm (seen V) (\<lambda>_. True) (Now R)"
  by (auto simp: company_def intro: server_clock)

lemma unharmed_setCondition [maintains_rules]:
  "company R n nm V \<Longrightarrow> maintains (unharmed V n nm x) (setCondition R t st rs msg)"
  by (auto simp: maintains_def wp_rules unharmed_def dest: calmD [OF company_clock])

lemma unharmed_writes [maintains_rules]:
  assumes "company R n nm V"
  shows "maintains (unharmed V n nm x) (invoke (kUpdateCR (Reconciler.Client R) y) (CallUpdateCR y))"
    and "maintains (unharmed V n nm x) (invoke (kStatusUpdate (Reconciler.Client R) y) (CallStatusUpdate y))"
  using assms unfolding company_def stays_away_def
  by (auto intro!: unharmed_guarded [where P = "key_of y \<noteq> n" and good = "\<lambda>_. True"])

lemma unharmed_answers [maintains_rules]:
  assumes "company R n nm V"
  shows "maintains (unharmed V n nm x) (patchStatus R)" and "maintains (unharmed V n nm x) (removeFinalizer R)"
  unfolding patchStatus_def removeFinalizer_def by (intro maintains_rules assms)+

lemma unharmed_parts [maintains_rules]:
  assumes "company R n nm V"
  shows "maintains (unharmed V n nm x) (report_failure R t st rs e)"
    and "maintains (unharmed V n nm x) k \<Longrightarrow> maintains (unharmed V n nm x) (patch_then R k)"
  unfolding report_failure_def patch_then_def by (intro maintains_rules assms; assumption)+

lemma unharmed_volumes [maintains_rules]:
  assumes "company R n nm V"
  shows "maintains (unharmed V n nm x) (ensurePVPVC R)" and "maintains (unharmed V n nm x) (cascadeDeletePVPVC R)"
  using assms unfolding volume_defs Let_def company_def server_works_def stays_away_def
  by (auto intro!: maintains_rules unharmed_calm)

lemma unharmed_tags [maintains_rules]:
  assumes "company R n nm V"
  shows "maintains (unharmed V n nm x) (poll_tags R info)"
proof (rule maintains_poll_tags)
  show "tag_calls_calm R V" using assms by (simp add: company_def api_calm)
qed (intro maintains_rules unharmed_calm assms; assumption)+

lemma unharmed_about [maintains_rules]:
  assumes "company R n nm V"
  shows "maintains (unharmed V n nm x) (invoke (Get (Huawei R) j) (CallGet j))"
    and "maintains (unharmed V n nm x) (invoke (Delete (Huawei R) j) (CallDelete j))"
    and "maintains (unharmed V n nm x) (invoke (Expand (Huawei R) j m) (CallExpand j m))"
    and "maintains (unharmed V n nm x) (invoke (ChangeSecurityGroup (Huawei R) j g) (CallChangeSecurityGroup j g))"
  using assms unfolding company_def stays_away_def by (auto intro!: unharmed_elsewhere)

lemma unharmed_made [maintains_rules]:
  assumes "company R n nm V"
  shows "maintains (unharmed V n nm x) (invoke (Create (Huawei R) inp) (CallCreate inp))"
  using assms unfolding company_def stays_away_def
  by (auto intro!: unharmed_guarded [where P = "in_Name inp \<noteq> nm" and good = "\<lambda>_. True"])

lemma unharmed_poll_parts [maintains_rules]:
  assumes "company R n nm V"
  shows "maintains (unharmed V n nm x) (poll_record R info)" and "maintains (unharmed V n nm x) (poll_immutable R info)"
    and "maintains (unharmed V n nm x) (poll_sg_settled R info)" and "maintains (unharmed V n nm x) (poll_finish R)"
    and "maintains (unharmed V n nm x) (poll_errored R info)" and "maintains (unharmed V n nm x) (poll_missing R)"
    and "maintains (unharmed V n nm x) (poll_resize R info)" and "maintains (unharmed V n nm x) (poll_sg_drift R info)"
  unfolding poll_record_def poll_immutable_def poll_sg_settled_def poll_finish_def poll_errored_def poll_missing_def
    poll_resize_def poll_grow_def poll_sg_drift_def Let_def
  by (intro maintains_rules assms)+

lemma unharmed_branches [maintains_rules]:
  assumes "company R n nm V"
  shows "maintains (unharmed V n nm x) (reconcileDelete R)" and "maintains (unharmed V n nm x) (reconcileCreate R)"
    and "maintains (unharmed V n nm x) (reconcilePoll R)"
  unfolding reconcileDelete_def delete_live_def delete_share_def reconcileCreate_def reconcilePoll_def poll_available_def poll_drift_def
  by (intro maintains_rules assms)+

lemma unharmed_body:
  assumes "company R n nm V"
  shows "maintains (unharmed V n nm x) (reconcile_body R m)"
proof -
  have "maintains (unharmed V n nm x) (invoke (kGetCR (Reconciler.Client R) m) (CallGetCR m))"
    using assms unfolding company_def stays_away_def
    by (auto intro!: unharmed_guarded [where P = "m \<noteq> n" and good = "\<lambda>_. True"])
  then show ?thesis
    unfolding reconcile_body_def by (intro maintains_rules assms)
qed

section \<open>A pass writes its own object\<close>

definition own_write :: "NamespacedName \<Rightarrow> call \<Rightarrow> bool" where
  "own_write m c \<longleftrightarrow> (\<forall>k r x. (c = CallGetCR k r \<longrightarrow> k = m) \<and> (c = CallUpdateCR x r \<or> c = CallStatusUpdate x r \<longrightarrow> key_of x = m))"

text \<open>A read answers the object asked for, and a write the object that was written.\<close>

definition answers_key :: "'w Reconciler \<Rightarrow> bool" where
  "answers_key R \<longleftrightarrow> (\<forall>m w x w'. kGetCR (Reconciler.Client R) m w = (Inr x, w') \<longrightarrow> key_of x = m)
     \<and> (\<forall>x w y w'. kUpdateCR (Reconciler.Client R) x w = (Inr y, w') \<longrightarrow> key_of y = key_of x)
     \<and> (\<forall>x w y w'. kStatusUpdate (Reconciler.Client R) x w = (Inr y, w') \<longrightarrow> key_of y = key_of x)"

definition keyed :: "NamespacedName \<Rightarrow> 'w pass \<Rightarrow> bool" where
  "keyed m s \<longleftrightarrow> key_of (sfsti s) = m \<and> list_all (own_write m) (calls s)"

lemma keyed_invoke [maintains_rules]: "(\<And>r. own_write m (ev r)) \<Longrightarrow> maintains (keyed m) (invoke op ev)"
  by (auto simp: maintains_def wp_rules keyed_def)

lemma own_write_simps [simp]:
  "own_write m (CallGetPV p r1)" "own_write m (CallCreatePV pv r2)" "own_write m (CallUpdatePV pv r2)" "own_write m (CallDeletePV pv r2)"
  "own_write m (CallGetPVC k r3)" "own_write m (CallCreatePVC pvc r2)" "own_write m (CallDeletePVC pvc r2)"
  "own_write m (CallCreate inp r4)" "own_write m (CallGet i r5)" "own_write m (CallDelete i r2)" "own_write m (CallExpand i z r2)"
  "own_write m (CallListTags i r6)" "own_write m (CallAddTag i a b r2)" "own_write m (CallDeleteTag i a r2)"
  "own_write m (CallChangeSecurityGroup i a r2)" "own_write m (CallGetCR k r7) = (k = m)"
  "own_write m (CallUpdateCR x r7) = (key_of x = m)" "own_write m (CallStatusUpdate x r7) = (key_of x = m)" "own_write m (MetricReconcileTotal a b)"
  by (auto simp: own_write_def)

lemma keyed_update [maintains_rules]: "(\<And>x. key_of (f x) = key_of x) \<Longrightarrow> maintains (keyed m) (update_sfsti f)"
  by (rule maintains_modify) (simp add: keyed_def)

lemma keyed_setCondition [maintains_rules]: "maintains (keyed m) (setCondition R t st rs msg)"
  by (auto simp: maintains_def wp_rules keyed_def)

lemma keyed_answers [maintains_rules]:
  assumes "answers_key R"
  shows "maintains (keyed m) (patchStatus R)" and "maintains (keyed m) (removeFinalizer R)"
proof -
  have "kUpdateCR (Reconciler.Client R) x w = (Inr y, w') \<Longrightarrow> key_of y = key_of x"
    and "kStatusUpdate (Reconciler.Client R) x w = (Inr y, w') \<Longrightarrow> key_of y = key_of x" for x w y w'
    using assms unfolding answers_key_def by blast+
  then show "maintains (keyed m) (patchStatus R)" and "maintains (keyed m) (removeFinalizer R)"
    by (auto simp: maintains_def removeFinalizer_def wp_rules keyed_def split: sum.split)
qed

lemma keyed_parts [maintains_rules]:
  assumes "answers_key R"
  shows "maintains (keyed m) (report_failure R t st rs e)" and "maintains (keyed m) k \<Longrightarrow> maintains (keyed m) (patch_then R k)"
  unfolding report_failure_def patch_then_def by (intro maintains_rules assms; assumption)+

lemma keyed_volumes [maintains_rules]: "maintains (keyed m) (ensurePVPVC R)" "maintains (keyed m) (cascadeDeletePVPVC R)"
  unfolding volume_defs Let_def by (intro maintains_rules; simp)+

lemma keyed_add_missing [maintains_rules]: "maintains (keyed m) (add_missing R desired live changed)"
  by (induction R desired live changed rule: add_missing.induct) (auto intro!: maintains_rules)

lemma keyed_delete_extras [maintains_rules]: "maintains (keyed m) (delete_extras R desired ks live changed)"
  by (induction R desired ks live changed rule: delete_extras.induct) (auto intro!: maintains_rules)

lemma keyed_tags [maintains_rules]: "maintains (keyed m) (reconcileTagsDrift R)"
  unfolding reconcileTagsDrift_def by (intro maintains_rules; simp)

lemma keyed_branches [maintains_rules]:
  assumes "answers_key R"
  shows "maintains (keyed m) (reconcileDelete R)" and "maintains (keyed m) (reconcileCreate R)" and "maintains (keyed m) (reconcilePoll R)"
  unfolding reconcileDelete_def delete_live_def delete_share_def reconcileCreate_def reconcilePoll_def poll_available_def poll_record_def
    poll_resize_def poll_grow_def poll_drift_def poll_immutable_def poll_sg_drift_def poll_sg_settled_def poll_tags_def poll_finish_def
    poll_missing_def poll_errored_def Let_def
  by (intro maintains_rules assms; simp)+

lemma keyed_pass:
  assumes "answers_key R"
  shows "list_all (own_write m) (pass_calls R m w)"
proof -
  have upd: "kUpdateCR (Reconciler.Client R) x v = (Inr y, v') \<Longrightarrow> key_of y = key_of x"
    and get: "kGetCR (Reconciler.Client R) m v = (Inr y, v') \<Longrightarrow> key_of y = m" for x v y v'
    using assms unfolding answers_key_def by blast+
  have paused: "maintains (keyed m) (do {
      setCondition R ConditionProvisioning ConditionFalse ReasonReconcilePaused msg;
      e \<leftarrow> patchStatus R;
      State_Monad.return (no_requeue, e) })" for msg
    by (intro maintains_rules assms)
  have protect: "maintains (keyed m) (do {
      update_sfsti (\<lambda>cr. cr\<lparr>cr_Finalizers := f cr\<rparr>);
      cr' \<leftarrow> gets sfsti;
      u \<leftarrow> invoke (kUpdateCR (Reconciler.Client R) cr') (CallUpdateCR cr');
      (case u of
        Inl e \<Rightarrow> State_Monad.return (no_requeue, Some e)
      | Inr cr'' \<Rightarrow> do { update_sfsti (\<lambda>_. cr''); State_Monad.return (\<lparr>RequeueAfter = 1\<rparr>, None) }) })" for f
    by (auto simp: maintains_def wp_rules keyed_def split: sum.split dest: upd)
  have "wp (reconcile_body R m) (\<lambda>_ t. list_all (own_write m) (calls t)) (start w)"
    if "kGetCR (Reconciler.Client R) m w = (Inl e, w')" for e w'
    using that by (auto simp: reconcile_body_def wp_rules)
  moreover have read: "wp (reconcile_body R m) (\<lambda>_. keyed m) (start w)"
    if "kGetCR (Reconciler.Client R) m w = (Inr cr, w')" for cr w'
  proof -
    have "keyed m (s\<lparr>world := w', calls := [CallGetCR m r], sfsti := cr\<rparr>)" for s :: "'a pass" and r
      using get [OF that] by (simp add: keyed_def)
    then show ?thesis using that unfolding reconcile_body_def
      by (auto simp: wp_bind [of "invoke _ _"] wp_bind [of "update_sfsti (\<lambda>_. _)"] wp_invoke_eq wp_modify wp_if wp_case_sum
          intro!: maintainsD [OF paused] maintainsD [OF protect] maintainsD [OF keyed_branches(1) [OF assms]]
            maintainsD [OF keyed_branches(2) [OF assms]] maintainsD [OF keyed_branches(3) [OF assms]])
  qed
  have "wp (reconcile_body R m) (\<lambda>_ t. list_all (own_write m) (calls t)) (start w)"
    if "kGetCR (Reconciler.Client R) m w = (Inr cr, w')" for cr w'
    by (rule wp_mono [OF read [OF that]]) (simp add: keyed_def)
  ultimately have "wp (reconcile_body R m) (\<lambda>_ t. list_all (own_write m) (calls t)) (start w)"
    by (cases "kGetCR (Reconciler.Client R) m w"; cases "fst (kGetCR (Reconciler.Client R) m w)") auto
  then show ?thesis by (rule pass_body) (simp add: pass_calls_def)
qed

section \<open>A pass over another resource\<close>

text \<open>The file system in view is the one of the name.\<close>

definition views_name :: "'w fleet \<Rightarrow> string \<Rightarrow> ('w, string \<times> nat) view \<Rightarrow> bool" where
  "views_name F nm V \<longleftrightarrow> (\<forall>w i k. vw_fs V w = Some (i, k) \<longrightarrow> i = [] \<or> fl_name F w i = Some nm)"

text \<open>
  The answer of a read keeps out of the way: it asks for another name, and if its resource asked for this one before, it tracks no file
  system of it any more.
\<close>

definition keeps_out :: "'w fleet \<Rightarrow> string \<Rightarrow> NamespacedName \<Rightarrow> (err + SfsTurboInstance) \<times> 'w \<Rightarrow> bool" where
  "keeps_out F nm m rw \<longleftrightarrow> (\<forall>cr. fst rw = Inr cr \<longrightarrow> sp_FsName (cr_Spec cr) \<noteq> nm
     \<and> (nm \<in> asked F (snd rw) m \<longrightarrow> fl_name F (snd rw) (st_FsId (cr_Status cr)) \<noteq> Some nm))"

lemma keeps_out_read:
  assumes "keeps_out F nm m (r, v)" and "r = Inr x" and "owned F v" and "x \<in> fl_versions F v m" and "st_FsId (cr_Status x) \<noteq> []"
  shows "sp_FsName (cr_Spec x) \<noteq> nm" and "fl_name F v (st_FsId (cr_Status x)) \<noteq> Some nm"
proof -
  have "named_for F v m (st_FsId (cr_Status x))" using assms(3,4) by (auto simp: owned_def)
  then show "sp_FsName (cr_Spec x) \<noteq> nm" and "fl_name F v (st_FsId (cr_Status x)) \<noteq> Some nm"
    using assms(1,2,5) by (auto simp: keeps_out_def named_for_def)
qed

lemma other_pass_keeps:
  assumes comp: "company R n nm V" and keys: "answers_key R" and kube: "kube_laws R F" and view: "views_name F nm V"
    and own: "owned F w" and "m \<noteq> n" and out: "keeps_out F nm m (kGetCR (Reconciler.Client R) m w)"
  shows "seen V (world (snd (pass R m w))) = seen V w"
proof -
  let ?i = "map_option fst (vw_fs V w)"
  obtain r v where run: "kGetCR (Reconciler.Client R) m w = (r, v)" by fastforce
  note read = read_drifts [OF kube run own]
  have away: "?i \<noteq> Some j" if c: "c \<in> set (pass_calls R m w)" and j: "j \<in> set (addressed c)" for c j
  proof
    assume "?i = Some j"
    then obtain k where k: "vw_fs V w = Some (j, k)" by auto
    have "c \<noteq> CallGetCR k r" "c \<noteq> MetricReconcileTotal a b" for k r a b using j by auto
    from pass_call_authorised [OF kube own c this] obtain x before where x: "r = Inr x" and "authorised (Lib R) x before c"
      using run by auto
    from addressed_is_tracked [OF this(2) j] have id: "j = st_FsId (cr_Status x)" "j \<noteq> []" .
    with view k have "fl_name F w j = Some nm" unfolding views_name_def by blast
    with grows_name [OF read(1)] have "fl_name F v j = Some nm" by blast
    moreover have "fl_name F v j \<noteq> Some nm"
      using keeps_out_read(2) [OF out [unfolded run] x read(2)] read(3) [OF x] id by simp
    ultimately show False by contradiction
  qed
  have made: "in_Name inp \<noteq> nm" if "CallCreate inp r' \<in> set (pass_calls R m w)" for inp r'
    using pass_call_authorised [OF kube own that] out by (fastforce simp: create_input_def keeps_out_def)
  have harmless: "harmless n nm ?i c" if c: "c \<in> set (pass_calls R m w)" for c
  proof -
    have "own_write m c" using keyed_pass [OF keys, of m w] c by (simp add: list_all_iff)
    then show ?thesis using away [OF c] made c \<open>m \<noteq> n\<close> by (cases c) auto
  qed
  have "unharmed V n nm (seen V w) (start w)" by (simp add: unharmed_def)
  from maintainsD [OF unharmed_body [OF comp] this] obtain r t where t: "unharmed V n nm (seen V w) t"
    and run: "pass R m w = (r, t\<lparr>calls := calls t @ [MetricReconcileTotal (nn_Namespace m) (outcome_label r)]\<rparr>)"
    by (rule pass_body)
  have "list_all (harmless n nm ?i) (calls t)"
    using harmless by (simp add: list_all_iff pass_calls_def run)
  with t run show ?thesis by (simp add: unharmed_def seen_def)
qed

section \<open>Taking turns\<close>

primrec play :: "'w Reconciler \<Rightarrow> (nat \<Rightarrow> NamespacedName) \<Rightarrow> 'w \<Rightarrow> nat \<Rightarrow> 'w" where
  "play R turn w 0 = w"
| "play R turn w (Suc k) = world (snd (pass R (turn k) (play R turn w k)))"

definition fair_to :: "NamespacedName \<Rightarrow> (nat \<Rightarrow> NamespacedName) \<Rightarrow> bool" where
  "fair_to n turn \<longleftrightarrow> (\<forall>k. \<exists>j\<ge>k. turn j = n)"

text \<open>Passes over the others leave the view alone.\<close>

definition undisturbed :: "'w Reconciler \<Rightarrow> NamespacedName \<Rightarrow> ('w, string \<times> nat) view \<Rightarrow> (nat \<Rightarrow> NamespacedName) \<Rightarrow> 'w \<Rightarrow> bool" where
  "undisturbed R n V turn w \<longleftrightarrow> (\<forall>k. turn k \<noteq> n \<longrightarrow> seen V (play R turn w (Suc k)) = seen V (play R turn w k))"

lemma next_turn:
  assumes "fair_to n turn" and "undisturbed R n V turn w"
  obtains j where "k \<le> j" "turn j = n" "seen V (play R turn w j) = seen V (play R turn w k)"
proof -
  let ?j = "LEAST j. k \<le> j \<and> turn j = n"
  have j: "k \<le> ?j \<and> turn ?j = n" using assms(1) unfolding fair_to_def by (metis (mono_tags, lifting) LeastI)
  have "seen V (play R turn w i) = seen V (play R turn w k)" if "k \<le> i" "i \<le> ?j" for i
    using that
  proof (induction i rule: dec_induct)
    case (step i)
    then have "turn i \<noteq> n" using not_less_Least [of i "\<lambda>j. k \<le> j \<and> turn j = n"] by auto
    with assms(2) step show ?case unfolding undisturbed_def by simp
  qed simp
  with j that show ?thesis by blast
qed

text \<open>What holds between the turns of \<open>n\<close> depends on the view; a pass over \<open>n\<close> leads on.\<close>

lemma leads_to:
  assumes "fair_to n turn" and "undisturbed R n V turn w" and "P (play R turn w k)"
    and "\<And>u v. seen V u = seen V v \<Longrightarrow> P v \<Longrightarrow> P u" and "\<And>u. P u \<Longrightarrow> Q (world (snd (pass R n u)))"
  shows "\<exists>j. Q (play R turn w j)"
proof -
  obtain j where j: "turn j = n" "seen V (play R turn w j) = seen V (play R turn w k)"
    by (rule next_turn [OF assms(1,2)])
  then have "Q (play R turn w (Suc j))" using assms(3-5) by simp
  then show ?thesis ..
qed

section \<open>The resource becomes ready\<close>

definition polls :: "Library \<Rightarrow> ('w, string \<times> nat) view \<Rightarrow> string \<Rightarrow> nat \<Rightarrow> 'w \<Rightarrow> bool" where
  "polls L V i k w \<longleftrightarrow> vw_fs V w = Some (i, k) \<and> i \<noteq> [] \<and> tracking L (vw_cr V w) i"

definition arrived :: "Library \<Rightarrow> ('w, string \<times> nat) view \<Rightarrow> 'w \<Rightarrow> bool" where
  "arrived L V w \<longleftrightarrow> ready V w \<and> (\<exists>i. polls L V i 0 w)"

lemma same_seen:
  assumes "seen V u = seen V v"
  shows "polls L V i k u = polls L V i k v" and "arrived L V u = arrived L V v"
    and "vw_cr V u = vw_cr V v" and "vw_fs V u = vw_fs V v" and "polls L V i k v \<Longrightarrow> polls L V i k u"
  using assms by (simp_all add: seen_def polls_def arrived_def ready_def)

lemma arrives:
  assumes server: "server_works R n V" and api: "api_works R V" and w: "polls (Lib R) V i 0 w"
  shows "fst (pass R n w) = (no_requeue, None) \<and> arrived (Lib R) V (world (snd (pass R n w)))"
proof -
  let ?w = "world (snd (pass R n w))"
  from w last_pass [OF server api, of w i]
  have p: "fst (pass R n w) = (no_requeue, None)" "ready V ?w" "tracking (Lib R) (vw_cr V ?w) i" by (simp_all add: polls_def)
  then have "vw_fs V ?w = Some (i, 0)" by (auto simp: ready_def tracking_def)
  with p w show ?thesis by (auto simp: arrived_def polls_def)
qed

lemma polls_arrive:
  assumes server: "server_works R n V" and api: "api_works R V" and fair: "fair_to n turn" "undisturbed R n V turn w"
    and "polls (Lib R) V i k (play R turn w j)"
  shows "\<exists>j'. arrived (Lib R) V (play R turn w j')"
  using assms(5)
proof (induction k arbitrary: j)
  case 0
  show ?case
    by (rule leads_to [where P = "polls (Lib R) V i 0" and Q = "arrived (Lib R) V", OF fair 0])
      (erule (1) same_seen(5), simp add: arrives [OF server api])
next
  case (Suc k)
  have next_poll: "polls (Lib R) V i k (world (snd (pass R n u)))" if "polls (Lib R) V i (Suc k) u" for u
    using waiting_pass [OF server api, of u i k] that by (simp add: polls_def)
  have "\<exists>j'. polls (Lib R) V i k (play R turn w j')"
    by (rule leads_to [where P = "polls (Lib R) V i (Suc k)" and Q = "polls (Lib R) V i k", OF fair Suc.prems])
      (erule (1) same_seen(5), erule next_poll)
  then show ?case using Suc.IH by blast
qed

text \<open>Before it polls: the resource has this id, and the file system in view has one that is not empty.\<close>

definition has_id :: "Library \<Rightarrow> ('w, string \<times> nat) view \<Rightarrow> string \<Rightarrow> 'w \<Rightarrow> bool" where
  "has_id L V i w \<longleftrightarrow> tracking L (vw_cr V w) i \<and> (\<forall>k. vw_fs V w \<noteq> Some ([], k))"

definition has_none :: "Library \<Rightarrow> ('w, string \<times> nat) view \<Rightarrow> 'w \<Rightarrow> bool" where
  "has_none L V w \<longleftrightarrow> wanted L (vw_cr V w) \<and> \<not> protected L (vw_cr V w) \<and> (\<forall>k. vw_fs V w \<noteq> Some ([], k))"

lemma seen_id:
  assumes "seen V u = seen V v"
  shows "has_id L V i v \<Longrightarrow> has_id L V i u" and "has_none L V v \<Longrightarrow> has_none L V u"
    and "has_id L V i v \<and> missing_id V v i \<Longrightarrow> has_id L V i u \<and> missing_id V u i"
  using assms by (simp_all add: seen_def has_id_def has_none_def missing_same [OF assms])

lemma has_id_cases: "has_id L V i u \<Longrightarrow> i = [] \<or> (\<exists>k. polls L V i k u) \<or> missing_id V u i"
  unfolding has_id_def polls_def missing_id_def tracking_def by (cases "vw_fs V u") auto

lemma untracked_arrive:
  assumes server: "server_works R n V" and api: "api_works R V" and fair: "fair_to n turn" "undisturbed R n V turn w"
    and "has_id (Lib R) V [] (play R turn w j)"
  shows "\<exists>j'. arrived (Lib R) V (play R turn w j')"
proof -
  have created: "\<exists>i k. polls (Lib R) V i k (world (snd (pass R n u)))" if "has_id (Lib R) V [] u" for u
    using creating_pass [OF server api, of u] that by (auto simp: polls_def has_id_def)
  have "\<exists>j'. \<exists>i k. polls (Lib R) V i k (play R turn w j')"
    by (rule leads_to [where P = "has_id (Lib R) V []" and Q = "\<lambda>u. \<exists>i k. polls (Lib R) V i k u", OF fair assms(5)])
      (erule (1) seen_id(1), erule created)
  then show ?thesis using polls_arrive [OF server api fair] by blast
qed

lemma tracking_arrive:
  assumes server: "server_works R n V" and api: "api_works R V" and fair: "fair_to n turn" "undisturbed R n V turn w"
    and tr: "has_id (Lib R) V i (play R turn w j)"
  shows "\<exists>j'. arrived (Lib R) V (play R turn w j')"
proof -
  let ?w = "play R turn w j"
  consider "i = []" | k where "polls (Lib R) V i k ?w" | "has_id (Lib R) V i ?w \<and> missing_id V ?w i"
    using has_id_cases [OF tr] tr by blast
  then show ?thesis
  proof cases
    case 1
    then show ?thesis using tr by (intro untracked_arrive [OF server api fair, of j]) simp
  next
    case 2
    then show ?thesis by (rule polls_arrive [OF server api fair])
  next
    case 3
    have forgotten: "has_id (Lib R) V [] (world (snd (pass R n u)))" if "has_id (Lib R) V i u \<and> missing_id V u i" for u
      using forgetting_pass [OF server api, of u i] that by (simp add: has_id_def)
    have "\<exists>j'. has_id (Lib R) V [] (play R turn w j')"
      by (rule leads_to [where P = "\<lambda>u. has_id (Lib R) V i u \<and> missing_id V u i" and Q = "has_id (Lib R) V []", OF fair 3])
        (erule (1) seen_id(3), erule forgotten)
    then show ?thesis using untracked_arrive [OF server api fair] by blast
  qed
qed

lemma wanted_arrives:
  assumes server: "server_works R n V" and api: "api_works R V" and laws: "finalizer_laws (Lib R)"
    and fair: "fair_to n turn" "undisturbed R n V turn w"
    and want: "wanted (Lib R) (vw_cr V w)" and fs: "\<And>k. vw_fs V w \<noteq> Some ([], k)"
  shows "\<exists>j. arrived (Lib R) V (play R turn w j)"
proof (cases "protected (Lib R) (vw_cr V w)")
  case True
  then show ?thesis using want fs by (intro tracking_arrive [OF server api fair, of _ 0]) (simp add: tracking_def has_id_def)
next
  case False
  have start: "has_none (Lib R) V (play R turn w 0)" using False want fs by (simp add: has_none_def)
  have secured: "\<exists>i. has_id (Lib R) V i (world (snd (pass R n u)))" if "has_none (Lib R) V u" for u
    using protecting_pass [OF server laws, of u] that by (auto simp: has_none_def has_id_def)
  have "\<exists>j. \<exists>i. has_id (Lib R) V i (play R turn w j)"
    by (rule leads_to [where P = "has_none (Lib R) V" and Q = "\<lambda>u. \<exists>i. has_id (Lib R) V i u", OF fair start])
      (erule (1) seen_id(2), erule secured)
  then show ?thesis using tracking_arrive [OF server api fair] by blast
qed

text \<open>And there it stays.\<close>

lemma arrived_stays:
  assumes server: "server_works R n V" and api: "api_works R V" and calm: "undisturbed R n V turn w"
    and "arrived (Lib R) V (play R turn w j)" and "j \<le> k"
  shows "arrived (Lib R) V (play R turn w k)"
  using assms(5)
proof (induction k rule: dec_induct)
  case base
  show ?case by (rule assms(4))
next
  case (step k)
  show ?case
  proof (cases "turn k = n")
    case True
    from step.IH obtain i where "polls (Lib R) V i 0 (play R turn w k)" by (auto simp: arrived_def)
    from arrives [OF server api this] True show ?thesis by simp
  next
    case False
    with calm have "seen V (play R turn w (Suc k)) = seen V (play R turn w k)" unfolding undisturbed_def by blast
    from same_seen(2) [OF this] step.IH show ?thesis by simp
  qed
qed

section \<open>A resource among others\<close>

text \<open>While ids and names stay owned, the passes over the others leave the view alone.\<close>

lemma play_owned:
  assumes "kube_laws R F" and "huawei_laws (Huawei R) F" and "owned F w"
  shows "owned F (play R turn w k)"
  by (induction k) (use assms pass_drifts [OF assms(1,2)] in simp_all)

lemma company_undisturbed:
  assumes "company R n nm V" and "answers_key R" and "kube_laws R F" and "huawei_laws (Huawei R) F" and "views_name F nm V"
    and "owned F w"
    and "\<And>k. turn k \<noteq> n \<Longrightarrow> keeps_out F nm (turn k) (kGetCR (Reconciler.Client R) (turn k) (play R turn w k))"
  shows "undisturbed R n V turn w"
  unfolding undisturbed_def
proof (intro allI impI)
  fix k
  assume k: "turn k \<noteq> n"
  have "seen V (world (snd (pass R (turn k) (play R turn w k)))) = seen V (play R turn w k)"
    by (rule other_pass_keeps [OF assms(1-3,5) play_owned [OF assms(3,4,6)] k assms(7) [OF k]])
  then show "seen V (play R turn w (Suc k)) = seen V (play R turn w k)" by simp
qed

text \<open>
  C4. Convergence in company. Passes over any number of resources are interleaved in any order in which one resource gets its
  turn again and again. The API server and the Huawei API work for it as in the case of one resource alone, calls about other objects and
  other file systems leave its own ones alone (those may fail as they like), recorded ids are owned, and no other resource that is read
  asks for a file system of its name or, having asked for one before, still tracks it. Then from some point on the resource is Ready for good,
  and every pass over it succeeds and asks for no other: no schedule and no failure of the others keeps it from getting there.
\<close>

theorem fleet_becomes_ready:
  assumes "server_works R n V" and "api_works R V" and "finalizer_laws (Lib R)"
    and "stays_away R n nm V" and "answers_key R" and "kube_laws R F" and "huawei_laws (Huawei R) F" and "views_name F nm V"
    and "owned F w" and "wanted (Lib R) (vw_cr V w)" and "\<And>k. vw_fs V w \<noteq> Some ([], k)"
    and "fair_to n turn"
    and "\<And>k. turn k \<noteq> n \<Longrightarrow> keeps_out F nm (turn k) (kGetCR (Reconciler.Client R) (turn k) (play R turn w k))"
  shows "\<exists>N. \<forall>k\<ge>N. ready V (play R turn w k) \<and> (turn k = n \<longrightarrow> fst (pass R n (play R turn w k)) = (no_requeue, None))"
proof -
  have "company R n nm V" using assms(1,2,4) by (simp add: company_def)
  then have calm: "undisturbed R n V turn w"
    by (rule company_undisturbed [OF _ assms(5-9) assms(13)])
  obtain N where N: "arrived (Lib R) V (play R turn w N)"
    using wanted_arrives [OF assms(1-3,12) calm assms(10,11)] by blast
  have "arrived (Lib R) V (play R turn w k)" if "N \<le> k" for k
    by (rule arrived_stays [OF assms(1,2) calm N that])
  then show ?thesis using arrives [OF assms(1,2)] by (metis arrived_def)
qed

section \<open>Two resources and their file systems\<close>

text \<open>
  One namespace with two CRs: \<open>share\<close>, which asks for a PVC and remembers an id that is gone, and \<open>other\<close>, with a file system \<open>fs-2\<close> of
  its own. Both specs stay as they are; what is stored is the finalizers and the status of the first, how many polls its
  file system still needs, the status of the second, and the versions of both that were replaced. Writes that change anything else are refused.
\<close>

record two =
  tw_Finalizers :: "string list"
  tw_Status :: SfsTurboInstanceStatus
  tw_polls :: "nat option"
  tw_other :: SfsTurboInstanceStatus
  tw_past :: "SfsTurboInstance list"

definition tw_share :: "two \<Rightarrow> SfsTurboInstance" where
  "tw_share w = demo_new\<lparr>cr_Finalizers := tw_Finalizers w, cr_Status := tw_Status w\<rparr>"

definition demo_neighbour :: SfsTurboInstance where
  "demo_neighbour = demo_tracked\<lparr>cr_Name := ''other'', cr_Spec := demo_spec\<lparr>sp_FsName := ''other''\<rparr>\<rparr>"

definition tw_neighbour :: "two \<Rightarrow> SfsTurboInstance" where
  "tw_neighbour w = demo_neighbour\<lparr>cr_Status := tw_other w\<rparr>"

definition demo_other_req :: NamespacedName where
  "demo_other_req = \<lparr>nn_Namespace = ''team'', nn_Name = ''other''\<rparr>"

definition tw_put :: "SfsTurboInstance \<Rightarrow> two \<Rightarrow> (err + SfsTurboInstance) \<times> two" where
  "tw_put x w = (if x = (tw_share w)\<lparr>cr_Finalizers := cr_Finalizers x\<rparr> then (Inr x, w\<lparr>tw_Finalizers := cr_Finalizers x, tw_past := tw_share w # tw_past w\<rparr>)
     else (Inl (OtherError ''conflict''), w))"

definition tw_put_status :: "SfsTurboInstance \<Rightarrow> two \<Rightarrow> (err + SfsTurboInstance) \<times> two" where
  "tw_put_status x w = (let st = stored_status (cr_Status x) in
     if same_object x (tw_share w) then (Inr ((tw_share w)\<lparr>cr_Status := st\<rparr>), w\<lparr>tw_Status := st, tw_past := tw_share w # tw_past w\<rparr>)
     else if same_object x (tw_neighbour w) then (Inr ((tw_neighbour w)\<lparr>cr_Status := st\<rparr>), w\<lparr>tw_other := st, tw_past := tw_neighbour w # tw_past w\<rparr>)
     else (Inl (OtherError ''conflict''), w))"

definition tw_show :: "SfsTurboInstanceSpec \<Rightarrow> nat \<Rightarrow> ShareInfo" where
  "tw_show sp n = demo_info\<lparr>si_Status := (if n = 0 then ''200'' else ''100''), si_Size := sp_Size sp\<rparr>"

definition demo_two :: "two Reconciler" where
  "demo_two = \<lparr>
     Client = \<lparr>
       kGetCR = (\<lambda>n w. if n = demo_req then (Inr (tw_share w), w) else if n = demo_other_req then (Inr (tw_neighbour w), w)
         else (Inl not_found_error, w)),
       kUpdateCR = tw_put, kStatusUpdate = tw_put_status,
       kGetPV = (\<lambda>_ w. (Inl not_found_error, w)), kCreatePV = (\<lambda>_ w. (None, w)), kUpdatePV = (\<lambda>_ w. (None, w)),
       kDeletePV = (\<lambda>_ w. (None, w)), kGetPVC = (\<lambda>_ w. (Inl not_found_error, w)),
       kCreatePVC = (\<lambda>_ w. (None, w)), kDeletePVC = (\<lambda>_ w. (None, w))\<rparr>,
     Huawei = \<lparr>
       Create = (\<lambda>inp w. if in_Name inp = ''data'' then (Inr ''fs-1'', w\<lparr>tw_polls := Some (case tw_polls w of None \<Rightarrow> 2 | Some n \<Rightarrow> n)\<rparr>)
         else if in_Name inp = ''other'' then (Inr ''fs-2'', w) else (Inl (OtherError ''quota''), w)),
       Get = (\<lambda>i w. case tw_polls w of
           Some n \<Rightarrow> if i = ''fs-1'' then (Inr (tw_show demo_spec n), w\<lparr>tw_polls := Some (n - 1)\<rparr>)
             else if i = ''fs-2'' \<and> st_FsId (tw_Status w) \<noteq> ''fs-2'' then (Inr (tw_show demo_spec 0), w) else (Inl ErrFsNotFound, w)
         | None \<Rightarrow> if i = ''fs-2'' \<and> st_FsId (tw_Status w) \<noteq> ''fs-2'' then (Inr (tw_show demo_spec 0), w) else (Inl ErrFsNotFound, w)),
       Delete = (\<lambda>_ w. (None, w)), FindByName = (\<lambda>_ w. (Inl ErrFsNotFound, w)), Expand = (\<lambda>_ _ w. (None, w)),
       ListTags = (\<lambda>_ w. (Inr [], w)), AddTag = (\<lambda>_ _ _ w. (None, w)), DeleteTag = (\<lambda>_ _ w. (None, w)),
       ChangeSecurityGroup = (\<lambda>_ _ w. (None, w))\<rparr>,
     Lib = demo_library,
     Now = (\<lambda>w. (demo_time, w))\<rparr>"

definition two_view :: "(two, string \<times> nat) view" where
  "two_view = \<lparr>vw_cr = tw_share, vw_fs = (\<lambda>w. map_option (Pair ''fs-1'') (tw_polls w))\<rparr>"

text \<open>The versions stored are those the world has and had, all of one spec; \<open>fs-0\<close>, which is gone, had the name of the first too.\<close>

definition spec_at :: "NamespacedName \<Rightarrow> SfsTurboInstanceSpec" where
  "spec_at n = cr_Spec (if n = demo_other_req then demo_neighbour else demo_new)"

definition two_fleet :: "two fleet" where
  "two_fleet = \<lparr>fl_versions = (\<lambda>w n. {x \<in> {tw_share w, tw_neighbour w} \<union> set (tw_past w). key_of x = n \<and> cr_Spec x = spec_at n}),
     fl_name = (\<lambda>_ i. if i = ''fs-2'' then Some ''other'' else Some ''data'')\<rparr>"

definition two_start :: two where
  "two_start = \<lparr>tw_Finalizers = [], tw_Status = demo_status\<lparr>st_FsId := ''fs-0''\<rparr>, tw_polls = None, tw_other = demo_status\<lparr>st_FsId := ''fs-2''\<rparr>, tw_past = []\<rparr>"

lemma two_spec: "stored_spec (cr_Spec (tw_share w)) = cr_Spec (tw_share w)"
  by (simp add: tw_share_def demo_new_def demo_cr_def demo_spec_def) code_simp

lemma tw_apart: "\<not> same_object (tw_neighbour w) (tw_share w)" "\<not> same_object (tw_share w) (tw_neighbour w)"
  by (simp_all add: tw_share_def tw_neighbour_def demo_new_def demo_neighbour_def demo_defs)

lemma tw_share_update [simp]:
  "tw_share (w\<lparr>tw_Finalizers := fs\<rparr>) = (tw_share w)\<lparr>cr_Finalizers := fs\<rparr>" "tw_share (w\<lparr>tw_Status := st\<rparr>) = (tw_share w)\<lparr>cr_Status := st\<rparr>"
  "tw_share (w\<lparr>tw_polls := p\<rparr>) = tw_share w" "tw_share (w\<lparr>tw_other := st\<rparr>) = tw_share w"
  "tw_share (w\<lparr>tw_past := ps\<rparr>) = tw_share w" "tw_neighbour (w\<lparr>tw_past := ps\<rparr>) = tw_neighbour w" "cr_Spec (tw_share w) = cr_Spec demo_new"
  "tw_neighbour (w\<lparr>tw_Finalizers := fs\<rparr>) = tw_neighbour w" "tw_neighbour (w\<lparr>tw_Status := st\<rparr>) = tw_neighbour w"
  "tw_neighbour (w\<lparr>tw_polls := p\<rparr>) = tw_neighbour w" "tw_neighbour (w\<lparr>tw_other := st\<rparr>) = (tw_neighbour w)\<lparr>cr_Status := st\<rparr>"
  "key_of (tw_share w) = demo_req" "key_of (tw_neighbour w) = demo_other_req" "demo_other_req \<noteq> demo_req" "demo_req \<noteq> demo_other_req"
  by (simp_all add: tw_share_def tw_neighbour_def demo_new_def demo_neighbour_def demo_defs key_of_def demo_req_def demo_other_req_def)

lemma two_server: "server_works demo_two demo_req two_view"
  unfolding server_works_def
  by (auto simp: demo_two_def two_view_def seen_def calm_def demo_library_def tw_put_def tw_put_status_def Let_def two_spec [simplified])

lemma two_api: "api_works demo_two two_view"
  unfolding api_works_def tag_calls_calm_def missing_id_def
  by (auto simp: demo_two_def two_view_def seen_def calm_def as_asked_def immutableDrift_def demo_new_def demo_defs tw_show_def
      create_input_def IsAvailable_def IsErrored_def tw_share_def split: option.splits if_splits)

lemma two_stays_away: "stays_away demo_two demo_req ''data'' two_view"
  unfolding stays_away_def calm_def elsewhere_def
proof (intro conjI allI impI)
  fix x :: SfsTurboInstance and w r w'
  assume "key_of x \<noteq> demo_req" "kUpdateCR (Reconciler.Client demo_two) x w = (r, w')"
  moreover from this(1) have "x \<noteq> (tw_share w)\<lparr>cr_Finalizers := cr_Finalizers x\<rparr>" by (metis key_of_fields(1) tw_share_update(12))
  ultimately show "seen two_view w' = seen two_view w" by (simp add: demo_two_def tw_put_def)
next
  fix x :: SfsTurboInstance and w r w'
  assume x: "key_of x \<noteq> demo_req" and "kStatusUpdate (Reconciler.Client demo_two) x w = (r, w')"
  moreover from x have "\<not> same_object x (tw_share w)" using tw_share_update(12) [of w] by (auto simp: key_of_def)
  ultimately show "seen two_view w' = seen two_view w"
    by (auto simp: demo_two_def tw_put_status_def Let_def two_view_def seen_def split: if_splits)
qed (auto simp: demo_two_def two_view_def seen_def split: option.splits if_splits)

lemma same_object_key: "same_object x y \<Longrightarrow> key_of x = key_of y"
  by (simp add: key_of_def)

lemma two_answers_key: "answers_key demo_two"
  unfolding answers_key_def demo_two_def
  by (auto simp: tw_put_def tw_put_status_def Let_def dest!: same_object_key simp del: same_object_def split: if_splits)

text \<open>Both writes keep the name and the id that they are sent, or refuse.\<close>

lemma two_versions:
  assumes "tw_share w' = tw_share w \<or> (\<exists>x \<in> set X. same_share x (tw_share w')) \<and> tw_share w \<in> set (tw_past w')"
    and "tw_neighbour w' = tw_neighbour w \<or> (\<exists>x \<in> set X. same_share x (tw_neighbour w')) \<and> tw_neighbour w \<in> set (tw_past w')"
    and "set (tw_past w) \<subseteq> set (tw_past w')" and "set (tw_past w') \<subseteq> {tw_share w, tw_neighbour w} \<union> set (tw_past w)"
  shows "grows two_fleet X w w'"
  using assms by (auto simp: grows_def two_fleet_def same_share_def)

lemma stored_id: "st_FsId (stored_status st) = st_FsId st"
  by (simp add: stored_status_eq)

lemma same_object_share: "same_object x y \<Longrightarrow> same_share x (y\<lparr>cr_Status := stored_status (cr_Status x)\<rparr>)"
  by (simp add: same_share_def key_of_def stored_id)

lemma two_stores: "stores two_fleet tw_put" "stores two_fleet tw_put_status"
proof -
  have "grows two_fleet [x] w w' \<and> (\<forall>y. r = Inr y \<longrightarrow> same_share x y)" if run: "tw_put x w = (r, w')" for x w r w'
  proof (cases "x = (tw_share w)\<lparr>cr_Finalizers := cr_Finalizers x\<rparr>")
    case True
    then have "same_share x (tw_share w)" by (metis same_share_fields(2) same_share_def)
    with True run show ?thesis by (auto simp: tw_put_def same_share_def intro!: two_versions)
  qed (use run in \<open>auto simp: tw_put_def intro: two_versions\<close>)
  then show "stores two_fleet tw_put" unfolding stores_def by blast
  have "grows two_fleet [x] w w' \<and> (\<forall>y. r = Inr y \<longrightarrow> same_share x y)" if run: "tw_put_status x w = (r, w')" for x w r w'
    using run by (auto simp: tw_put_status_def Let_def simp del: same_object_def intro!: two_versions dest: same_object_share split: if_splits)
  then show "stores two_fleet tw_put_status" unfolding stores_def by blast
qed

lemma two_kube: "kube_laws demo_two two_fleet"
  using two_stores unfolding kube_laws_def
  by (auto simp: demo_two_def moves_def drift_refl two_fleet_def spec_at_def key_of_def demo_req_def demo_other_req_def tw_share_def tw_neighbour_def demo_new_def demo_neighbour_def
      demo_defs wf_map_def split: if_splits)

lemma two_huawei: "huawei_laws (Huawei demo_two) two_fleet"
  by (auto simp: huawei_laws_def moves_def demo_two_def grows_def two_fleet_def split: option.splits if_splits)

lemma two_start_laws:
  "finalizer_laws (Lib demo_two)" "views_name two_fleet ''data'' two_view" "owned two_fleet two_start"
  "wanted (Lib demo_two) (vw_cr two_view two_start)" "vw_fs two_view w \<noteq> Some ([], k)"
  using demo_library_laws
  by (auto simp: demo_two_def views_name_def two_view_def two_fleet_def owned_def named_for_def asked_def spec_at_def two_start_def tw_share_def tw_neighbour_def
      demo_new_def demo_neighbour_def demo_defs wanted_def deleting_def timestamp_IsZero_def wf_map_def)

lemma even_turns: "fair_to a (\<lambda>k. if even k then a else b)"
  unfolding fair_to_def by (metis dvd_triv_left le_add2 mult_2)

lemma neighbour_keeps_out:
  assumes "(if even k then demo_req else demo_other_req) \<noteq> demo_req"
  shows "keeps_out two_fleet ''data'' (if even k then demo_req else demo_other_req)
    (kGetCR (Reconciler.Client demo_two) (if even k then demo_req else demo_other_req) w)"
  using assms by (auto simp: keeps_out_def asked_def two_fleet_def spec_at_def demo_two_def tw_neighbour_def demo_neighbour_def demo_defs
      split: if_splits)

theorem fleet_becomes_ready_witness:
  "\<exists>N. \<forall>k\<ge>N. ready two_view (play demo_two (\<lambda>k. if even k then demo_req else demo_other_req) two_start k)"
proof -
  let ?turn = "\<lambda>k. if even k then demo_req else demo_other_req"
  have "\<exists>N. \<forall>k\<ge>N. ready two_view (play demo_two ?turn two_start k)
      \<and> (?turn k = demo_req \<longrightarrow> fst (pass demo_two demo_req (play demo_two ?turn two_start k)) = (no_requeue, None))"
    by (rule fleet_becomes_ready [OF two_server two_api two_start_laws(1) two_stays_away two_answers_key two_kube two_huawei
        two_start_laws(2-5) even_turns]) (erule neighbour_keeps_out)
  then show ?thesis by blast
qed

end
