(* ===== verification/Spec2Isabelle.thy ===== *)
theory Spec2Isabelle
  imports Metrics Startup DeepCopy Schema EndToEnd Teardown Workers Fleet Mounts Turns
begin

text \<open>
  A verification development for huawei-sfs-operator, a Kubernetes operator that keeps a
  HuaweiCloud SFS Turbo file system for every \<open>SfsTurboInstance\<close> custom resource (CR).

  The program. \<open>Reconcile\<close> (internal/controller) is called with the name of a CR; it
  reads the CR and takes one of five branches: deletion (\<open>reconcileDelete\<close>), adding the
  finalizer, paused, creation (\<open>reconcileCreate\<close>), polling (\<open>reconcilePoll\<close>). The
  branches call the Huawei API through \<open>huawei.Interface\<close>, write the status back
  (\<open>patchStatus\<close>), and create or delete the PersistentVolume and -Claim of the file
  system. \<open>huawei.Client\<close> (internal/huawei) implements the interface over the vendor's
  SDK, with credentials that are static or come from the pod's agency
  (\<open>PodAgencyProvider\<close>).

  The theories, in the order of the code.
  \<^item> Prelude: rule collections, Go's maps as association lists, the weakest-precondition
    calculus over the state monad, and the interface \<open>keyed_store\<close>/\<open>erasable_store\<close> of the two keyed
    containers with its interpretation on Go's maps.
  \<^item> Golang: error values with wrapping, \<open>%d\<close> and \<open>Sscanf\<close>, \<open>strings\<close>, \<open>time.Time\<close>, float64 rounding.
  \<^item> Api (api/v1alpha1/sfsturboinstance_types.go): the CR's records and constants, the JSON tags of
    spec and status and the CRD's defaults.
  \<^item> Huawei\_Api (internal/huawei/client.go, errors.go): the interface, the status codes, the error classification.
  \<^item> Cluster: PV, PVC, the Kubernetes client, the helper libraries and the clock as parameters; the state
    of a pass and which calls an operation makes (\<open>emits\<close>).
  \<^item> Conditions: \<open>setCondition\<close>, \<open>hasConditionTrue\<close>, \<open>patchStatus\<close>, \<open>removeFinalizer\<close>; the condition
    list is interpreted as a \<open>keyed_store\<close>.
  \<^item> Scenario: a scripted environment in which the concrete instances are evaluated.
  \<^item> Tags (\<open>reconcileTagsDrift\<close>), Volumes (\<open>ensurePVPVC\<close>, \<open>cascadeDeletePVPVC\<close>, \<open>buildPV\<close>, \<open>buildPVC\<close>),
    Handlers (the branches and \<open>Reconcile\<close>).
  \<^item> Safety: which call may be made when (\<open>authorised\<close>), and that every call of a pass is; Lifecycle and
    Polling: what the branches do, call by call; Schema: what a pass writes is valid by the CRD's schema of the conditions, unless an error text
    is longer than the schema allows.
  \<^item> Runs: many passes over one CR as steps of an abstract machine on the recorded id. Passes: passes one after the
    other over a changing world, and calls that leave part of it as it is. Convergence, Growth and Teardown: the passes
    reach a ready file system (from any state of the CR, so also after failures), the size and security group of a changed
    spec, and the end of a deletion, under an environment that works.
  \<^item> Metrics (internal/metrics/metrics.go): the metrics and their registration, the outcome counter as a
    reading of the log.
  \<^item> Json and Timestamps: what podagency.go uses of \<open>encoding/json\<close> and of \<open>time.Parse\<close>. Credentials
    (internal/huawei/auth.go, podagency.go) and Client (client.go), with the interface \<open>handle_invariant\<close> between
    \<open>ensureSDK\<close> and the methods. Workers (client.go, podagency.go): goroutines in \<open>ensureSDK\<close> and \<open>Reset\<close> step by step,
    with the two mutexes, as a relation between states of all of them; it refines atomic runs of \<open>ensureSDK\<close>.
  \<^item> Flags and Startup (cmd/main.go): the flags and \<open>flag.Parse\<close>, the options of the servers and the manager, the
    steps of \<open>main\<close> with their failures; the API group (groupversion\_info.go) and \<open>SetupWithManager\<close>. What the libraries are asked, with which
    values, is read off a framework that notes every question (\<open>recording\<close>).
  \<^item> DeepCopy (zz\_generated.deepcopy.go): the copies over a store of cells, with the interface \<open>deep_copier\<close>, interpreted
    on the copies of the tags and of the spec. The library's copies of \<open>ObjectMeta\<close> and of a condition are asked to be deep copies on the same store (\<open>library_copies\<close>).
  \<^item> EndToEnd (cmd/main.go): the reconciler over the client over the SDK (\<open>operator\<close>). What Convergence, Growth and Teardown ask of the
    Huawei API is derived from laws of the SDK's calls and of the metadata service, so the three results hold of the whole operator.
  \<^item> Fleet: many CRs over one cloud account, with stale reads, refused writes and changes by users, of \<open>fsName\<close> too. A rely condition (\<open>drift\<close>) says what may happen
    during any call; each pass keeps to it itself, so the result, that a resource only has ids of names that it asked for, is one about workers that run at
    the same time, too. The interface \<open>world_order\<close> carries it through the client's methods. Mounts: what becomes of a PV that is there.
  \<^item> Turns: passes over many CRs in an order that is fair to one of them. No call of a pass over another touches what that one depends on (\<open>harmless\<close>,
    from the ownership of Fleet), so the steps to a ready file system compose across its turns (\<open>leads_to\<close>), whatever happens between.
  \<^item> This theory: single passes of the reconciler over the client.

  How state corresponds. A handler is a function in the state monad over the record \<open>pass\<close>: the world
  outside (any type), the object behind the pointer \<open>sfsti\<close>, and the log of the outside calls with their
  answers, oldest first. A call (\<open>invoke\<close>) runs a parameter of the model on the world and logs
  it, so every theorem holds for every answer. A write that succeeds replaces the object by the
  server's answer, as controller-runtime does. Methods of the client are functions in the
  state monad over \<open>site\<close>: the client behind the receiver and the world outside; \<open>client_interface\<close> is the
  interface they make, and its world is that record. Errors are values: \<open>Inl\<close> or \<open>Some\<close>.

  The lemmas. Each effectful operation has an outcome lemma (what it returns, which calls it makes, as an
  equation or as an inductive relation such as \<open>ensure_outcome\<close>) or weakest-precondition rules; what an operation calls
  (\<open>emits\<close>) and which invariants it keeps (\<open>maintains\<close>) are derived along its structure by rule collections; the properties
  rest on these. Loops are structural recursions over the list the range visits, or recursions on a text that
  gets shorter, so all of them terminate. Only the reader of JSON values, a model of what \<open>encoding/json\<close> does, has fuel, because a value, the elements of an
  array and the members of an object are read by one another: \<open>fuel_for\<close>, twice the length of the text and one, is
  proved to be enough (\<open>reading_terminates\<close>). Its limit on nesting is that of \<open>encoding/json\<close>, 10000.
  Integers: \<open>int32\<close> and \<open>int64\<close> are words; durations are \<open>int64\<close> with saturation.
  A range over a Go map visits its entries in an order the language leaves open: a map is a list of its
  entries in some order and the theorems hold for every list. Properties that need the keys to be
  distinct say so (\<open>wf_map\<close>); maps decoded from JSON are.

  Concurrency. The methods of Client are sequential. Workers gives the reason why that is enough: between the locks the only state that
  goroutines share is the handle, the cache and the mutexes, every access to them is a step of its own, and every interleaving of
  the steps gives answers that calls one at a time also give; the metadata service's answers are arbitrary in both. A
  call needs at most eleven steps, which is the bound of \<open>calls_end\<close>. \<open>Reset\<close> is outside of this: it races with \<open>ensureSDK\<close>
  (\<open>reset_races\<close>).

  Not modelled. Logging, contexts and cancellation; the Go test code, the test
  utilities and the manifests. The queue of controller-runtime is not modelled: passes over one CR come one after the other. A resource version is
  not a field of the model: a conflicting write is one of the errors a write may answer with, and what an accepted one
  promises of the object is a law of the API server (\<open>stores\<close> in Fleet). The SDK, controller-runtime, HTTP, Prometheus and \<open>resource.Quantity\<close> are parameters, and so are the texts of the errors
  of Go's parsers. The serialisation of the CR's metadata is not modelled. \<open>metav1.Condition\<close> and \<open>metav1.Time\<close> as JSON (Api) and the syntax of JSON texts (Json) are
  documented behaviour of the libraries, not code of the repository: a time in JSON is named by its second.
  The Scheme field of the reconciler is not used by the code modelled.
  Turns takes the order of whole passes as given (\<open>fair_to\<close>); that every resource gets its turn again is the queue's promise.
\<close>

section \<open>The reconciler over the client\<close>

text \<open>
  C18. A creation whose id was lost is recovered. If an earlier pass created the file
  system but its id never reached the status (a crash, a failed write), the next pass
  asks to create it again; the API refuses the taken name, the client finds the share by
  name, and the pass records that share's id: no second file system is made and the
  first is not orphaned.
\<close>

theorem lost_id_is_recovered:
  assumes "wired S M R" and "kGetCR (Client R) req w = (Inr cr, w1)"
    and "active (Lib R) cr" and "st_FsId (cr_Status cr) = []"
    and "run_state (ensureSDK S M) w1 = (Inr h, s1)"
    and "sdk_CreateShare S h (create_share_request (create_input (cr_Spec cr))) (outside s1) = (Inl e, o1)"
    and "isNameAlreadyExists e"
    and "run_state (ensureSDK S M) (s1\<lparr>outside := o1\<rparr>) = (Inr h', s2)"
    and "sdk_ListShares S h' (outside s2) = (Inr (Some shares), o2)"
    and "find_share (sp_FsName (cr_Spec cr)) shares = Some x" and "ls_Id x = Some fsId" and "fsId \<noteq> []"
  shows "\<exists>y a. CallStatusUpdate y a \<in> set (pass_calls R req w) \<and> st_FsId (cr_Status y) = fsId
    \<and> condition_status y ConditionProvisioning = Some ConditionTrue"
proof -
  have "run_state (Client_Create S M (create_input (cr_Spec cr))) w1 = (Inr fsId, s2\<lparr>outside := o2\<rparr>)"
    by (rule Create_adopts [OF assms(5-9)]) (use assms(10-12) in \<open>simp_all add: create_input_def\<close>)
  then have "Create (Huawei R) (create_input (cr_Spec cr)) w1 = (Inr fsId, s2\<lparr>outside := o2\<rparr>)"
    using assms(1) by (simp add: wired_def client_interface_def)
  from creation_pass [OF assms(2-4) this] show ?thesis by auto
qed

text \<open>
  A share that the API answers 404 for is forgotten: a pass over an active CR that
  tracks it clears the id in the status, so that the next pass creates a new file system.
\<close>

lemma upstream_404_is_forgotten:
  assumes "wired S M R" and "kGetCR (Client R) req w = (Inr cr, w1)"
    and "active (Lib R) cr" and "st_FsId (cr_Status cr) \<noteq> []"
    and "run_state (ensureSDK S M) w1 = (Inr h, s1)"
    and "sdk_ShowShare S h (st_FsId (cr_Status cr)) (outside s1) = (Inl e, o1)" and "isNotFound e"
  shows "\<exists>y a. CallStatusUpdate y a \<in> set (pass_calls R req w) \<and> st_FsId (cr_Status y) = []
    \<and> condition_status y ConditionReady = Some ConditionFalse"
proof -
  from Get_404 [OF assms(5-7)] obtain x where
    "run_state (Client_Get S M (st_FsId (cr_Status cr))) w1 = (Inl x, s1\<lparr>outside := o1\<rparr>)" "is_ErrFsNotFound x"
    by auto
  then have get: "Get (Huawei R) (st_FsId (cr_Status cr)) w1 = (Inl x, s1\<lparr>outside := o1\<rparr>)"
    and x: "is_ErrFsNotFound x"
    using assms(1) by (simp_all add: wired_def client_interface_def)
  from missing_pass [OF assms(2-4) get x] show ?thesis by auto
qed

text \<open>
  The teardown ends with a 404: once the API does not know the share any more, a
  pass over the CR under deletion issues no \<open>Delete\<close>, and if it succeeds it has
  removed the finalizer, which lets the CR go.
\<close>

lemma upstream_404_releases:
  assumes "wired S M R" and "kGetCR (Client R) req w = (Inr cr, w1)" and "tearing_down (Lib R) cr"
    and "run_state (ensureSDK S M) w1 = (Inr h, s1)"
    and "sdk_ShowShare S h (st_FsId (cr_Status cr)) (outside s1) = (Inl e, o1)" and "isNotFound e"
    and "snd (fst (pass R req w)) = None"
  shows "(\<exists>fs y b. CallUpdateCR y b \<in> set (pass_calls R req w)
      \<and> cr_Finalizers y = RemoveFinalizer (Lib R) fs Finalizer)
    \<and> (\<forall>i d. CallDelete i d \<notin> set (pass_calls R req w))"
proof -
  from Get_404 [OF assms(4-6)] obtain x where
    "run_state (Client_Get S M (st_FsId (cr_Status cr))) w1 = (Inl x, s1\<lparr>outside := o1\<rparr>)" "is_ErrFsNotFound x"
    by auto
  then have get: "Get (Huawei R) (st_FsId (cr_Status cr)) w1 = (Inl x, s1\<lparr>outside := o1\<rparr>)"
    and x: "is_ErrFsNotFound x"
    using assms(1) by (simp_all add: wired_def client_interface_def)
  from gone_pass [OF assms(2,3) get x] assms(7) show ?thesis by auto
qed

section \<open>Concrete instances\<close>

text \<open>The demo SDK and client under a Kubernetes API that reads \<open>cr\<close> and echoes writes.\<close>

definition demo_wired :: "SfsTurboInstance \<Rightarrow> (unit, string, string) site Reconciler" where
  "demo_wired cr = \<lparr>
     Client = \<lparr>
       kGetCR = (\<lambda>_ w. (Inr cr, w)), kUpdateCR = (\<lambda>x w. (Inr x, w)), kStatusUpdate = (\<lambda>x w. (Inr x, w)),
       kGetPV = (\<lambda>_ w. (Inl not_found_error, w)), kCreatePV = (\<lambda>_ w. (None, w)), kUpdatePV = (\<lambda>_ w. (None, w)),
       kDeletePV = (\<lambda>_ w. (None, w)), kGetPVC = (\<lambda>_ w. (Inl not_found_error, w)),
       kCreatePVC = (\<lambda>_ w. (None, w)), kDeletePVC = (\<lambda>_ w. (None, w))\<rparr>,
     Huawei = client_interface demo_sdk (demo_metadata 0 (Inl (OtherError ''down''))),
     Lib = demo_library,
     Now = (\<lambda>w. (demo_time, w))\<rparr>"

lemma demo_wired_simps [simp]:
  "wired demo_sdk (demo_metadata 0 (Inl (OtherError ''down''))) (demo_wired cr)"
  "kGetCR (Reconciler.Client (demo_wired cr)) req s = (Inr cr, s)"
  "Lib (demo_wired cr) = demo_library"
  by (simp_all add: demo_wired_def wired_def)

lemma demo_gone: "sdk_ShowShare demo_sdk h i w = (Inl (ServiceResponseError 404 ''gone'' ''gone''), ())"
  "isNotFound (ServiceResponseError 404 ''gone'' ''gone'')"
  by (simp_all add: demo_sdk_def isNotFound_def)

theorem lost_id_is_recovered_witness:
  "\<exists>y a. CallStatusUpdate y a \<in> set (pass_calls (demo_wired demo_cr) demo_req demo_site)
     \<and> st_FsId (cr_Status y) = ''fs-9''"
proof -
  have handle: "run_state (ensureSDK demo_sdk (demo_metadata 0 (Inl (OtherError ''down'')))) (demo_site\<lparr>outside := ()\<rparr>)
      = (Inr ''AK'', demo_site)"
    unfolding demo_outside by (rule demo_handle)
  have "active (Lib (demo_wired demo_cr)) demo_cr" and "st_FsId (cr_Status demo_cr) = []"
    by (simp_all add: demo_defs active_def deleting_def protected_def timestamp_IsZero_def)
  from lost_id_is_recovered [OF demo_wired_simps(1) demo_wired_simps(2) this demo_handle demo_refused demo_taken
      handle demo_shares, of "demo_listing ''fs-9'' ''data''" "''fs-9''" demo_req]
  show ?thesis by (auto simp: demo_listing_def demo_defs)
qed

lemma upstream_404_is_forgotten_example:
  "\<exists>y a. CallStatusUpdate y a \<in> set (pass_calls (demo_wired demo_tracked) demo_req demo_site)
     \<and> st_FsId (cr_Status y) = []"
proof -
  have "active (Lib (demo_wired demo_tracked)) demo_tracked" and "st_FsId (cr_Status demo_tracked) \<noteq> []"
    by (simp_all add: demo_defs active_def deleting_def protected_def timestamp_IsZero_def)
  from upstream_404_is_forgotten [OF demo_wired_simps(1) demo_wired_simps(2) this demo_handle demo_gone, of demo_req]
  show ?thesis by auto
qed

lemma upstream_404_releases_example:
  "\<exists>fs y b. CallUpdateCR y b \<in> set (pass_calls (demo_wired demo_doomed) demo_req demo_site)
      \<and> cr_Finalizers y = RemoveFinalizer demo_library fs Finalizer"
proof -
  have td: "tearing_down (Lib (demo_wired demo_doomed)) demo_doomed"
    by (simp add: demo_defs demo_time_def tearing_down_def deleting_def protected_def timestamp_IsZero_def
        time_IsZero_def second_def)
  have get: "run_state (Client_Get demo_sdk (demo_metadata 0 (Inl (OtherError ''down''))) ''fs-1'') demo_site
      = (Inl (Errorf ''ShowShare(fs-1): '' (classify (ServiceResponseError 404 ''gone'' ''gone'')) []), demo_site)"
    by (simp add: Client_Get_def run_with_sdk [OF demo_handle] demo_gone demo_outside)
  have "is_ErrFsNotFound (classify (ServiceResponseError 404 ''gone'' ''gone''))"
    by (simp add: is_ErrFsNotFound_classify demo_gone)
  with td have "snd (fst (pass (demo_wired demo_doomed) demo_req demo_site)) = None"
    by (simp add: pass_defs run_defs demo_wired_def client_interface_def get demo_defs tearing_down_def
        deleting_def protected_def)
  from upstream_404_releases [OF demo_wired_simps(1) demo_wired_simps(2) td demo_handle demo_gone this]
  show ?thesis by auto
qed

end
